(* ===== verification/Memo_Prelude.thy ===== *)
theory Memo_Prelude
  imports Main "HOL-Library.Word" "HOL-Library.AList"
begin

text \<open>
  Shared vocabulary of the development: bytes and buffers, the conversion of a
  mathematical integer to the C++ type \<^verbatim>\<open>int\<close>, results of operations that may
  throw, the majority arithmetic used by the consensus layer, and facts about
  association lists with distinct keys (the model of \<^verbatim>\<open>std::unordered_map\<close>).
\<close>

named_theorems silo_simps "unfolding rules of the silo operations"
named_theorems paxos_simps "unfolding rules of the Paxos server operations"
named_theorems client_simps "unfolding rules of the Paxos client"
named_theorems block_simps "unfolding rules of block validation"

section \<open>Bytes, buffers and machine integers\<close>

type_synonym byte = "8 word"
type_synonym buffer = "byte list"

text \<open>
  Conversion to a 32-bit two's complement \<^verbatim>\<open>int\<close>, written out on \<^typ>\<open>int\<close>.
\<close>

definition int32 :: "int \<Rightarrow> int" where
  "int32 x = (x + 2 ^ 31) mod 2 ^ 32 - 2 ^ 31"

lemma int32_id: "- (2 ^ 31) \<le> x \<Longrightarrow> x < 2 ^ 31 \<Longrightarrow> int32 x = x"
  by (simp add: int32_def)

lemma int32_range: "- (2 ^ 31) \<le> int32 x \<and> int32 x < 2 ^ 31"
  by (simp add: int32_def)

lemma int32_idem [simp]: "int32 (int32 x) = int32 x"
  using int32_range [of x] by (simp add: int32_id)

lemma int32_add_mod: "int32 (int32 x + y) = int32 (x + y)"
proof -
  have "(int32 x + y + 2 ^ 31) mod 2 ^ 32 = (x + y + 2 ^ 31) mod 2 ^ 32"
    unfolding int32_def by (simp add: mod_simps algebra_simps)
  then show ?thesis by (simp only: int32_def)
qed

text \<open>The bytes of a string.\<close>

definition bytes_of :: "string \<Rightarrow> buffer" where
  "bytes_of = map (\<lambda>c. of_nat (of_char c))"

section \<open>Results\<close>

text \<open>
  An operation that may throw returns a sum: \<open>Inl\<close> is the exception, \<open>Inr\<close> the
  result. The helper below sequences two such operations.
\<close>

definition bind_res :: "'e + 'a \<Rightarrow> ('a \<Rightarrow> 'e + 'b) \<Rightarrow> 'e + 'b" where
  "bind_res r f = (case r of Inl e \<Rightarrow> Inl e | Inr x \<Rightarrow> f x)"

lemma bind_res_simps [simp]:
  "bind_res (Inl e) f = Inl e"
  "bind_res (Inr x) f = f x"
  by (simp_all add: bind_res_def)

lemma bind_res_eq_Inr: "bind_res r f = Inr y \<longleftrightarrow> (\<exists>x. r = Inr x \<and> f x = Inr y)"
  by (cases r) auto

lemma bind_res_eq_Inl:
  "bind_res r f = Inl e \<longleftrightarrow> r = Inl e \<or> (\<exists>x. r = Inr x \<and> f x = Inl e)"
  by (cases r) auto

section \<open>Majorities\<close>

text \<open>Two sets that each hold more than half of a finite set meet.\<close>

lemma majorities_meet:
  assumes "finite q" and "A \<subseteq> q" and "B \<subseteq> q"
    and "card q < 2 * card A" and "card q < 2 * card B"
  shows "A \<inter> B \<noteq> {}"
proof
  assume disj: "A \<inter> B = {}"
  have fin: "finite A" "finite B" using assms(1-3) by (auto intro: finite_subset)
  have "card A + card B = card (A \<union> B)" using fin disj by (simp add: card_Un_disjoint)
  also have "\<dots> \<le> card q" using assms(1-3) by (intro card_mono) auto
  finally show False using assms(4,5) by linarith
qed

section \<open>Association lists\<close>

lemma map_of_delete_neq: "k \<noteq> k' \<Longrightarrow> map_of (AList.delete k al) k' = map_of al k'"
  by (simp add: delete_conv)

lemma map_of_delete_eq [simp]: "map_of (AList.delete k al) k = None"
  by (simp add: delete_conv)

lemma map_of_update: "map_of (AList.update k v al) = (map_of al)(k \<mapsto> v)"
  by (simp add: update_conv')

lemma distinct_keys_update:
  "distinct (map fst al) \<Longrightarrow> distinct (map fst (AList.update k v al))"
  by (rule distinct_update)

lemma distinct_keys_delete:
  "distinct (map fst al) \<Longrightarrow> distinct (map fst (AList.delete k al))"
  by (rule distinct_delete)

lemma set_keys_map_of: "set (map fst al) = dom (map_of al)"
  by (simp add: dom_map_of_conv_image_fst)

end
