(* ===== verification/Elle_Version.thy ===== *)
theory Elle_Version
  imports Memo_Prelude
begin

text \<open>
  The class \<^verbatim>\<open>elle::Version\<close> (elle/src/elle/Version.hh and Version.cc): a triple of
  \<^verbatim>\<open>uint8_t\<close> ordered lexicographically, its decimal printer and the parser
  \<^verbatim>\<open>from_string\<close>, with the parts of \<^verbatim>\<open>std::stoi\<close> and \<^verbatim>\<open>boost::split\<close> that the parser
  uses. Compatibility versions guard most of the serialization and validation
  code, so every other component depends on the order defined here.
\<close>

section \<open>The version triple and its order\<close>

datatype version = Version (major: byte) (minor: byte) (subminor: byte)

fun version_tie :: "version \<Rightarrow> byte \<times> byte \<times> byte" where
  "version_tie (Version a b c) = (a, b, c)"

fun version_less :: "version \<Rightarrow> version \<Rightarrow> bool" where
  "version_less (Version a b c) (Version a' b' c') =
     (a < a' \<or> a = a' \<and> (b < b' \<or> b = b' \<and> c < c'))"

instantiation version :: linorder
begin

definition less_version :: "version \<Rightarrow> version \<Rightarrow> bool" where
  "less_version v w = version_less v w"

definition less_eq_version :: "version \<Rightarrow> version \<Rightarrow> bool" where
  "less_eq_version v w \<longleftrightarrow> v < w \<or> v = w"

instance
proof
  fix v w u :: version
  show "(v < w) = (v \<le> w \<and> \<not> w \<le> v)"
    by (cases v; cases w) (auto simp: less_version_def less_eq_version_def)
  show "v \<le> v" by (simp add: less_eq_version_def)
  show "v \<le> w \<Longrightarrow> w \<le> u \<Longrightarrow> v \<le> u"
    by (cases v; cases w; cases u) (auto simp: less_version_def less_eq_version_def)
  show "v \<le> w \<Longrightarrow> w \<le> v \<Longrightarrow> v = w"
    by (cases v; cases w) (auto simp: less_version_def less_eq_version_def)
  show "v \<le> w \<or> w \<le> v"
    by (cases v; cases w) (auto simp: less_version_def less_eq_version_def)
qed

end

lemma less_version_simps [simp]:
  "Version a b c < Version a' b' c' \<longleftrightarrow> a < a' \<or> a = a' \<and> (b < b' \<or> b = b' \<and> c < c')"
  by (simp add: less_version_def)

lemma version_le_def: "(v :: version) \<le> w \<longleftrightarrow> v < w \<or> v = w"
  by (rule less_eq_version_def)

text \<open>The source's \<^verbatim>\<open>operator >\<close> is spelled with \<^verbatim>\<open>==\<close> and \<^verbatim>\<open><\<close>.\<close>

definition version_gt :: "version \<Rightarrow> version \<Rightarrow> bool" where
  "version_gt v w \<longleftrightarrow> \<not> (v = w \<or> v < w)"

section \<open>Printing\<close>

fun decimal :: "nat \<Rightarrow> string" where
  "decimal n =
     (if n < 10 then [char_of (48 + n)]
      else decimal (n div 10) @ [char_of (48 + n mod 10)])"

declare decimal.simps [simp del]

definition print_version :: "version \<Rightarrow> string" where
  "print_version v =
     decimal (unat (major v)) @ ''.'' @ decimal (unat (minor v)) @ ''.'' @
     decimal (unat (subminor v))"

section \<open>Parsing\<close>

datatype version_error =
    FormatError string      \<comment> \<open>\<^verbatim>\<open>elle::serialization::Error\<close>\<close>
  | OutOfRange              \<comment> \<open>\<^verbatim>\<open>std::out_of_range\<close>, not caught by the parser\<close>

datatype stoi_error = StoiInvalid | StoiRange

definition is_digit :: "char \<Rightarrow> bool" where
  "is_digit c \<longleftrightarrow> 48 \<le> (of_char c :: nat) \<and> (of_char c :: nat) \<le> 57"

definition is_space :: "char \<Rightarrow> bool" where
  "is_space c \<longleftrightarrow> (of_char c :: nat) = 32 \<or> 9 \<le> (of_char c :: nat) \<and> (of_char c :: nat) \<le> 13"

definition digits_value :: "string \<Rightarrow> int" where
  "digits_value ds = foldl (\<lambda>acc d. 10 * acc + (int (of_char d) - 48)) 0 ds"

text \<open>
  \<^verbatim>\<open>std::stoi\<close>: leading white space, an optional sign, at least one digit; what
  follows the digits is ignored; a value outside the 32-bit range is an error.
\<close>

definition stoi :: "string \<Rightarrow> stoi_error + int" where
  "stoi s =
     (let s1 = dropWhile is_space s;
          neg = (s1 \<noteq> [] \<and> hd s1 = CHR ''-'');
          s2 = (if s1 \<noteq> [] \<and> (hd s1 = CHR ''-'' \<or> hd s1 = CHR ''+'') then tl s1 else s1);
          ds = takeWhile is_digit s2
      in if ds = [] then Inl StoiInvalid
         else let n = (if neg then - digits_value ds else digits_value ds)
              in if - (2 ^ 31) \<le> n \<and> n < 2 ^ 31 then Inr n else Inl StoiRange)"

text \<open>\<^verbatim>\<open>boost::split\<close> on one separator, empty tokens kept.\<close>

fun split_on :: "char \<Rightarrow> string \<Rightarrow> string list" where
  "split_on c [] = [[]]"
| "split_on c (x # xs) =
     (if x = c then [] # split_on c xs
      else (case split_on c xs of [] \<Rightarrow> [[x]] | w # ws \<Rightarrow> (x # w) # ws))"

definition stoi_field :: "string \<Rightarrow> string \<Rightarrow> version_error + int" where
  "stoi_field repr s =
     (case stoi s of
        Inr n \<Rightarrow> Inr n
      | Inl StoiInvalid \<Rightarrow> Inl (FormatError repr)
      | Inl StoiRange \<Rightarrow> Inl OutOfRange)"

definition from_string :: "string \<Rightarrow> version_error + version" where
  "from_string repr =
     (if repr = [] then Inl (FormatError repr)
      else
        let strs = split_on (CHR ''.'') repr;
            ma = (if length strs > 0 then strs ! 0 else ''0'');
            mi = (if length strs > 1 then strs ! 1 else ''0'');
            su = (if length strs > 2 then strs ! 2 else ''0'')
        in bind_res (stoi_field repr ma) (\<lambda>a.
           bind_res (stoi_field repr mi) (\<lambda>b.
           bind_res (stoi_field repr su) (\<lambda>c.
             Inr (Version (word_of_int a) (word_of_int b) (word_of_int c))))))"

section \<open>Round trip\<close>

lemma of_char_digit [simp]: "d < 10 \<Longrightarrow> (of_char (char_of (48 + d)) :: nat) = 48 + d"
  by (simp add: of_char_of)

lemma decimal_digits: "\<forall>c \<in> set (decimal n). is_digit c"
proof (induction n rule: decimal.induct)
  case (1 n)
  show ?case
  proof (cases "n < 10")
    case True
    then show ?thesis by (subst decimal.simps) (simp add: is_digit_def)
  next
    case False
    then have "n mod 10 < 10" by simp
    with False "1.IH" show ?thesis by (subst decimal.simps) (auto simp: is_digit_def)
  qed
qed

lemma decimal_nonempty [simp]: "decimal n \<noteq> []"
  by (subst decimal.simps) simp

lemma digits_value_snoc:
  "digits_value (ds @ [d]) = 10 * digits_value ds + (int (of_char d) - 48)"
  by (simp add: digits_value_def)

lemma digits_value_decimal: "digits_value (decimal n) = int n"
proof (induction n rule: decimal.induct)
  case (1 n)
  show ?case
  proof (cases "n < 10")
    case True
    then show ?thesis by (subst decimal.simps) (simp add: digits_value_def)
  next
    case False
    have "digits_value (decimal n) = 10 * int (n div 10) + int (n mod 10)"
      using False "1.IH" by (subst decimal.simps) (simp add: digits_value_snoc)
    moreover have "10 * int (n div 10) + int (n mod 10) = int n"
      by (metis mult_div_mod_eq of_nat_add of_nat_mult of_nat_numeral)
    ultimately show ?thesis by simp
  qed
qed

lemma digit_not_special: "is_digit c \<Longrightarrow> \<not> is_space c \<and> c \<noteq> CHR ''-'' \<and> c \<noteq> CHR ''+'' \<and> c \<noteq> CHR ''.''"
  by (auto simp: is_digit_def is_space_def)

lemma takeWhile_all: "\<forall>x \<in> set xs. P x \<Longrightarrow> takeWhile P xs = xs"
  by (simp add: takeWhile_eq_all_conv)

lemma stoi_decimal: "n < 256 \<Longrightarrow> stoi (decimal n) = Inr (int n)"
proof -
  assume n: "n < 256"
  obtain c cs where c: "decimal n = c # cs" by (cases "decimal n") auto
  have is_c: "is_digit c" using decimal_digits [of n] c by simp
  then have sp: "\<not> is_space c" "c \<noteq> CHR ''-''" "c \<noteq> CHR ''+''"
    using digit_not_special by blast+
  have tw: "takeWhile is_digit cs = cs"
    using decimal_digits [of n] c by (intro takeWhile_all) simp
  have val: "digits_value (c # cs) = int n" using digits_value_decimal [of n] c by simp
  show ?thesis
    using n sp unfolding stoi_def c by (simp add: Let_def tw val is_c)
qed

lemma split_on_nosep: "c \<notin> set w \<Longrightarrow> split_on c w = [w]"
  by (induction w) auto

lemma split_on_append: "c \<notin> set w \<Longrightarrow> split_on c (w @ c # rest) = w # split_on c rest"
  by (induction w) auto

lemma dot_notin_decimal: "CHR ''.'' \<notin> set (decimal n)"
  using decimal_digits [of n] digit_not_special by blast

lemma word_of_int_unat [simp]: "word_of_int (int (unat (w :: byte))) = w"
  by simp

lemma unat_byte_less: "unat (w :: byte) < 256"
  using unsigned_less [of w, where 'a = nat] by simp

text \<open>
  Printing a version and parsing it back gives the same version, for every
  version: the textual form used by the JSON serializer loses nothing.
\<close>

text \<open>
  Versions survive their text form: parsing what \<open>print\<close> writes gives the same version, for
  every version.
\<close>

theorem from_string_print: "from_string (print_version v) = Inr v"
proof -
  have split: "split_on (CHR ''.'') (print_version v) =
      [decimal (unat (major v)), decimal (unat (minor v)), decimal (unat (subminor v))]"
    by (simp add: print_version_def split_on_append split_on_nosep dot_notin_decimal)
  have ne: "print_version v \<noteq> []" by (simp add: print_version_def)
  show ?thesis
    using ne unfolding from_string_def
    by (simp add: split stoi_field_def stoi_decimal unat_byte_less)
qed

lemma version_gt_iff: "version_gt v w \<longleftrightarrow> w < v"
  unfolding version_gt_def by (auto simp: not_less_iff_gr_or_eq)

end
