(* ===== verification/Memo_Address.thy ===== *)
theory Memo_Address
  imports Elle_Version
begin

unbundle bit_operations_syntax

text \<open>
  Block and node addresses: \<^verbatim>\<open>memo::model::Address\<close> (model/Address.hh, model/Address.cc)
  over the hexadecimal codec \<^verbatim>\<open>elle::format::hexadecimal\<close>. An address is 32 bytes and
  a cached \<^verbatim>\<open>mutable_block\<close> bit; comparison and hashing look at the bytes only. The
  theory models the constructors, the comparison operators, the printer and parser,
  and the serialization conversion, and relates the byte order to the order of
  256-bit numbers, the type of node identifiers of the consensus layer.
\<close>

section \<open>Hexadecimal codec\<close>

definition hex_chars :: string where
  "hex_chars = ''0123456789abcdef''"

definition nibble_char :: "nat \<Rightarrow> char" where
  "nibble_char n = hex_chars ! n"

fun hex_encode :: "buffer \<Rightarrow> string" where
  "hex_encode [] = []"
| "hex_encode (c # cs) =
     nibble_char (unat (drop_bit 4 c AND 15)) # nibble_char (unat (c AND 15)) # hex_encode cs"

definition hex_to_value :: "char \<Rightarrow> int" where
  "hex_to_value c =
     (let n = (of_char c :: nat) in
      if 48 \<le> n \<and> n \<le> 57 then int n - 48
      else if 97 \<le> n \<and> n \<le> 102 then int n - 97 + 10
      else - 1)"

datatype hex_error = OddLength | InvalidChar

fun hex_decode_loop :: "string \<Rightarrow> hex_error + buffer" where
  "hex_decode_loop (c1 # c2 # cs) =
     (if hex_to_value c1 = - 1 \<or> hex_to_value c2 = - 1 then Inl InvalidChar
      else bind_res (hex_decode_loop cs) (\<lambda>bs.
             Inr (((push_bit 4 (word_of_int (hex_to_value c1)) AND 240)
                   + (word_of_int (hex_to_value c2) AND 15)) # bs)))"
| "hex_decode_loop _ = Inr []"

definition hex_decode :: "string \<Rightarrow> hex_error + buffer" where
  "hex_decode s = (if length s mod 2 \<noteq> 0 then Inl OddLength else hex_decode_loop s)"

section \<open>Addresses\<close>

definition value_size :: nat where "value_size = 32"
definition flag_byte :: nat where "flag_byte = 31"

definition flags_mutable_block :: byte where "flags_mutable_block = 0"
definition flags_immutable_block :: byte where "flags_immutable_block = 1"
definition flags_block_kind :: byte where "flags_block_kind = 1"

record address =
  addr_value :: buffer
  addr_mutable :: bool

definition addr_wf :: "address \<Rightarrow> bool" where
  "addr_wf a \<longleftrightarrow> length (addr_value a) = value_size"

definition addr_null :: address where
  "addr_null = \<lparr>addr_value = replicate value_size 0, addr_mutable = True\<rparr>"

text \<open>The constructor \<^verbatim>\<open>Address(Value, Flags, bool combine)\<close>.\<close>

definition addr_flagged :: "buffer \<Rightarrow> byte \<Rightarrow> bool \<Rightarrow> address" where
  "addr_flagged v flags combine =
     \<lparr>addr_value = (if combine then (take value_size v)[flag_byte := flags] else take value_size v),
      addr_mutable = ((flags AND flags_block_kind) = flags_mutable_block)\<rparr>"

definition addr_of_value :: "buffer \<Rightarrow> address" where
  "addr_of_value v = addr_flagged v (v ! flag_byte) False"

text \<open>
  \<^verbatim>\<open>memcmp\<close> on the first \<open>n\<close> bytes. The standard fixes the sign of the result
  only, and the callers use the sign only.
\<close>

fun memcmp :: "buffer \<Rightarrow> buffer \<Rightarrow> nat \<Rightarrow> int" where
  "memcmp _ _ 0 = 0"
| "memcmp (x # xs) (y # ys) (Suc n) =
     (if x < y then - 1 else if y < x then 1 else memcmp xs ys n)"
| "memcmp _ _ (Suc n) = 0"

definition addr_cmp :: "address \<Rightarrow> address \<Rightarrow> int" where
  "addr_cmp a b = memcmp (addr_value a) (addr_value b) value_size"

definition addr_eq :: "address \<Rightarrow> address \<Rightarrow> bool" where
  "addr_eq a b \<longleftrightarrow> addr_cmp a b = 0"

definition addr_less :: "address \<Rightarrow> address \<Rightarrow> bool" where
  "addr_less a b \<longleftrightarrow> addr_cmp a b < 0"

definition addr_bool :: "address \<Rightarrow> bool" where
  "addr_bool a \<longleftrightarrow> \<not> addr_eq a addr_null"

definition equal_unflagged :: "address \<Rightarrow> address \<Rightarrow> bool" where
  "equal_unflagged a b \<longleftrightarrow> memcmp (addr_value a) (addr_value b) (value_size - 1) = 0"

definition addr_random :: "buffer \<Rightarrow> address" where
  \<comment> \<open>the argument is what the random generator returned, at least 32 bytes\<close>
  "addr_random buf = addr_of_value buf"

definition addr_random_flags :: "buffer \<Rightarrow> byte \<Rightarrow> address" where
  "addr_random_flags buf flags = addr_flagged (addr_value (addr_random buf)) flags True"

section \<open>Text and wire forms\<close>

text \<open>
  \<^verbatim>\<open>strtol(c, nullptr, 16)\<close> on a NUL-terminated string: white space, sign, optional
  \<^verbatim>\<open>0x\<close> when a digit follows it, then the longest run of hexadecimal digits.
\<close>

definition xdigit :: "char \<Rightarrow> int option" where
  "xdigit c =
     (let n = (of_char c :: nat) in
      if 48 \<le> n \<and> n \<le> 57 then Some (int n - 48)
      else if 97 \<le> n \<and> n \<le> 102 then Some (int n - 87)
      else if 65 \<le> n \<and> n \<le> 70 then Some (int n - 55)
      else None)"

fun xdigits_value :: "int \<Rightarrow> string \<Rightarrow> int" where
  "xdigits_value acc [] = acc"
| "xdigits_value acc (c # cs) =
     (case xdigit c of None \<Rightarrow> acc | Some d \<Rightarrow> xdigits_value (16 * acc + d) cs)"

definition strip_0x :: "string \<Rightarrow> string" where
  "strip_0x s =
     (case s of
        c0 # c1 # c2 # rest \<Rightarrow>
          if c0 = CHR ''0'' \<and> (c1 = CHR ''x'' \<or> c1 = CHR ''X'') \<and> xdigit c2 \<noteq> None
          then c2 # rest else s
      | _ \<Rightarrow> s)"

definition strtol16 :: "string \<Rightarrow> int" where
  "strtol16 s =
     (let s1 = dropWhile is_space s in
      case s1 of
        [] \<Rightarrow> 0
      | c # cs \<Rightarrow>
          if c = CHR ''-'' then - xdigits_value 0 (strip_0x cs)
          else if c = CHR ''+'' then xdigits_value 0 (strip_0x cs)
          else xdigits_value 0 (strip_0x s1))"

datatype addr_error = InvalidAddress

fun parse_bytes :: "nat \<Rightarrow> string \<Rightarrow> addr_error + (buffer \<times> string)" where
  "parse_bytes 0 s = Inr ([], s)"
| "parse_bytes (Suc n) (c0 # c1 # s) =
     bind_res (parse_bytes n s) (\<lambda>(bs, rest). Inr (word_of_int (strtol16 [c0, c1]) # bs, rest))"
| "parse_bytes (Suc n) _ = Inl InvalidAddress"

definition addr_from_string :: "string \<Rightarrow> addr_error + address" where
  "addr_from_string repr =
     (let s = (if length repr \<ge> 2 \<and> repr ! 0 = CHR ''0'' \<and> repr ! 1 = CHR ''x''
               then drop 2 repr else repr)
      in bind_res (parse_bytes 32 s) (\<lambda>(v, rest).
           if rest \<noteq> [] then Inl InvalidAddress else Inr (addr_of_value v)))"

text \<open>\<^verbatim>\<open>operator <<\<close> in hexadecimal mode (\<^verbatim>\<open>%x\<close>): every byte, after \<^verbatim>\<open>0x\<close>.\<close>

definition addr_print_hex :: "address \<Rightarrow> string" where
  "addr_print_hex a = ''0x'' @ hex_encode (addr_value a)"

text \<open>
  \<^verbatim>\<open>operator <<\<close> in short mode (\<^verbatim>\<open>%f\<close>): the first four bytes less their trailing
  zeros, but at least one byte, then the flag byte if it is not zero.
\<close>

fun trim_zeros :: "buffer \<Rightarrow> buffer" where
  "trim_zeros b = (if length b > 1 \<and> last b = 0 then trim_zeros (butlast b) else b)"

declare trim_zeros.simps [simp del]

definition addr_print_short :: "address \<Rightarrow> string" where
  "addr_print_short a =
     ''0x'' @ hex_encode (trim_zeros (take 4 (addr_value a))) @
     (if addr_value a ! flag_byte \<noteq> 0 then hex_encode [addr_value a ! flag_byte] else [])"

text \<open>The two directions of \<^verbatim>\<open>Serialize<Address>::convert\<close>.\<close>

definition addr_to_buffer :: "address \<Rightarrow> buffer" where
  "addr_to_buffer a = take value_size (addr_value a)"

definition addr_of_buffer :: "buffer \<Rightarrow> addr_error + address" where
  "addr_of_buffer b =
     (if b = [] then Inr addr_null
      else if length b = value_size then Inr (addr_of_value b)
      else Inl InvalidAddress)"

section \<open>Addresses as numbers\<close>

text \<open>
  The 32 bytes read as a big-endian number. This is the type of node and client
  identifiers in the consensus theories: comparison of addresses is comparison of
  these numbers, and the null address is zero.
\<close>

fun be_value :: "buffer \<Rightarrow> nat" where
  "be_value [] = 0"
| "be_value (b # bs) = unat b * 256 ^ length bs + be_value bs"

definition addr_id :: "address \<Rightarrow> 256 word" where
  "addr_id a = of_nat (be_value (addr_value a))"

text \<open>
  The cached bit agrees with the flag byte. It does for addresses built with
  \<^verbatim>\<open>combine\<close> and for those read from the wire.
\<close>

definition addr_consistent :: "address \<Rightarrow> bool" where
  "addr_consistent a \<longleftrightarrow> addr_mutable a = even (addr_value a ! flag_byte)"

section \<open>Codec round trips\<close>

lemma nibble_hi: "unat (drop_bit 4 (c::byte) AND 15) = unat c div 16"
proof -
  have "unat (drop_bit 4 c AND 15) = unat (take_bit 4 (drop_bit 4 c))"
    by (simp add: take_bit_eq_mask mask_eq_exp_minus_1)
  also have "\<dots> = unat c div 16 mod 16"
    by (simp add: unsigned_take_bit_eq unsigned_drop_bit_eq take_bit_eq_mod drop_bit_eq_div unat_mod_distrib unat_div_distrib)
  also have "\<dots> = unat c div 16"
    using unsigned_less [of c, where 'a = nat] by simp
  finally show ?thesis .
qed

lemma nibble_lo: "unat ((c::byte) AND 15) = unat c mod 16"
proof -
  have "unat (c AND 15) = unat (take_bit 4 c)"
    by (simp add: take_bit_eq_mask mask_eq_exp_minus_1)
  then show ?thesis by (simp add: unsigned_take_bit_eq take_bit_eq_mod unat_mod_distrib)
qed

lemma less_16_cases: "n < 16 \<Longrightarrow> n \<in> {0,1,2,3,4,5,6,7,8,9,10,11,12,13,14,15::nat}"
  by (simp; presburger)

lemma hex_value_nibble: "n < 16 \<Longrightarrow> hex_to_value (nibble_char n) = int n"
  by (drule less_16_cases) (auto simp: hex_to_value_def nibble_char_def hex_chars_def)

lemma xdigit_nibble: "n < 16 \<Longrightarrow> xdigit (nibble_char n) = Some (int n)"
  by (drule less_16_cases) (auto simp: xdigit_def nibble_char_def hex_chars_def)

lemma recombine_byte:
  "(push_bit 4 (drop_bit 4 c) AND 240) + (c AND 15) = (c :: byte)"
proof -
  have bits: "n \<in> {0,1,2,3,4,5,6,7}" if "n < 8" for n :: nat
    using that by (simp; presburger)
  have "(push_bit 4 (drop_bit 4 c) AND 240) + (c AND 15)
      = (push_bit 4 (drop_bit 4 c) AND 240) OR (c AND 15)"
    by (rule disjunctive_add) (auto simp: bit_simps dest!: bits)
  also have "\<dots> = c"
    by (rule bit_word_eqI) (auto simp: bit_simps dest!: bits)
  finally show ?thesis .
qed

lemma nibble_less: "unat (drop_bit 4 (c :: byte) AND 15) < 16" "unat (c AND 15) < 16"
  using unsigned_less [of c, where 'a = nat] by (simp_all add: nibble_hi nibble_lo)

lemma hex_encode_length [simp]: "length (hex_encode bs) = 2 * length bs"
  by (induction bs) auto

lemma uint_byte_not_neg: "uint (w :: byte) \<noteq> - 1"
  using unsigned_greater_eq [of w, where 'a = int] by linarith

lemma hex_decode_encode: "hex_decode (hex_encode bs) = Inr bs"
proof -
  have "hex_decode_loop (hex_encode bs) = Inr bs"
    by (induction bs) (simp_all add: hex_value_nibble nibble_less recombine_byte uint_byte_not_neg)
  then show ?thesis by (simp add: hex_decode_def)
qed

lemma nibble_not_space: "n < 16 \<Longrightarrow> \<not> is_space (nibble_char n) \<and> nibble_char n \<noteq> CHR ''-''
    \<and> nibble_char n \<noteq> CHR ''+'' \<and> nibble_char n \<noteq> CHR ''x''"
  by (drule less_16_cases) (auto simp: is_space_def nibble_char_def hex_chars_def)

lemma strtol16_nibbles:
  assumes "h < 16" and "l < 16"
  shows "strtol16 [nibble_char h, nibble_char l] = 16 * int h + int l"
  using nibble_not_space [OF assms(1)] assms
  by (simp add: strtol16_def strip_0x_def xdigit_nibble)

lemma strtol16_byte:
  "word_of_int (strtol16 [nibble_char (unat (drop_bit 4 c AND 15)), nibble_char (unat (c AND 15))])
   = (c :: byte)"
proof -
  have "16 * int (unat c div 16) + int (unat c mod 16) = int (unat c)"
    by (metis mult_div_mod_eq of_nat_add of_nat_mult of_nat_numeral)
  then have "strtol16 [nibble_char (unat (drop_bit 4 c AND 15)), nibble_char (unat (c AND 15))]
      = int (unat c)"
    by (simp only: strtol16_nibbles nibble_less, simp only: nibble_hi, simp only: nibble_lo)
  then show ?thesis by (simp only: word_of_int_unat)
qed

lemma parse_bytes_hex:
  "parse_bytes (length bs) (hex_encode bs) = Inr (bs, [])"
  by (induction bs) (simp_all add: strtol16_byte)

lemma parse_bytes_length:
  "parse_bytes n s = Inr (v, rest) \<Longrightarrow> length v = n \<and> length s = 2 * n + length rest"
  by (induction n s arbitrary: v rest rule: parse_bytes.induct)
    (auto simp: bind_res_eq_Inr split: prod.splits)

lemma parse_bytes_total: "length s = 2 * n + m \<Longrightarrow> \<exists>v rest. parse_bytes n s = Inr (v, rest)"
proof (induction n s rule: parse_bytes.induct)
  case (2 n c0 c1 s)
  then obtain v rest where "parse_bytes n s = Inr (v, rest)" by auto
  then show ?case by simp
qed auto

text \<open>The printed hexadecimal form parses back to the same 32 bytes.\<close>

lemma addr_from_string_print:
  assumes "addr_wf a"
  shows "addr_from_string (addr_print_hex a) = Inr (addr_of_value (addr_value a))"
proof -
  have "parse_bytes 32 (hex_encode (addr_value a)) = Inr (addr_value a, [])"
    using parse_bytes_hex [of "addr_value a"] assms by (simp add: addr_wf_def value_size_def)
  then show ?thesis by (simp add: addr_from_string_def addr_print_hex_def)
qed

text \<open>
  A string is an address exactly when it has 64 characters, or 66 of which the first
  two are \<^verbatim>\<open>0x\<close>: the digits themselves are never checked.
\<close>

lemma addr_from_string_accepts:
  assumes "\<not> (length s \<ge> 2 \<and> s ! 0 = CHR ''0'' \<and> s ! 1 = CHR ''x'')"
  shows "(\<exists>a. addr_from_string s = Inr a) \<longleftrightarrow> length s = 64"
    and "(\<exists>a. addr_from_string (''0x'' @ s) = Inr a) \<longleftrightarrow> length s = 64"
proof -
  have parse: "(\<exists>a. bind_res (parse_bytes 32 s) (\<lambda>(v, rest).
           if rest \<noteq> [] then Inl InvalidAddress else Inr (addr_of_value v)) = Inr a)
        \<longleftrightarrow> length s = 64"
  proof
    assume "length s = 64"
    then obtain v rest where p: "parse_bytes 32 s = Inr (v, rest)"
      using parse_bytes_total [of s 32 0] by auto
    with \<open>length s = 64\<close> have "rest = []" using parse_bytes_length [OF p] by simp
    with p show "\<exists>a. bind_res (parse_bytes 32 s) (\<lambda>(v, rest).
           if rest \<noteq> [] then Inl InvalidAddress else Inr (addr_of_value v)) = Inr a" by simp
  qed (auto simp: bind_res_eq_Inr split: prod.splits if_splits dest: parse_bytes_length)
  show "(\<exists>a. addr_from_string s = Inr a) \<longleftrightarrow> length s = 64"
    using parse assms unfolding addr_from_string_def Let_def by (simp only: if_False)
  show "(\<exists>a. addr_from_string (''0x'' @ s) = Inr a) \<longleftrightarrow> length s = 64"
    using parse by (simp add: addr_from_string_def)
qed

section \<open>Order, equality and wire form\<close>

lemma memcmp_take:
  "length xs = length ys \<Longrightarrow> n \<le> length xs \<Longrightarrow> memcmp xs ys n = 0 \<longleftrightarrow> take n xs = take n ys"
proof (induction xs ys arbitrary: n rule: list_induct2)
  case (Cons x xs y ys)
  then show ?case by (cases n) (auto split: if_splits)
qed simp

lemma be_value_less: "be_value bs < 256 ^ length bs"
proof (induction bs)
  case (Cons b bs)
  have "unat b * 256 ^ length bs \<le> 255 * 256 ^ length bs"
    using unat_byte_less [of b] by (intro mult_le_mono1) simp
  from this Cons have "be_value (b # bs) < 255 * 256 ^ length bs + 256 ^ length bs"
    unfolding be_value.simps by (rule add_le_less_mono)
  then show ?case by simp
qed simp

lemma be_value_step:
  assumes "length xs = length ys" and "x < y"
  shows "be_value (x # xs) < be_value (y # ys)"
proof -
  have "unat x + 1 \<le> unat y" using assms(2) by (simp add: word_less_nat_alt)
  then have "(unat x + 1) * 256 ^ length xs \<le> unat y * 256 ^ length xs"
    by (rule mult_le_mono1)
  with be_value_less [of xs] assms(1) show ?thesis by (simp add: algebra_simps)
qed

lemma memcmp_be_value:
  "length xs = length ys \<Longrightarrow> memcmp xs ys (length xs) < 0 \<longleftrightarrow> be_value xs < be_value ys"
proof (induction xs ys rule: list_induct2)
  case (Cons x xs y ys)
  consider "x < y" | "y < x" | "x = y" by (meson not_less_iff_gr_or_eq)
  then show ?case
  proof cases
    case 1
    with Cons(1) show ?thesis using be_value_step [of xs ys x y] by simp
  next
    case 2
    with Cons(1) show ?thesis using be_value_step [of ys xs y x] by simp
  next
    case 3
    with Cons show ?thesis by simp
  qed
qed simp

lemma be_value_inject:
  "length xs = length ys \<Longrightarrow> be_value xs = be_value ys \<longleftrightarrow> xs = ys"
proof (induction xs ys rule: list_induct2)
  case (Cons x xs y ys)
  show ?case
  proof (cases "x = y")
    case False
    then have "x < y \<or> y < x" by (meson not_less_iff_gr_or_eq)
    then have "be_value (x # xs) \<noteq> be_value (y # ys)"
      using Cons(1) be_value_step [of xs ys x y] be_value_step [of ys xs y x] by auto
    with False show ?thesis by simp
  qed (use Cons in simp)
qed simp

lemma unat_addr_id: "addr_wf a \<Longrightarrow> unat (addr_id a) = be_value (addr_value a)"
  using be_value_less [of "addr_value a"]
  by (simp add: addr_id_def addr_wf_def value_size_def unat_of_nat)

lemma addr_eq_value: "addr_wf a \<Longrightarrow> addr_wf b \<Longrightarrow> addr_eq a b \<longleftrightarrow> addr_value a = addr_value b"
  using memcmp_take [of "addr_value a" "addr_value b" value_size]
  by (simp add: addr_eq_def addr_cmp_def addr_wf_def)

lemma addr_eq_id: "addr_wf a \<Longrightarrow> addr_wf b \<Longrightarrow> addr_eq a b \<longleftrightarrow> addr_id a = addr_id b"
  using be_value_inject [of "addr_value a" "addr_value b"]
  by (auto simp: addr_eq_value addr_wf_def word_unat_eq_iff unat_addr_id)

lemma addr_less_id: "addr_wf a \<Longrightarrow> addr_wf b \<Longrightarrow> addr_less a b \<longleftrightarrow> addr_id a < addr_id b"
  using memcmp_be_value [of "addr_value a" "addr_value b"]
  by (simp add: addr_less_def addr_cmp_def word_less_nat_alt unat_addr_id) (simp add: addr_wf_def)

lemma addr_null_id: "addr_id addr_null = 0"
proof -
  have "be_value (replicate n 0) = 0" for n by (induction n) auto
  then show ?thesis by (simp add: addr_id_def addr_null_def)
qed

lemma equal_unflagged_take:
  "addr_wf a \<Longrightarrow> addr_wf b \<Longrightarrow>
   equal_unflagged a b \<longleftrightarrow> take flag_byte (addr_value a) = take flag_byte (addr_value b)"
  using memcmp_take [of "addr_value a" "addr_value b" 31]
  by (simp add: equal_unflagged_def addr_wf_def value_size_def flag_byte_def)

lemma addr_flagged_wf: "length v \<ge> value_size \<Longrightarrow> addr_wf (addr_flagged v f c)"
  by (simp add: addr_wf_def addr_flagged_def)

lemma addr_flagged_unflagged:
  "length v \<ge> value_size \<Longrightarrow> equal_unflagged (addr_flagged v f c) (addr_flagged v f' c')"
  by (simp add: equal_unflagged_take addr_flagged_wf) (simp add: addr_flagged_def)

lemma block_kind_bit: "(f AND flags_block_kind) = flags_mutable_block \<longleftrightarrow> even f"
  for f :: byte
  by (simp add: flags_block_kind_def flags_mutable_block_def and_one_eq even_iff_mod_2_eq_zero)

lemma addr_flagged_mutable: "addr_mutable (addr_flagged v f c) \<longleftrightarrow> even f"
  by (simp add: addr_flagged_def block_kind_bit)

lemma addr_of_value_mutable: "addr_mutable (addr_of_value v) \<longleftrightarrow> even (v ! flag_byte)"
  by (simp add: addr_of_value_def addr_flagged_mutable)

lemma addr_wire_roundtrip:
  assumes "addr_wf a"
  shows "addr_of_buffer (addr_to_buffer a) = Inr (addr_of_value (addr_value a))"
    and "addr_of_value (addr_value a) = a \<longleftrightarrow> addr_consistent a"
proof -
  show "addr_of_buffer (addr_to_buffer a) = Inr (addr_of_value (addr_value a))"
    using assms by (auto simp: addr_of_buffer_def addr_to_buffer_def addr_wf_def value_size_def)
  show "addr_of_value (addr_value a) = a \<longleftrightarrow> addr_consistent a"
    using assms by (cases a)
      (auto simp: addr_consistent_def addr_of_value_def addr_flagged_def block_kind_bit addr_wf_def)
qed

lemma addr_flagged_consistent:
  "length v \<ge> value_size \<Longrightarrow> addr_consistent (addr_flagged v f True)"
  by (simp add: addr_consistent_def addr_flagged_def block_kind_bit value_size_def flag_byte_def)

section \<open>Properties\<close>

text \<open>
  Addresses survive their two external forms. Printing in hexadecimal and parsing, and writing to the
  wire and reading, both give an address with the same 32 bytes; it is the very same address, mutability
  flag included, exactly when the flag agrees with the flag byte, which holds for every address built with
  its flags combined in.
\<close>

theorem addr_external_forms:
  assumes "addr_wf a"
  shows "\<exists>a'. addr_from_string (addr_print_hex a) = Inr a' \<and> addr_of_buffer (addr_to_buffer a) = Inr a'
    \<and> addr_value a' = addr_value a \<and> addr_eq a' a \<and> (a' = a \<longleftrightarrow> addr_consistent a)"
proof -
  let ?a = "addr_of_value (addr_value a)"
  have v: "addr_value ?a = addr_value a" using assms by (simp add: addr_of_value_def addr_flagged_def addr_wf_def)
  then have "addr_eq ?a a" using assms by (simp add: addr_eq_value addr_wf_def)
  with v addr_from_string_print [OF assms] addr_wire_roundtrip [OF assms] show ?thesis by auto
qed

theorem addr_external_forms_witness:
  "\<exists>a'. addr_from_string (addr_print_hex (addr_flagged (replicate 32 200) 1 True)) = Inr a'
     \<and> addr_of_buffer (addr_to_buffer (addr_flagged (replicate 32 200) 1 True)) = Inr a'
     \<and> a' = addr_flagged (replicate 32 200) 1 True"
  using addr_external_forms [of "addr_flagged (replicate 32 200) 1 True"]
    addr_flagged_consistent [of "replicate 32 200" 1] addr_flagged_wf [of "replicate 32 200" 1 True]
  by (auto simp: value_size_def)

text \<open>
  Addresses are ordered as 256-bit numbers: the \<open>memcmp\<close> that implements equality and order compares
  the big-endian values, and the flag byte, the last one, only decides between addresses that
  \<open>equal_unflagged\<close> identifies.
\<close>

theorem addr_order_numeric:
  assumes "addr_wf a" "addr_wf b"
  shows "(addr_eq a b \<longleftrightarrow> addr_id a = addr_id b) \<and> (addr_less a b \<longleftrightarrow> addr_id a < addr_id b)
    \<and> (equal_unflagged a b \<longrightarrow> (addr_less a b \<longleftrightarrow> addr_value a ! flag_byte < addr_value b ! flag_byte))"
proof -
  have "addr_less a b \<longleftrightarrow> addr_value a ! flag_byte < addr_value b ! flag_byte" if "equal_unflagged a b"
  proof -
    have len: "length (addr_value a) = Suc 31" "length (addr_value b) = Suc 31"
      using assms by (simp_all add: addr_wf_def value_size_def)
    let ?p = "take 31 (addr_value a)"
    have last: "v = take 31 v @ [v ! 31]" if "length v = Suc 31" for v :: buffer
      using that take_Suc_conv_app_nth [of 31 v] by simp
    have "take 31 (addr_value b) = ?p" using that assms by (simp add: equal_unflagged_take flag_byte_def)
    then have split: "addr_value a = ?p @ [addr_value a ! 31]" "addr_value b = ?p @ [addr_value b ! 31]"
      using last [OF len(1)] last [OF len(2)] by simp_all
    have cmp: "memcmp (p @ [x]) (p @ [y]) (Suc (length p)) < 0 \<longleftrightarrow> x < y" for p x y
      by (induction p) auto
    have "memcmp (addr_value a) (addr_value b) (Suc (length ?p)) < 0 \<longleftrightarrow> addr_value a ! 31 < addr_value b ! 31"
      by (subst split(1), subst split(2)) (rule cmp)
    then show ?thesis using len(1) by (simp add: addr_less_def addr_cmp_def value_size_def flag_byte_def)
  qed
  with assms show ?thesis by (simp add: addr_eq_id addr_less_id)
qed

theorem addr_order_numeric_witness:
  "addr_less (addr_flagged (replicate 32 5) 0 True) (addr_flagged (replicate 32 5) 1 True)
   \<longleftrightarrow> addr_id (addr_flagged (replicate 32 5) 0 True) < addr_id (addr_flagged (replicate 32 5) 1 True)"
  using addr_order_numeric [of "addr_flagged (replicate 32 5) 0 True" "addr_flagged (replicate 32 5) 1 True"]
    addr_flagged_wf [of "replicate 32 5"] by (simp add: value_size_def)

end
