(* ===== verification/Paxos_Server.thy ===== *)
theory Paxos_Server
  imports Elle_Version
begin

text \<open>
  The Paxos acceptor \<^verbatim>\<open>elle::athena::paxos::Server<T, Version, ClientId>\<close>
  (elle/src/elle/athena/paxos/Server.hh and Server.hxx), instantiated as memo does with
  \<^verbatim>\<open>Version = int\<close> and \<^verbatim>\<open>ServerId = ClientId\<close>. A server agrees on a sequence of
  versions; for each version the agreed value is either a block (\<open>PVal\<close>) or a new
  quorum (\<open>PQuorum\<close>). The state holds the last committed quorum and value, and the
  promise and accepted value of the version in progress.

  Exceptions are \<open>Inl\<close>. Every \<^verbatim>\<open>throw\<close> of these operations happens before the first
  assignment, so an exception leaves the server unchanged and no state is returned
  with it. Versions and rounds are C++ \<^verbatim>\<open>int\<close>s that only count upwards from 0; they are
  modelled by \<^typ>\<open>int\<close>. The value-initialised client identifier \<^verbatim>\<open>{}\<close> is \<open>0\<close>.
\<close>

section \<open>Proposals\<close>

datatype 'c proposal =
  Proposal (prop_version: int) (prop_round: int) (prop_sender: 'c)

fun proposal_less :: "'c::linorder proposal \<Rightarrow> 'c proposal \<Rightarrow> bool" where
  "proposal_less (Proposal v r s) (Proposal v' r' s') =
     (v < v' \<or> v = v' \<and> (r < r' \<or> r = r' \<and> s < s'))"

instantiation proposal :: (linorder) linorder
begin

definition less_proposal :: "'a proposal \<Rightarrow> 'a proposal \<Rightarrow> bool" where
  "less_proposal p p' = proposal_less p p'"

definition less_eq_proposal :: "'a proposal \<Rightarrow> 'a proposal \<Rightarrow> bool" where
  "less_eq_proposal p p' \<longleftrightarrow> p < p' \<or> p = p'"

instance
proof
  fix p q r :: "'a proposal"
  show "(p < q) = (p \<le> q \<and> \<not> q \<le> p)"
    by (cases p; cases q) (auto simp: less_proposal_def less_eq_proposal_def)
  show "p \<le> p" by (simp add: less_eq_proposal_def)
  show "p \<le> q \<Longrightarrow> q \<le> r \<Longrightarrow> p \<le> r"
    by (cases p; cases q; cases r) (auto simp: less_proposal_def less_eq_proposal_def)
  show "p \<le> q \<Longrightarrow> q \<le> p \<Longrightarrow> p = q"
    by (cases p; cases q) (auto simp: less_proposal_def less_eq_proposal_def)
  show "p \<le> q \<or> q \<le> p"
    by (cases p; cases q) (auto simp: less_proposal_def less_eq_proposal_def)
qed

end

lemma less_proposal_simps [simp]:
  "Proposal v r s < Proposal v' r' s' \<longleftrightarrow> v < v' \<or> v = v' \<and> (r < r' \<or> r = r' \<and> s < s')"
  by (simp add: less_proposal_def)

definition proposal_null :: "'c::zero proposal" where
  "proposal_null = Proposal 0 0 0"

section \<open>State\<close>

datatype ('v, 'c) pvalue = PVal 'v | PQuorum "'c set"

record ('v, 'c) accepted =
  acc_proposal :: "'c proposal"
  acc_value :: "('v, 'c) pvalue"
  acc_confirmed :: bool

record ('v, 'c) version_state =
  vs_proposal :: "'c proposal"
  vs_accepted :: "('v, 'c) accepted option"

record ('v, 'c) server =
  srv_id :: 'c
  srv_quorum :: "'c set"
  srv_value :: "'v option"
  srv_version :: version
  srv_partial :: bool
  srv_state :: "('v, 'c) version_state option"

record ('v, 'c) response =
  resp_proposal :: "'c proposal option"
  resp_value :: "('v, 'c) pvalue option"
  resp_confirmed :: bool

datatype 'c paxos_error =
    WrongQuorum (wq_expected: "'c set") (wq_effective: "'c set") (wq_proposal: "'c proposal option")
  | PaxosErr string
  | AssertFailed

definition accepted_less :: "('v, 'c::linorder) accepted \<Rightarrow> ('v, 'c) accepted \<Rightarrow> bool" where
  "accepted_less a b \<longleftrightarrow>
     acc_proposal a < acc_proposal b
     \<or> acc_proposal a = acc_proposal b \<and> \<not> acc_confirmed a \<and> acc_confirmed b"

definition server_new ::
  "'c \<Rightarrow> 'c set \<Rightarrow> 'v option \<Rightarrow> version \<Rightarrow> 'c paxos_error + ('v, 'c) server" where
  "server_new i q v ver =
     (if i \<in> q then
        Inr \<lparr>srv_id = i, srv_quorum = q, srv_value = v, srv_version = ver,
             srv_partial = False, srv_state = None\<rparr>
      else Inl AssertFailed)"

definition vs_version :: "('v, 'c) version_state \<Rightarrow> int" where
  "vs_version st = prop_version (vs_proposal st)"

definition srv_accepted :: "('v, 'c) server \<Rightarrow> ('v, 'c) accepted option" where
  \<comment> \<open>\<^verbatim>\<open>this->_state && this->_state->accepted\<close>, as a value\<close>
  "srv_accepted s = (case srv_state s of None \<Rightarrow> None | Some st \<Rightarrow> vs_accepted st)"

section \<open>Observers\<close>

definition current_quorum :: "('v, 'c) server \<Rightarrow> 'c set" where
  "current_quorum s =
     (case srv_accepted s of
        Some a \<Rightarrow> (case acc_value a of
            PQuorum q \<Rightarrow> if acc_confirmed a then q else srv_quorum s
          | PVal _ \<Rightarrow> srv_quorum s)
      | None \<Rightarrow> srv_quorum s)"

definition current_proposal :: "('v, 'c::zero) server \<Rightarrow> 'c proposal option" where
  "current_proposal s =
     (case srv_state s of
        None \<Rightarrow> None
      | Some st \<Rightarrow>
          if (case vs_accepted st of Some a \<Rightarrow> acc_confirmed a | None \<Rightarrow> False)
          then Some (vs_proposal st)
          else if srv_value s \<noteq> None then Some (Proposal (vs_version st - 1) 0 0)
          else None)"

definition current_value :: "('v, 'c::zero) server \<Rightarrow> ('v, 'c) accepted option" where
  "current_value s =
     (let committed =
        (case (srv_value s, current_proposal s) of
           (Some v, Some p) \<Rightarrow>
             Some \<lparr>acc_proposal = p, acc_value = PVal v, acc_confirmed = True\<rparr>
         | _ \<Rightarrow> None)
      in case srv_accepted s of
           Some a \<Rightarrow> (case acc_value a of
               PVal _ \<Rightarrow> if acc_confirmed a then Some a else committed
             | PQuorum _ \<Rightarrow> committed)
         | None \<Rightarrow> committed)"

definition current_version :: "('v, 'c) server \<Rightarrow> int" where
  "current_version s =
     (case srv_state s of
        None \<Rightarrow> 0
      | Some st \<Rightarrow>
          (case vs_accepted st of
             Some a \<Rightarrow> if acc_confirmed a then vs_version st else vs_version st - 1
           | None \<Rightarrow> vs_version st - 1))"

section \<open>Checks\<close>

definition check_quorum ::
  "('v, 'c::zero) server \<Rightarrow> 'c set \<Rightarrow> 'c proposal option \<Rightarrow> 'c paxos_error + unit" where
  "check_quorum s q p =
     (let expected =
        (case srv_accepted s of
           Some a \<Rightarrow> (case acc_value a of
               PQuorum q' \<Rightarrow>
                 if acc_confirmed a
                    \<and> (case p of None \<Rightarrow> True
                       | Some p' \<Rightarrow> prop_version p' > prop_version (acc_proposal a))
                 then q' else srv_quorum s
             | PVal _ \<Rightarrow> srv_quorum s)
         | None \<Rightarrow> srv_quorum s)
      in if q \<noteq> expected then Inl (WrongQuorum expected q (current_proposal s)) else Inr ())"

definition check_confirmed :: "('v, 'c) server \<Rightarrow> 'c proposal \<Rightarrow> bool" where
  "check_confirmed s p \<longleftrightarrow>
     (if srv_version s < Version 0 1 0 then True
      else if srv_partial s then False
      else case srv_state s of
             None \<Rightarrow> True
           | Some st \<Rightarrow>
               let ver = vs_version st in
               if ver \<ge> prop_version p then True
               else ver = prop_version p - 1
                    \<and> (case vs_accepted st of None \<Rightarrow> False | Some a \<Rightarrow> acc_confirmed a))"

section \<open>Operations\<close>

text \<open>Commit of the previous version: the block or quorum moves to the committed slot.\<close>

definition commit_accepted :: "('v, 'c) server \<Rightarrow> ('v, 'c) accepted \<Rightarrow> ('v, 'c) server" where
  "commit_accepted s a =
     (case acc_value a of
        PVal v \<Rightarrow> s\<lparr>srv_value := Some v, srv_state := None\<rparr>
      | PQuorum q \<Rightarrow> s\<lparr>srv_quorum := q, srv_state := None\<rparr>)"

definition resp_of :: "'c proposal option \<Rightarrow> ('v, 'c) pvalue option \<Rightarrow> bool \<Rightarrow> ('v, 'c) response" where
  "resp_of p v c = \<lparr>resp_proposal = p, resp_value = v, resp_confirmed = c\<rparr>"

text \<open>The end of \<^verbatim>\<open>propose\<close>: record the proposal if it is the highest, and answer.\<close>

definition propose_register ::
  "('v, 'c::linorder) server \<Rightarrow> 'c proposal \<Rightarrow> ('v, 'c) response \<times> ('v, 'c) server" where
  "propose_register s p =
     (case srv_state s of
        None \<Rightarrow>
          (resp_of None None False,
           s\<lparr>srv_state := Some \<lparr>vs_proposal = p, vs_accepted = None\<rparr>\<rparr>)
      | Some st \<Rightarrow>
          if vs_proposal st < p then
            (case vs_accepted st of
               Some a \<Rightarrow> resp_of (Some (vs_proposal st)) (Some (acc_value a)) (acc_confirmed a)
             | None \<Rightarrow> resp_of None None False,
             s\<lparr>srv_state := Some (st\<lparr>vs_proposal := p\<rparr>)\<rparr>)
          else
            (case vs_accepted st of
               Some a \<Rightarrow> resp_of (Some (vs_proposal st)) (Some (acc_value a)) (acc_confirmed a)
             | None \<Rightarrow> resp_of (Some (vs_proposal st)) None False,
             s))"

definition propose_advance ::
  "('v, 'c::{linorder, zero}) server \<Rightarrow> 'c set \<Rightarrow> 'c proposal
     \<Rightarrow> 'c paxos_error + ('v, 'c) server" where
  "propose_advance s q p =
     (if check_confirmed s p then
        bind_res (check_quorum s q (Some p)) (\<lambda>_.
          case srv_state s of
            Some st \<Rightarrow>
              if prop_version p > vs_version st then
                (case vs_accepted st of
                   None \<Rightarrow> Inl AssertFailed
                 | Some a \<Rightarrow> Inr (commit_accepted s a))
              else Inr s
          | None \<Rightarrow> Inr s)
      else if \<not> srv_partial s then Inr (s\<lparr>srv_partial := True, srv_state := None\<rparr>)
      else Inr s)"

definition propose ::
  "('v, 'c::{linorder, zero}) server \<Rightarrow> 'c set \<Rightarrow> 'c proposal
     \<Rightarrow> 'c paxos_error + (('v, 'c) response \<times> ('v, 'c) server)" where
  "propose s q p =
     (case srv_accepted s of
        Some a \<Rightarrow>
          if prop_version (acc_proposal a) > prop_version p then
            Inr (resp_of (Some (acc_proposal a)) (Some (acc_value a)) (acc_confirmed a), s)
          else bind_res (propose_advance s q p) (\<lambda>s'. Inr (propose_register s' p))
      | None \<Rightarrow> bind_res (propose_advance s q p) (\<lambda>s'. Inr (propose_register s' p)))"

definition accept_value ::
  "('v, 'c) version_state \<Rightarrow> 'c proposal \<Rightarrow> ('v, 'c) pvalue \<Rightarrow> ('v, 'c) accepted" where
  "accept_value st p v =
     (case vs_accepted st of
        None \<Rightarrow> \<lparr>acc_proposal = p, acc_value = v, acc_confirmed = False\<rparr>
      | Some a \<Rightarrow> a\<lparr>acc_proposal := p, acc_value := v\<rparr>)"

definition accept ::
  "('v, 'c::{linorder, zero}) server \<Rightarrow> 'c set \<Rightarrow> 'c proposal \<Rightarrow> ('v, 'c) pvalue
     \<Rightarrow> 'c paxos_error + ('c proposal \<times> ('v, 'c) server)" where
  "accept s q p v =
     bind_res (if \<not> srv_partial s then check_quorum s q (Some p) else Inr ()) (\<lambda>_.
       case srv_state s of
         None \<Rightarrow> Inl (PaxosErr ''propose before accepting'')
       | Some st \<Rightarrow>
           if vs_proposal st < p then Inl (PaxosErr ''propose before accepting'')
           else if p < vs_proposal st then Inr (vs_proposal st, s)
           else Inr (vs_proposal st,
                     s\<lparr>srv_state := Some (st\<lparr>vs_accepted := Some (accept_value st p v)\<rparr>)\<rparr>))"

definition confirm ::
  "('v, 'c::{linorder, zero}) server \<Rightarrow> 'c set \<Rightarrow> 'c proposal
     \<Rightarrow> 'c paxos_error + ('v, 'c) server" where
  "confirm s q p =
     (if (case srv_state s of None \<Rightarrow> False | Some st \<Rightarrow> prop_version p < vs_version st)
      then Inr s
      else
        bind_res (if \<not> srv_partial s then check_quorum s q (Some p) else Inr ()) (\<lambda>_.
          case srv_state s of
            None \<Rightarrow> Inl (PaxosErr ''propose and accept before confirming'')
          | Some st \<Rightarrow>
              (case vs_accepted st of
                 None \<Rightarrow> Inl (PaxosErr ''propose and accept before confirming'')
               | Some a \<Rightarrow>
                   if vs_proposal st < p
                   then Inl (PaxosErr ''propose and accept before confirming'')
                   else if \<not> acc_confirmed a then
                     let s' = s\<lparr>srv_state :=
                           Some (st\<lparr>vs_accepted := Some (a\<lparr>acc_confirmed := True\<rparr>)\<rparr>)\<rparr>
                     in Inr (if srv_partial s
                             then s'\<lparr>srv_quorum := q, srv_partial := False\<rparr> else s')
                   else Inr s)))"

definition server_get ::
  "('v, 'c::zero) server \<Rightarrow> 'c set \<Rightarrow> 'c paxos_error + ('v, 'c) accepted option" where
  "server_get s q = bind_res (check_quorum s q None) (\<lambda>_. Inr (current_value s))"

section \<open>Serialization\<close>

text \<open>
  What \<^verbatim>\<open>Server::serialize\<close> and \<^verbatim>\<open>Accepted::serialize\<close> put on the wire for a
  serialization version: a field absent from that version is \<^const>\<open>None\<close>. Before
  0.1.0 an accepted value is written bare, and a quorum cannot be written at all
  (\<^verbatim>\<open>ELLE_ABORT\<close>, here \<^const>\<open>None\<close>).
\<close>

datatype ('v, 'c) wire_value = WireOption "('v, 'c) pvalue" | WireBare 'v

record ('v, 'c) wire_accepted =
  wa_proposal :: "'c proposal"
  wa_value :: "('v, 'c) wire_value"
  wa_confirmed :: "bool option"

record ('v, 'c) wire_server =
  ws_id :: 'c
  ws_quorum :: "'c set"
  ws_value :: "'v option option"
  ws_state :: "('c proposal \<times> ('v, 'c) wire_accepted option) list"
  ws_partial :: "bool option"

definition accepted_serialize ::
  "version \<Rightarrow> ('v, 'c) accepted \<Rightarrow> ('v, 'c) wire_accepted option" where
  "accepted_serialize v a =
     (if v \<ge> Version 0 1 0 then
        Some \<lparr>wa_proposal = acc_proposal a, wa_value = WireOption (acc_value a),
              wa_confirmed = Some (acc_confirmed a)\<rparr>
      else case acc_value a of
        PVal x \<Rightarrow> Some \<lparr>wa_proposal = acc_proposal a, wa_value = WireBare x, wa_confirmed = None\<rparr>
      | PQuorum _ \<Rightarrow> None)"

definition accepted_deserialize ::
  "version \<Rightarrow> ('v, 'c) wire_accepted \<Rightarrow> ('v, 'c) accepted option" where
  "accepted_deserialize v w =
     (if v \<ge> Version 0 1 0 then
        (case (wa_value w, wa_confirmed w) of
           (WireOption x, Some c) \<Rightarrow>
             Some \<lparr>acc_proposal = wa_proposal w, acc_value = x, acc_confirmed = c\<rparr>
         | _ \<Rightarrow> None)
      else
        (case wa_value w of
           WireBare x \<Rightarrow> Some \<lparr>acc_proposal = wa_proposal w, acc_value = PVal x, acc_confirmed = True\<rparr>
         | WireOption _ \<Rightarrow> None))"

definition state_serialize ::
  "version \<Rightarrow> ('v, 'c) version_state \<Rightarrow> ('c proposal \<times> ('v, 'c) wire_accepted option) option" where
  "state_serialize v st =
     (case vs_accepted st of
        None \<Rightarrow> Some (vs_proposal st, None)
      | Some a \<Rightarrow> map_option (\<lambda>w. (vs_proposal st, Some w)) (accepted_serialize v a))"

definition state_deserialize ::
  "version \<Rightarrow> 'c proposal \<times> ('v, 'c) wire_accepted option \<Rightarrow> ('v, 'c) version_state option" where
  "state_deserialize v w =
     (case snd w of
        None \<Rightarrow> Some \<lparr>vs_proposal = fst w, vs_accepted = None\<rparr>
      | Some wa \<Rightarrow> map_option (\<lambda>a. \<lparr>vs_proposal = fst w, vs_accepted = Some a\<rparr>)
                     (accepted_deserialize v wa))"

definition server_serialize :: "version \<Rightarrow> ('v, 'c) server \<Rightarrow> ('v, 'c) wire_server option" where
  "server_serialize v s =
     (let wire = (\<lambda>states. \<lparr>ws_id = srv_id s, ws_quorum = srv_quorum s,
            ws_value = (if v \<ge> Version 0 1 0 then Some (srv_value s) else None),
            ws_state = states,
            ws_partial = (if v \<ge> Version 0 2 0 then Some (srv_partial s) else None)\<rparr>)
      in case srv_state s of
           None \<Rightarrow> Some (wire [])
         | Some st \<Rightarrow> map_option (\<lambda>w. wire [w]) (state_serialize v st))"

text \<open>
  Reading: the states come as a set ordered by version, of which the last is kept.
  The \<^verbatim>\<open>_version\<close> of the server comes from the serialization context.
\<close>

definition last_state :: "('c proposal \<times> 'w) list \<Rightarrow> ('c proposal \<times> 'w) option" where
  "last_state ws =
     foldl (\<lambda>m w. case m of
               None \<Rightarrow> Some w
             | Some w' \<Rightarrow> if prop_version (fst w') < prop_version (fst w) then Some w else m)
       None ws"

definition server_deserialize ::
  "version \<Rightarrow> version \<Rightarrow> ('v, 'c) wire_server \<Rightarrow> ('v, 'c) server option" where
  "server_deserialize ctx v w =
     (let build = (\<lambda>st. \<lparr>srv_id = ws_id w, srv_quorum = ws_quorum w,
            srv_value = (if v \<ge> Version 0 1 0 then Option.bind (ws_value w) id else None),
            srv_version = ctx,
            srv_partial = (if v \<ge> Version 0 2 0 then ws_partial w = Some True else False),
            srv_state = st\<rparr>)
      in case last_state (ws_state w) of
           None \<Rightarrow> Some (build None)
         | Some ws \<Rightarrow> map_option (\<lambda>st. build (Some st)) (state_deserialize v ws))"

section \<open>Well-formedness and basic facts\<close>

text \<open>A server never holds an accepted value above its promise.\<close>

definition server_inv :: "('v, 'c::linorder) server \<Rightarrow> bool" where
  "server_inv s \<longleftrightarrow>
     (case srv_state s of
        None \<Rightarrow> True
      | Some st \<Rightarrow> (case vs_accepted st of None \<Rightarrow> True | Some a \<Rightarrow> acc_proposal a \<le> vs_proposal st))"

text \<open>The promise: the highest proposal seen for the version in progress.\<close>

definition srv_promise :: "('v, 'c) server \<Rightarrow> 'c proposal option" where
  "srv_promise s = map_option vs_proposal (srv_state s)"

definition promise_le :: "'p::linorder option \<Rightarrow> 'p option \<Rightarrow> bool" where
  "promise_le p q = (case p of None \<Rightarrow> True | Some x \<Rightarrow> (case q of None \<Rightarrow> False | Some y \<Rightarrow> x \<le> y))"

lemmas server_state_defs = srv_accepted_def vs_version_def srv_promise_def server_inv_def

lemma prop_less_version: "p < p' \<Longrightarrow> prop_version p \<le> prop_version p'"
  by (cases p; cases p') auto

lemma prop_version_less: "prop_version p < prop_version p' \<Longrightarrow> p < p'"
  by (cases p; cases p') auto

lemma promise_le_refl [simp]: "promise_le p p"
  by (simp add: promise_le_def split: option.splits)

lemma promise_le_trans: "promise_le p q \<Longrightarrow> promise_le q r \<Longrightarrow> promise_le p r"
  by (auto simp: promise_le_def split: option.splits)

lemma check_quorum_cases:
  "check_quorum s q p = Inr () \<or>
   (\<exists>e. e \<noteq> q \<and> check_quorum s q p = Inl (WrongQuorum e q (current_proposal s)))"
  by (auto simp: check_quorum_def Let_def split: option.splits pvalue.splits if_splits)

lemma propose_advance_cases:
  assumes "propose_advance s q p = Inr s'"
  shows "s' = s
    \<or> (\<exists>st a. srv_state s = Some st \<and> vs_accepted st = Some a \<and> vs_version st < prop_version p
         \<and> s' = commit_accepted s a)
    \<or> (s' = s\<lparr>srv_partial := True, srv_state := None\<rparr> \<and> \<not> srv_partial s
         \<and> (\<exists>st. srv_state s = Some st \<and> vs_version st < prop_version p))"
  using assms unfolding propose_advance_def check_confirmed_def Let_def
  by (auto simp: bind_res_eq_Inr not_le split: if_splits option.splits)

lemma commit_accepted_state [simp]:
  "srv_state (commit_accepted s a) = None" "srv_id (commit_accepted s a) = srv_id s"
  "srv_partial (commit_accepted s a) = srv_partial s"
  "srv_version (commit_accepted s a) = srv_version s"
  by (simp_all add: commit_accepted_def split: pvalue.splits)

lemma propose_register_promise:
  "propose_register s p = (r, s') \<Longrightarrow>
   srv_promise s' = Some (case srv_promise s of None \<Rightarrow> p | Some b \<Rightarrow> max b p)"
  by (auto simp: propose_register_def srv_promise_def max_def split: option.splits if_splits)

lemma propose_register_inv:
  "server_inv s \<Longrightarrow> propose_register s p = (r, s') \<Longrightarrow> server_inv s'"
  by (auto simp: propose_register_def server_inv_def split: option.splits if_splits)

lemma propose_cases:
  assumes "propose s q p = Inr (r, s')"
  obtains (refused) a where "srv_accepted s = Some a" "prop_version p < prop_version (acc_proposal a)"
      "s' = s" "r = resp_of (Some (acc_proposal a)) (Some (acc_value a)) (acc_confirmed a)"
  | (handled) s1 where "propose_advance s q p = Inr s1" "propose_register s1 p = (r, s')"
  using assms unfolding propose_def
  by (auto simp: bind_res_eq_Inr split: option.splits if_splits)

section \<open>Operation sequences\<close>

text \<open>
  A server as its peers drive it: a sequence of requests, of which those that throw leave
  it unchanged.
\<close>

datatype ('v, 'c) server_op =
    OpPropose "'c set" "'c proposal"
  | OpAccept "'c set" "'c proposal" "('v, 'c) pvalue"
  | OpConfirm "'c set" "'c proposal"

fun server_step :: "('v, 'c::{linorder, zero}) server \<Rightarrow> ('v, 'c) server_op \<Rightarrow> ('v, 'c) server" where
  "server_step s (OpPropose q p) = (case propose s q p of Inl _ \<Rightarrow> s | Inr (_, s') \<Rightarrow> s')"
| "server_step s (OpAccept q p v) = (case accept s q p v of Inl _ \<Rightarrow> s | Inr (_, s') \<Rightarrow> s')"
| "server_step s (OpConfirm q p) = (case confirm s q p of Inl _ \<Rightarrow> s | Inr s' \<Rightarrow> s')"

definition server_run :: "('v, 'c::{linorder, zero}) server \<Rightarrow> ('v, 'c) server_op list \<Rightarrow> ('v, 'c) server" where
  "server_run s ops = foldl server_step s ops"

text \<open>
  What a Paxos acceptor promises to its clients, as an interface: a step never lowers the promise,
  and never records a vote below it. The laws of single steps carry over to whole runs.
\<close>

locale acceptor =
  fixes step :: "'s \<Rightarrow> 'o \<Rightarrow> 's"
    and promise :: "'s \<Rightarrow> 'p::linorder option"
    and vote :: "'s \<Rightarrow> ('p \<times> 'v) option"
    and inv :: "'s \<Rightarrow> bool"
  assumes step_inv: "inv s \<Longrightarrow> inv (step s x)"
    and step_promise: "promise_le (promise s) (promise (step s x))"
    and step_vote: "vote (step s x) = Some (p, v) \<Longrightarrow> promise s = Some b \<Longrightarrow> vote s = Some (p, v) \<or> b \<le> p"
begin

lemma run_inv: "inv s \<Longrightarrow> inv (foldl step s xs)"
  by (induction xs arbitrary: s) (auto intro: step_inv)

lemma run_promise: "promise_le (promise s) (promise (foldl step s xs))"
  by (induction xs arbitrary: s) (auto intro: promise_le_trans step_promise)

lemma run_vote:
  assumes "promise s = Some b" and "vote (foldl step s xs) = Some (p, v)"
  shows "vote s = Some (p, v) \<or> b \<le> p"
  using assms
proof (induction xs arbitrary: s b)
  case (Cons x xs)
  obtain b' where b': "promise (step s x) = Some b'" "b \<le> b'"
    using step_promise [of s x] Cons.prems(1) by (auto simp: promise_le_def split: option.splits)
  have "vote (step s x) = Some (p, v) \<or> b' \<le> p" using Cons.IH [OF b'(1)] Cons.prems(2) by simp
  then show ?case using step_vote [OF _ Cons.prems(1), of x p v] b'(2) by auto
qed simp

text \<open>A vote that a run leaves in place and that was cast above the promise is the last word on it.\<close>

lemma vote_kept_below:
  assumes "promise s = Some b" and "vote (foldl step s xs) = Some (p, v)" and "p < b"
  shows "vote s = Some (p, v)"
  using run_vote [OF assms(1,2)] assms(3) by auto

end

definition srv_vote :: "('v, 'c) server \<Rightarrow> ('c proposal \<times> ('v, 'c) pvalue) option" where
  "srv_vote s = map_option (\<lambda>a. (acc_proposal a, acc_value a)) (srv_accepted s)"

lemma propose_advance_inv:
  "server_inv s \<Longrightarrow> propose_advance s q p = Inr s' \<Longrightarrow> server_inv s'"
  by (drule propose_advance_cases) (auto simp: server_inv_def)

lemma propose_inv: "server_inv s \<Longrightarrow> propose s q p = Inr (r, s') \<Longrightarrow> server_inv s'"
  by (erule propose_cases) (auto dest: propose_advance_inv propose_register_inv)

lemma accept_cases:
  assumes "accept s q p v = Inr (m, s')"
  obtains (obsolete) st where "srv_state s = Some st" "m = vs_proposal st" "p < m" "s' = s"
  | (recorded) st where "srv_state s = Some st" "m = p" "vs_proposal st = p"
      "s' = s\<lparr>srv_state := Some (st\<lparr>vs_accepted := Some (accept_value st p v)\<rparr>)\<rparr>"
  using assms unfolding accept_def
  by (auto simp: bind_res_eq_Inr split: option.splits if_splits)

lemma accept_value_fields [simp]:
  "acc_proposal (accept_value st p v) = p" "acc_value (accept_value st p v) = v"
  by (simp_all add: accept_value_def split: option.splits)

lemma accept_inv: "accept s q p v = Inr (m, s') \<Longrightarrow> server_inv s \<Longrightarrow> server_inv s'"
  by (erule accept_cases) (auto simp: server_inv_def)

definition confirm_state ::
  "('v, 'c) server \<Rightarrow> 'c set \<Rightarrow> ('v, 'c) version_state \<Rightarrow> ('v, 'c) accepted \<Rightarrow> ('v, 'c) server" where
  "confirm_state s q st a =
     s\<lparr>srv_state := Some (st\<lparr>vs_accepted := Some (a\<lparr>acc_confirmed := True\<rparr>)\<rparr>),
       srv_quorum := (if srv_partial s then q else srv_quorum s), srv_partial := False\<rparr>"

lemma confirm_effect:
  assumes "confirm s q p = Inr s'"
  shows "s' = s \<or> (\<exists>st a. srv_state s = Some st \<and> vs_accepted st = Some a \<and> p \<le> vs_proposal st
      \<and> \<not> acc_confirmed a \<and> \<not> prop_version p < vs_version st \<and> s' = confirm_state s q st a)"
  using assms unfolding confirm_def confirm_state_def
  by (auto simp: bind_res_eq_Inr Let_def not_less split: if_splits option.splits)

lemma confirm_cases:
  assumes "confirm s q p = Inr s'"
  obtains (unchanged) "s' = s"
  | (confirmed) st a where "srv_state s = Some st" "vs_accepted st = Some a" "p \<le> vs_proposal st"
      "\<not> acc_confirmed a" "\<not> prop_version p < vs_version st" "s' = confirm_state s q st a"
  using confirm_effect [OF assms] by blast

lemma confirm_inv: "confirm s q p = Inr s' \<Longrightarrow> server_inv s \<Longrightarrow> server_inv s'"
  by (erule confirm_cases) (auto simp: server_inv_def confirm_state_def)

lemma server_step_inv: "server_inv s \<Longrightarrow> server_inv (server_step s op)"
  by (cases op) (auto split: sum.splits dest: propose_inv accept_inv confirm_inv)

lemma propose_promise:
  assumes "propose s q p = Inr (r, s')"
  shows "promise_le (srv_promise s) (srv_promise s')"
  using assms
proof (cases rule: propose_cases)
  case (handled s1)
  then have reg: "srv_promise s' = Some (case srv_promise s1 of None \<Rightarrow> p | Some b \<Rightarrow> max b p)"
    by (simp add: propose_register_promise)
  from propose_advance_cases [OF handled(1)] reg show ?thesis
    by (auto simp: promise_le_def srv_promise_def vs_version_def
        dest!: prop_version_less split: option.splits)
qed simp

lemma propose_granted:
  assumes "propose s q p = Inr (r, s')" and "server_inv s"
  shows "promise_le (Some p) (srv_promise s')"
  using assms(1)
proof (cases rule: propose_cases)
  case (refused a)
  then obtain st where st: "srv_state s = Some st" "vs_accepted st = Some a"
    by (auto simp: srv_accepted_def split: option.splits)
  with assms(2) have "acc_proposal a \<le> vs_proposal st" by (simp add: server_inv_def)
  with prop_version_less [OF refused(2)] st refused show ?thesis
    by (simp add: promise_le_def srv_promise_def)
next
  case (handled s1)
  then show ?thesis
    using propose_register_promise [OF handled(2)] by (simp add: promise_le_def split: option.splits)
qed

lemma accept_promise: "accept s q p v = Inr (m, s') \<Longrightarrow> srv_promise s' = srv_promise s"
  by (erule accept_cases) (auto simp: srv_promise_def)

lemma confirm_promise: "confirm s q p = Inr s' \<Longrightarrow> srv_promise s' = srv_promise s"
  by (erule confirm_cases) (auto simp: srv_promise_def confirm_state_def)

lemma server_step_promise: "promise_le (srv_promise s) (srv_promise (server_step s op))"
  by (cases op) (auto split: sum.splits dest: propose_promise accept_promise confirm_promise)

lemma propose_accepted:
  "propose s q p = Inr (r, s') \<Longrightarrow> srv_accepted s' = srv_accepted s \<or> srv_accepted s' = None"
  by (erule propose_cases, simp, drule propose_advance_cases)
    (auto simp: propose_register_def srv_accepted_def split: option.splits if_splits)

lemma server_step_vote:
  assumes "srv_vote (server_step s op) = Some (p, v)" and "srv_promise s = Some b"
  shows "srv_vote s = Some (p, v) \<or> b \<le> p"
proof (cases op)
  case (OpPropose q p)
  with assms show ?thesis by (auto split: sum.splits dest: propose_accepted simp: srv_vote_def)
next
  case (OpAccept q p v)
  with assms show ?thesis
    by (auto split: sum.splits elim!: accept_cases simp: srv_vote_def srv_accepted_def srv_promise_def)
next
  case (OpConfirm q p)
  with assms show ?thesis
    by (auto split: sum.splits elim!: confirm_cases
        simp: srv_vote_def srv_accepted_def srv_promise_def confirm_state_def)
qed

interpretation srv: acceptor server_step srv_promise srv_vote server_inv
  by unfold_locales (auto intro: server_step_inv server_step_promise dest: server_step_vote)

lemma server_run_inv: "server_inv s \<Longrightarrow> server_inv (server_run s ops)"
  unfolding server_run_def by (rule srv.run_inv)

text \<open>
  C14. A promise is kept for ever: whatever requests follow, a server that promised a proposal \<open>b\<close>
  only ever holds a value it already held or one accepted at \<open>b\<close> or above, and its promise only rises.
\<close>

theorem server_run_keeps_promise:
  assumes "srv_promise s = Some b"
  shows "promise_le (Some b) (srv_promise (server_run s ops))
    \<and> (\<forall>p v. srv_vote (server_run s ops) = Some (p, v) \<longrightarrow> srv_vote s = Some (p, v) \<or> b \<le> p)"
  using srv.run_promise [of s ops] srv.run_vote [OF assms, of ops] assms
  by (simp add: server_run_def)

definition two_proposals :: "(nat, nat) server" where
  "two_proposals = \<lparr>srv_id = 1, srv_quorum = {1, 2}, srv_value = None, srv_version = Version 0 3 0,
     srv_partial = False,
     srv_state = Some \<lparr>vs_proposal = Proposal 1 2 2,
       vs_accepted = Some \<lparr>acc_proposal = Proposal 1 1 1, acc_value = PVal 7, acc_confirmed = False\<rparr>\<rparr>\<rparr>"

theorem server_run_keeps_promise_witness:
  "srv_promise two_proposals = Some (Proposal 1 2 2)
   \<and> srv_vote (server_run two_proposals [OpAccept {1, 2} (Proposal 1 1 1) (PVal 8),
        OpAccept {1, 2} (Proposal 1 2 2) (PVal 9)]) = Some (Proposal 1 2 2, PVal 9)
   \<and> promise_le (Some (Proposal 1 2 2)) (srv_promise (server_run two_proposals
        [OpAccept {1, 2} (Proposal 1 1 1) (PVal 8), OpAccept {1, 2} (Proposal 1 2 2) (PVal 9)]))"
proof -
  have p: "srv_promise two_proposals = Some (Proposal 1 2 2)" by (simp add: two_proposals_def srv_promise_def)
  moreover have "srv_vote (server_run two_proposals [OpAccept {1, 2} (Proposal 1 1 1) (PVal 8),
        OpAccept {1, 2} (Proposal 1 2 2) (PVal 9)]) = Some (Proposal 1 2 2, PVal 9)" by code_simp
  ultimately show ?thesis using server_run_keeps_promise [OF p] by blast
qed

section \<open>Propagation\<close>

text \<open>
  \<^verbatim>\<open>Paxos.cc\<close> makes an acceptor propose, accept and confirm in a row to take over a quorum that
  was elected elsewhere. A confirmed acceptance is for the version in progress, unless the
  acceptor skipped versions and was confirmed after a newer promise.
\<close>

lemma prop_le_version: "p \<le> p' \<Longrightarrow> prop_version p \<le> prop_version p'"
  by (metis not_le prop_version_less leD)

definition accepted_current :: "('v, 'c) server \<Rightarrow> bool" where
  "accepted_current s \<longleftrightarrow>
     (case srv_state s of
        None \<Rightarrow> True
      | Some st \<Rightarrow> (case vs_accepted st of None \<Rightarrow> True
          | Some a \<Rightarrow> acc_confirmed a \<longrightarrow> prop_version (acc_proposal a) = vs_version st))"

text \<open>A proposal for a version that just started is accepted and confirmed.\<close>

lemma elect_fresh:
  assumes "srv_state s = Some \<lparr>vs_proposal = p, vs_accepted = None\<rparr>" and "srv_partial s \<or> q = srv_quorum s"
  shows "\<exists>m s2 s3. accept s q p (PQuorum q) = Inr (m, s2) \<and> confirm s2 q p = Inr s3"
  using assms
  by (auto simp: accept_def confirm_def check_quorum_def srv_accepted_def accept_value_def vs_version_def Let_def)

lemma check_quorum_cong:
  assumes "srv_accepted s1 = srv_accepted s" and "srv_quorum s1 = srv_quorum s"
  shows "(check_quorum s1 q p = Inr ()) = (check_quorum s q p = Inr ())"
  using assms by (simp add: check_quorum_def Let_def split: option.splits pvalue.splits)

lemma register_known:
  assumes "srv_state s = Some st" and "propose_register s p = (r, s1)"
  shows "s1 = s\<lparr>srv_state := Some (st\<lparr>vs_proposal := max (vs_proposal st) p\<rparr>)\<rparr>"
  using assms by (auto simp: propose_register_def max_def split: if_splits)

lemma elect_known:
  assumes "srv_state s = Some st" and "server_inv s" and "accepted_current s"
    and "srv_partial s \<or> check_quorum s q (Some p) = Inr () \<and> prop_version p \<le> vs_version st"
    and "s1 = s\<lparr>srv_state := Some (st\<lparr>vs_proposal := max (vs_proposal st) p\<rparr>)\<rparr>"
  shows "\<exists>m s2. accept s1 q p (PQuorum q) = Inr (m, s2) \<and> ((\<exists>s3. confirm s2 q p = Inr s3) \<or> (s1 = s \<and> s2 = s))"
proof -
  have same: "srv_accepted s1 = srv_accepted s" "srv_quorum s1 = srv_quorum s" "srv_partial s1 = srv_partial s"
    using assms(1,5) by (simp_all add: srv_accepted_def)
  have q1: "srv_partial s1 \<or> check_quorum s1 q (Some p) = Inr ()"
    using assms(4) same(3) check_quorum_cong [OF same(1,2)] by blast
  show ?thesis
  proof (cases "p < vs_proposal st")
    case True
    then have "s1 = s" using assms(1,5) by (simp add: max_def)
    moreover have "accept s1 q p (PQuorum q) = Inr (vs_proposal st, s1)"
      using True q1 assms(1) \<open>s1 = s\<close> by (auto simp: accept_def)
    ultimately show ?thesis by blast
  next
    case False
    let ?a = "accept_value st p (PQuorum q)"
    let ?s2 = "s\<lparr>srv_state := Some \<lparr>vs_proposal = p, vs_accepted = Some ?a\<rparr>\<rparr>"
    have s1: "s1 = s\<lparr>srv_state := Some (st\<lparr>vs_proposal := p\<rparr>)\<rparr>" using False assms(5) by (simp add: max_def)
    then have acc: "accept s1 q p (PQuorum q) = Inr (p, ?s2)" using q1
      by (auto simp: accept_def accept_value_def)
    have "srv_partial s \<or> q = srv_quorum s" using assms(1,3,4)
      by (auto simp: check_quorum_def srv_accepted_def accepted_current_def Let_def split: option.splits pvalue.splits if_splits)
    then have "srv_partial s \<or> check_quorum ?s2 q (Some p) = Inr ()" by (auto simp: check_quorum_def srv_accepted_def)
    then have "\<exists>s3. confirm ?s2 q p = Inr s3" by (auto simp: confirm_def Let_def vs_version_def)
    with acc show ?thesis by blast
  qed
qed

text \<open>
  The three steps of a propagation on one server: they all succeed, or they leave it as it was.
\<close>

lemma propagate_all_or_nothing:
  assumes "\<not> srv_version s < Version 0 1 0" and "server_inv s" and "accepted_current s"
    and "propose s q p = Inr (r, s1)"
  shows "s1 = s \<and> (\<exists>x. accept s1 q p (PQuorum q) = Inl x) \<or>
    (\<exists>m s2. accept s1 q p (PQuorum q) = Inr (m, s2) \<and> ((\<exists>s3. confirm s2 q p = Inr s3) \<or> s1 = s \<and> s2 = s))"
  using assms(4)
proof (cases rule: propose_cases)
  case (refused a)
  then obtain st where st: "srv_state s = Some st" "vs_accepted st = Some a"
    by (auto simp: srv_accepted_def split: option.splits)
  then have "acc_proposal a \<le> vs_proposal st" using assms(2) by (simp add: server_inv_def)
  then have "p < vs_proposal st" using refused(2) by (meson prop_version_less less_le_trans)
  then show ?thesis using st refused(3)
    by (cases "accept s1 q p (PQuorum q)") (auto simp: accept_def bind_res_eq_Inr split: if_splits)
next
  case (handled s')
  show ?thesis
  proof (cases "srv_state s'")
    case None
    then have s1: "s1 = s'\<lparr>srv_state := Some \<lparr>vs_proposal = p, vs_accepted = None\<rparr>\<rparr>"
      using handled(2) by (auto simp: propose_register_def)
    have "srv_partial s' \<or> q = srv_quorum s'" using handled(1) None assms(1,2)
      by (auto simp: propose_advance_def check_confirmed_def check_quorum_def bind_res_eq_Inr srv_accepted_def
          commit_accepted_def Let_def server_inv_def vs_version_def
          dest!: prop_le_version split: if_splits option.splits pvalue.splits)
    then have "\<exists>m s2 s3. accept s1 q p (PQuorum q) = Inr (m, s2) \<and> confirm s2 q p = Inr s3"
      using s1 by (intro elect_fresh) simp_all
    then show ?thesis by blast
  next
    case (Some st)
    then have adv: "s' = s" "srv_partial s \<or> check_quorum s q (Some p) = Inr () \<and> prop_version p \<le> vs_version st"
      using handled(1)
      by (auto simp: propose_advance_def bind_res_eq_Inr split: if_splits option.splits)
    show ?thesis using elect_known [OF _ assms(2,3) adv(2) register_known] Some handled(2) adv(1) by blast
  qed
qed

lemma propose_unconfirmed:
  assumes "propose s q p = Inr (r, s')" and "\<And>a. srv_accepted s = Some a \<Longrightarrow> \<not> acc_confirmed a"
  shows "accepted_current s'"
  using assms(1)
proof (cases rule: propose_cases)
  case (refused a)
  then show ?thesis using assms(2)
    by (auto simp: accepted_current_def srv_accepted_def split: option.splits)
next
  case (handled s1)
  have "\<not> acc_confirmed a" if "srv_accepted s1 = Some a" for a
    using propose_advance_cases [OF handled(1)] assms(2) that by (auto simp: srv_accepted_def)
  then show ?thesis using handled(2)
    by (auto simp: accepted_current_def srv_accepted_def propose_register_def split: option.splits if_splits)
qed

section \<open>Committed values and the wire form\<close>

lemma current_value_committed:
  "srv_state s = Some st \<Longrightarrow> vs_accepted st = None \<Longrightarrow> srv_value s = Some v \<Longrightarrow>
   current_value s = Some \<lparr>acc_proposal = Proposal (vs_version st - 1) 0 0,
                           acc_value = PVal v, acc_confirmed = True\<rparr>"
  by (simp add: current_value_def current_proposal_def srv_accepted_def)

lemma current_value_PVal: "current_value s = Some a \<Longrightarrow> \<exists>v. acc_value a = PVal v \<and> acc_confirmed a"
  by (auto simp: current_value_def Let_def split: option.splits pvalue.splits if_splits)

text \<open>
  C15. A proposal keeps the committed value: on a server that tracks confirmations, if a
  proposal is handled and does not put the server in the partial state, then the value the server
  reported before is the value it reports after, also when the proposal starts a new version and
  commits the confirmed block or quorum of the previous one.
\<close>

theorem propose_keeps_value:
  assumes "\<not> srv_version s < Version 0 1 0" and "server_inv s"
    and "propose s q p = Inr (r, s')" and "\<not> srv_partial s'" and "current_value s = Some a"
  shows "\<exists>a'. current_value s' = Some a' \<and> acc_value a' = acc_value a"
  using assms(3)
proof (cases rule: propose_cases)
  case (refused b)
  with assms(5) show ?thesis by simp
next
  case (handled s1)
  obtain st where st: "srv_state s = Some st"
    using assms(5) by (cases "srv_state s")
      (auto simp: current_value_def current_proposal_def srv_accepted_def split: option.splits)
  have keep: "srv_partial s' = srv_partial s1"
    using handled(2) by (auto simp: propose_register_def split: option.splits if_splits)
  have np: "\<not> srv_partial s"
    using assms(4) propose_advance_cases [OF handled(1)] keep by auto
  show ?thesis
  proof (cases "vs_version st < prop_version p")
    case True
    with np assms(1) st handled(1) assms(4) keep obtain b where
      b: "vs_accepted st = Some b" "acc_confirmed b" "s1 = commit_accepted s b"
      by (auto simp: propose_advance_def check_confirmed_def bind_res_eq_Inr split: if_splits option.splits)
    have s': "s' = s1\<lparr>srv_state := Some \<lparr>vs_proposal = p, vs_accepted = None\<rparr>\<rparr>"
      using handled(2) b(3) by (simp add: propose_register_def)
    show ?thesis
      using assms(5) st b s'
      by (auto simp: current_value_def current_proposal_def srv_accepted_def commit_accepted_def
          Let_def split: pvalue.splits option.splits)
  next
    case False
    with np assms(1) st handled(1) have "s1 = s"
      by (auto simp: propose_advance_def check_confirmed_def bind_res_eq_Inr split: if_splits option.splits)
    with handled(2) st assms(5) False show ?thesis
      by (auto simp: propose_register_def current_value_def current_proposal_def srv_accepted_def Let_def
          split: pvalue.splits option.splits if_splits)
  qed
qed

lemma check_quorum_fresh:
  "srv_state s = None \<Longrightarrow> srv_quorum s = q \<Longrightarrow> check_quorum s q p = Inr ()"
  by (simp add: check_quorum_def srv_accepted_def)

lemma accept_promised:
  assumes "srv_state s = Some st" and "vs_proposal st = p"
    and "srv_partial s \<or> check_quorum s q (Some p) = Inr ()"
  shows "accept s q p v =
    Inr (p, s\<lparr>srv_state := Some (st\<lparr>vs_accepted := Some (accept_value st p v)\<rparr>)\<rparr>)"
  using assms by (auto simp: accept_def)

text \<open>
  Persistence: writing a server and reading it back, in any serialization version from 0.2.0
  on, gives the same server, with the promise, the accepted value, the committed value, the quorum and
  the partial flag it had.
\<close>

theorem server_roundtrip:
  assumes "v \<ge> Version 0 2 0"
  shows "Option.bind (server_serialize v s) (server_deserialize (srv_version s) v) = Some s"
proof -
  have "v \<ge> Version 0 1 0" using assms by (rule order_trans [rotated]) (simp add: version_le_def)
  then have acc: "accepted_deserialize v \<lparr>wa_proposal = acc_proposal a, wa_value = WireOption (acc_value a),
              wa_confirmed = Some (acc_confirmed a)\<rparr> = Some a" for a :: "('a, 'b) accepted"
    by (simp add: accepted_deserialize_def)
  show ?thesis
  proof (cases "srv_state s")
    case None
    with assms \<open>v \<ge> Version 0 1 0\<close> show ?thesis
      by (simp add: server_serialize_def server_deserialize_def last_state_def Let_def)
  next
    case (Some st)
    have "\<exists>w. state_serialize v st = Some w \<and> state_deserialize v w = Some st"
      using \<open>v \<ge> Version 0 1 0\<close>
      by (cases "vs_accepted st")
         (auto simp: state_serialize_def state_deserialize_def accepted_serialize_def acc)
    then obtain w where w: "state_serialize v st = Some w" "state_deserialize v w = Some st" by blast
    with Some assms \<open>v \<ge> Version 0 1 0\<close> show ?thesis
      by (simp add: server_serialize_def server_deserialize_def last_state_def Let_def)
  qed
qed

definition confirmed_server :: "(nat, nat) server" where
  "confirmed_server = \<lparr>srv_id = 1, srv_quorum = {1, 2}, srv_value = Some 5, srv_version = Version 0 3 0,
     srv_partial = False,
     srv_state = Some \<lparr>vs_proposal = Proposal 3 1 1,
       vs_accepted = Some \<lparr>acc_proposal = Proposal 3 1 1, acc_value = PQuorum {1, 3}, acc_confirmed = True\<rparr>\<rparr>\<rparr>"

definition confirmed_server' :: "(nat, nat) server" where
  "confirmed_server' = confirmed_server\<lparr>srv_quorum := {1, 3},
     srv_state := Some \<lparr>vs_proposal = Proposal 4 1 2, vs_accepted = None\<rparr>\<rparr>"

theorem propose_keeps_value_witness:
  "propose confirmed_server {1, 3} (Proposal 4 1 2) = Inr (resp_of None None False, confirmed_server')
   \<and> (\<exists>a'. current_value confirmed_server' = Some a' \<and> acc_value a' = PVal 5)"
proof -
  let ?a = "\<lparr>acc_proposal = Proposal 3 1 1, acc_value = PVal 5, acc_confirmed = True\<rparr>"
  have p: "propose confirmed_server {1, 3} (Proposal 4 1 2) = Inr (resp_of None None False, confirmed_server')"
    by code_simp
  have "current_value confirmed_server = Some ?a" by code_simp
  then show ?thesis
    using propose_keeps_value [OF _ _ p, of ?a] p
    by (auto simp: confirmed_server_def confirmed_server'_def server_inv_def less_eq_proposal_def)
qed

theorem server_roundtrip_witness:
  "Version 0 2 0 \<le> Version 0 3 0
   \<and> Option.bind (server_serialize (Version 0 3 0) confirmed_server)
       (server_deserialize (Version 0 3 0) (Version 0 3 0)) = Some confirmed_server"
  using server_roundtrip [of "Version 0 3 0" confirmed_server]
  by (simp add: version_le_def confirmed_server_def)

end
