(* ===== verification/Paxos_Client.thy ===== *)
theory Paxos_Client
  imports Paxos_Server "HOL-Library.Option_ord"
begin

text \<open>
  The Paxos proposer \<^verbatim>\<open>elle::athena::paxos::Client\<close>
  (elle/src/elle/athena/paxos/Client.hh and Client.hxx). A client talks to its peers through
  the abstract class \<^verbatim>\<open>Client::Peer\<close>, here a record of four calls, each of which takes the
  state \<open>'w\<close> of the outside world and returns either a result or an exception, with
  the new state. The world holds the remote servers and whatever other clients do to them
  between two calls.

  \<^verbatim>\<open>for_each_parallel\<close> runs the calls of a phase as coroutines; the model runs them in
  the order of the peer list. The list is arbitrary, so a statement about every list
  covers every completion order. \<^verbatim>\<open>while (true)\<close> loops take a fuel argument;
  running out of fuel is \<^const>\<open>None\<close>. Versions and rounds, of type \<^verbatim>\<open>int\<close> in the code, are
  unbounded: overflow is left out. The pauses between retries are not modelled, only
  the back-off counter that scales them.
\<close>

section \<open>Exceptions, peers and accumulators\<close>

datatype ('c, 'e) exn =
    Unavailable
  | WeakError "('c, 'e) exn"
  | TooFewPeers int int
  | Athena "'c paxos_error"
  | AppError 'e

record ('w, 'v, 'c, 'e) peer =
  peer_id :: 'c
  peer_propose :: "'c set \<Rightarrow> 'c proposal \<Rightarrow> 'w \<Rightarrow> (('c, 'e) exn + ('v, 'c) response) \<times> 'w"
  peer_accept :: "'c set \<Rightarrow> 'c proposal \<Rightarrow> ('v, 'c) pvalue \<Rightarrow> 'w \<Rightarrow> (('c, 'e) exn + 'c proposal) \<times> 'w"
  peer_confirm :: "'c set \<Rightarrow> 'c proposal \<Rightarrow> 'w \<Rightarrow> (('c, 'e) exn + unit) \<times> 'w"
  peer_get :: "'c set \<Rightarrow> 'w \<Rightarrow> (('c, 'e) exn + ('v, 'c) accepted option) \<times> 'w"

record ('w, 'v, 'c, 'e) client =
  cl_id :: 'c
  cl_peers :: "('w, 'v, 'c, 'e) peer list"
  cl_conflict_backoff :: bool
  cl_round :: int

text \<open>The variables a phase captures by reference; peers are named by their index.\<close>

record ('v, 'c, 'e) phase =
  ph_reached :: int
  ph_unavailables :: "nat set"
  ph_weak_error :: "('c, 'e) exn option"
  ph_responses :: "('v, 'c) response list"

record ('v, 'c) choice =
  choice_proposal :: "'c proposal"
  choice_conflicted :: bool
  choice_value :: "('v, 'c) pvalue option"

definition choice_own :: "'c proposal \<Rightarrow> ('v, 'c) choice" where
  "choice_own p = \<lparr>choice_proposal = p, choice_conflicted = False, choice_value = None\<rparr>"

definition choice_other :: "'c proposal \<Rightarrow> ('v, 'c) pvalue \<Rightarrow> ('v, 'c) choice" where
  "choice_other p v = \<lparr>choice_proposal = p, choice_conflicted = True, choice_value = Some v\<rparr>"

definition client_new :: "'c \<Rightarrow> ('w, 'v, 'c, 'e) peer list \<Rightarrow> ('c, 'e) exn + ('w, 'v, 'c, 'e) client" where
  "client_new i ps =
     (if ps = [] then Inl (Athena AssertFailed)
      else Inr \<lparr>cl_id = i, cl_peers = ps, cl_conflict_backoff = True, cl_round = 0\<rparr>)"

definition client_set_peers ::
  "('w, 'v, 'c, 'e) client \<Rightarrow> ('w, 'v, 'c, 'e) peer list \<Rightarrow> ('w, 'v, 'c, 'e) client" where
  "client_set_peers c ps = c\<lparr>cl_peers := ps\<rparr>"

definition client_quorum :: "('w, 'v, 'c, 'e) client \<Rightarrow> 'c set" where
  "client_quorum c = set (map peer_id (cl_peers c))"

text \<open>C++ division truncates towards zero.\<close>

definition div_trunc2 :: "int \<Rightarrow> int" where
  "div_trunc2 n = (if n < 0 then - ((- n) div 2) else n div 2)"

definition check_headcount ::
  "'c set \<Rightarrow> int \<Rightarrow> ('c, 'e) exn option \<Rightarrow> bool \<Rightarrow> ('c, 'e) exn + unit" where
  "check_headcount q reached weak reading =
     (let size = int (card q) in
      if reached \<le> div_trunc2 (size - (if reading then 1 else 0)) then
        (case weak of Some e \<Rightarrow> Inl e | None \<Rightarrow> Inl (TooFewPeers reached size))
      else Inr ())"

definition phase_start :: "nat set \<Rightarrow> ('v, 'c, 'e) phase" where
  "phase_start un = \<lparr>ph_reached = 0, ph_unavailables = un, ph_weak_error = None, ph_responses = []\<rparr>"

definition phase_unavailable :: "nat \<Rightarrow> ('v, 'c, 'e) phase \<Rightarrow> ('v, 'c, 'e) phase" where
  "phase_unavailable i ph = ph\<lparr>ph_unavailables := insert i (ph_unavailables ph)\<rparr>"

definition phase_weak :: "nat \<Rightarrow> ('c, 'e) exn \<Rightarrow> ('v, 'c, 'e) phase \<Rightarrow> ('v, 'c, 'e) phase" where
  "phase_weak i e ph =
     ph\<lparr>ph_unavailables := insert i (ph_unavailables ph),
        ph_weak_error := (case ph_weak_error ph of None \<Rightarrow> Some e | Some e' \<Rightarrow> Some e')\<rparr>"

section \<open>The phases of a round\<close>

fun send_proposals ::
  "nat \<Rightarrow> ('w, 'v, 'c, 'e) peer list \<Rightarrow> 'c set \<Rightarrow> 'c proposal \<Rightarrow> ('v, 'c, 'e) phase \<Rightarrow> 'w
     \<Rightarrow> (('c, 'e) exn + ('v, 'c, 'e) phase) \<times> 'w" where
  "send_proposals i [] q p ph w = (Inr ph, w)"
| "send_proposals i (peer # peers) q p ph w =
     (case peer_propose peer q p w of
        (Inr r, w') \<Rightarrow>
          send_proposals (Suc i) peers q p
            (ph\<lparr>ph_reached := ph_reached ph + 1, ph_responses := ph_responses ph @ [r]\<rparr>) w'
      | (Inl Unavailable, w') \<Rightarrow>
          send_proposals (Suc i) peers q p (phase_unavailable i ph) w'
      | (Inl (WeakError e), w') \<Rightarrow>
          send_proposals (Suc i) peers q p (phase_weak i e ph) w'
      | (Inl e, w') \<Rightarrow> (Inl e, w'))"

text \<open>
  The acceptation phase stops at the first peer whose minimum proposal is higher, and
  returns that minimum.
\<close>

fun send_acceptations ::
  "nat \<Rightarrow> ('w, 'v, 'c::linorder, 'e) peer list \<Rightarrow> 'c set \<Rightarrow> 'c proposal \<Rightarrow> ('v, 'c) pvalue
     \<Rightarrow> ('v, 'c, 'e) phase \<Rightarrow> 'w
     \<Rightarrow> (('c, 'e) exn + ('v, 'c, 'e) phase \<times> 'c proposal option) \<times> 'w" where
  "send_acceptations i [] q p v ph w = (Inr (ph, None), w)"
| "send_acceptations i (peer # peers) q p v ph w =
     (if i \<in> ph_unavailables ph then send_acceptations (Suc i) peers q p v ph w
      else case peer_accept peer q p v w of
        (Inr minimum, w') \<Rightarrow>
          if p < minimum then (Inr (ph, Some minimum), w')
          else send_acceptations (Suc i) peers q p v (ph\<lparr>ph_reached := ph_reached ph + 1\<rparr>) w'
      | (Inl Unavailable, w') \<Rightarrow>
          send_acceptations (Suc i) peers q p v (phase_unavailable i ph) w'
      | (Inl (WeakError e), w') \<Rightarrow>
          send_acceptations (Suc i) peers q p v (phase_weak i e ph) w'
      | (Inl e, w') \<Rightarrow> (Inl e, w'))"

fun send_confirmations ::
  "nat \<Rightarrow> ('w, 'v, 'c, 'e) peer list \<Rightarrow> 'c set \<Rightarrow> 'c proposal \<Rightarrow> ('v, 'c, 'e) phase \<Rightarrow> 'w
     \<Rightarrow> (('c, 'e) exn + ('v, 'c, 'e) phase) \<times> 'w" where
  "send_confirmations i [] q p ph w = (Inr ph, w)"
| "send_confirmations i (peer # peers) q p ph w =
     (if i \<in> ph_unavailables ph then send_confirmations (Suc i) peers q p ph w
      else case peer_confirm peer q p w of
        (Inr _, w') \<Rightarrow>
          send_confirmations (Suc i) peers q p (ph\<lparr>ph_reached := ph_reached ph + 1\<rparr>) w'
      | (Inl Unavailable, w') \<Rightarrow>
          send_confirmations (Suc i) peers q p (phase_unavailable i ph) w'
      | (Inl (WeakError e), w') \<Rightarrow>
          send_confirmations (Suc i) peers q p (phase_weak i e ph) w'
      | (Inl e, w') \<Rightarrow> (Inl e, w'))"

section \<open>What the responses decide\<close>

definition resp_is_confirmed :: "('v, 'c) response \<Rightarrow> bool" where
  "resp_is_confirmed r \<longleftrightarrow> resp_value r \<noteq> None \<and> resp_confirmed r"

text \<open>\<^verbatim>\<open>std::max_element\<close>: the first of the greatest elements; a comparison may throw.\<close>

fun max_element_from :: "('a \<Rightarrow> 'a \<Rightarrow> 'e + bool) \<Rightarrow> 'a \<Rightarrow> 'a list \<Rightarrow> 'e + 'a" where
  "max_element_from cmp largest [] = Inr largest"
| "max_element_from cmp largest (x # xs) =
     bind_res (cmp largest x) (\<lambda>b. max_element_from cmp (if b then x else largest) xs)"

definition max_element :: "('a \<Rightarrow> 'a \<Rightarrow> 'e + bool) \<Rightarrow> 'a list \<Rightarrow> 'e + 'a option" where
  "max_element cmp xs =
     (case xs of [] \<Rightarrow> Inr None | x # xs' \<Rightarrow> bind_res (max_element_from cmp x xs') (\<lambda>m. Inr (Some m)))"

definition enforce_less ::
  "'c::linorder proposal option \<Rightarrow> 'c proposal option \<Rightarrow> ('c, 'e) exn + bool" where
  \<comment> \<open>\<^verbatim>\<open>ELLE_ENFORCE(l) < ELLE_ENFORCE(r)\<close>\<close>
  "enforce_less l r =
     (case (l, r) of (Some a, Some b) \<Rightarrow> Inr (a < b) | _ \<Rightarrow> Inl (Athena AssertFailed))"

definition resp_valued ::
  "('v, 'c::linorder) response \<Rightarrow> ('v, 'c) response \<Rightarrow> ('c, 'e) exn + bool" where
  "resp_valued l r =
     (if resp_value l \<noteq> None \<and> resp_value r \<noteq> None
      then enforce_less (resp_proposal l) (resp_proposal r)
      else Inr (resp_value l = None \<and> resp_value r \<noteq> None))"

definition resp_proposed ::
  "('v, 'c::linorder) response \<Rightarrow> ('v, 'c) response \<Rightarrow> ('c, 'e) exn + bool" where
  "resp_proposed l r =
     (if resp_proposal l \<noteq> None \<and> resp_proposal r \<noteq> None
      then enforce_less (resp_proposal l) (resp_proposal r)
      else Inr (resp_proposal l = None \<and> resp_proposal r \<noteq> None))"

text \<open>What the client does once the responses to its proposal are in.\<close>

datatype ('v, 'c) verdict =
    Elected "('v, 'c) choice" \<comment> \<open>a confirmed value was found: return it\<close>
  | Retry int int             \<comment> \<open>\<^verbatim>\<open>continue\<close> at this version, with \<^verbatim>\<open>_round\<close> set to this\<close>
  | Proceed                   \<comment> \<open>send the acceptation\<close>

text \<open>
  The variables of \<^verbatim>\<open>choose\<close> that live across iterations; \<^verbatim>\<open>_round\<close> is a member of the
  client and outlives the call.
\<close>

record ('v, 'c) loop =
  lp_version :: int
  lp_round :: int
  lp_replace :: "('v, 'c) pvalue option"
  lp_backoff :: int

definition decide_replace ::
  "('v, 'c::linorder) response list \<Rightarrow> ('v, 'c) pvalue option \<Rightarrow> ('c, 'e) exn + ('v, 'c) pvalue option" where
  "decide_replace rs replace =
     bind_res (max_element resp_valued rs) (\<lambda>m.
       Inr (case m of
              Some r \<Rightarrow> (case resp_value r of Some v \<Rightarrow> Some v | None \<Rightarrow> replace)
            | None \<Rightarrow> replace))"

definition decide_retry ::
  "'c::linorder proposal \<Rightarrow> ('v, 'c) response list \<Rightarrow> ('c, 'e) exn + (int \<times> int) option" where
  "decide_retry p rs =
     bind_res (max_element resp_proposed rs) (\<lambda>m.
       Inr (case m of
              None \<Rightarrow> None
            | Some r \<Rightarrow>
                (case resp_proposal r of
                   None \<Rightarrow> None
                 | Some b \<Rightarrow>
                     if p = b then Some (prop_version p, prop_round b + 1)
                     else if p < b then Some (prop_version b, prop_round b)
                     else None)))"

definition decide_proposals ::
  "'c::linorder set \<Rightarrow> 'c proposal \<Rightarrow> ('v, 'c, 'e) phase \<Rightarrow> ('v, 'c) pvalue option
     \<Rightarrow> ('c, 'e) exn + ('v, 'c) verdict \<times> ('v, 'c) pvalue option" where
  "decide_proposals q p ph replace =
     (case find resp_is_confirmed (ph_responses ph) of
        Some r \<Rightarrow>
          (case (resp_proposal r, resp_value r) of
             (Some b, Some v) \<Rightarrow> Inr (Elected (choice_other b v), replace)
           | _ \<Rightarrow> Inl (Athena AssertFailed))
      | None \<Rightarrow>
          bind_res (check_headcount q (ph_reached ph) (ph_weak_error ph) False) (\<lambda>_.
          bind_res (decide_replace (ph_responses ph) replace) (\<lambda>replace'.
          bind_res (decide_retry p (ph_responses ph)) (\<lambda>retry.
            Inr (case retry of
                   Some (ver, rnd) \<Rightarrow> Retry ver rnd
                 | None \<Rightarrow> Proceed, replace')))))"

section \<open>choose\<close>

datatype ('v, 'c) round_end = Finished "('v, 'c) choice" | Continue

text \<open>Second half of an iteration: acceptation, then confirmation.\<close>

definition accept_and_confirm ::
  "('w, 'v, 'c::linorder, 'e) client \<Rightarrow> 'c set \<Rightarrow> 'c proposal \<Rightarrow> ('v, 'c) pvalue
     \<Rightarrow> nat set \<Rightarrow> ('v, 'c) loop \<Rightarrow> 'w
     \<Rightarrow> (('c, 'e) exn + ('v, 'c) round_end) \<times> ('v, 'c) loop \<times> 'w" where
  "accept_and_confirm c q p val un lp w =
     (case send_acceptations 0 (cl_peers c) q p
             (case lp_replace lp of Some v \<Rightarrow> v | None \<Rightarrow> val) (phase_start un) w of
        (Inl e, w1) \<Rightarrow> (Inl e, lp, w1)
      | (Inr (ph, Some minimum), w1) \<Rightarrow>
          (Inr Continue,
           lp\<lparr>lp_version := prop_version minimum, lp_round := prop_round minimum,
              lp_backoff := min (lp_backoff lp * 2) 64\<rparr>, w1)
      | (Inr (ph, None), w1) \<Rightarrow>
          (case check_headcount q (ph_reached ph) (ph_weak_error ph) False of
             Inl e \<Rightarrow> (Inl e, lp, w1)
           | Inr _ \<Rightarrow>
               (case send_confirmations 0 (cl_peers c) q p (phase_start (ph_unavailables ph)) w1 of
                  (Inl e, w2) \<Rightarrow> (Inl e, lp, w2)
                | (Inr ph2, w2) \<Rightarrow>
                    (case check_headcount q (ph_reached ph2) (ph_weak_error ph2) False of
                       Inl e \<Rightarrow> (Inl e, lp, w2)
                     | Inr _ \<Rightarrow>
                         (Inr (Finished (case lp_replace lp of
                                 Some v \<Rightarrow> choice_other p v | None \<Rightarrow> choice_own p)), lp, w2)))))"

definition choose_round ::
  "('w, 'v, 'c::linorder, 'e) client \<Rightarrow> ('v, 'c) pvalue \<Rightarrow> ('v, 'c) loop \<Rightarrow> 'w
     \<Rightarrow> (('c, 'e) exn + ('v, 'c) round_end) \<times> ('v, 'c) loop \<times> 'w" where
  "choose_round c val lp w =
     (let q = client_quorum c;
          lp1 = lp\<lparr>lp_round := lp_round lp + 1\<rparr>;
          p = Proposal (lp_version lp1) (lp_round lp1) (cl_id c)
      in case send_proposals 0 (cl_peers c) q p (phase_start {}) w of
           (Inl e, w1) \<Rightarrow> (Inl e, lp1, w1)
         | (Inr ph, w1) \<Rightarrow>
             (case decide_proposals q p ph (lp_replace lp1) of
                Inl e \<Rightarrow> (Inl e, lp1, w1)
              | Inr (Elected ch, _) \<Rightarrow> (Inr (Finished ch), lp1, w1)
              | Inr (Retry ver rnd, replace') \<Rightarrow>
                  (Inr Continue, lp1\<lparr>lp_version := ver, lp_round := rnd, lp_replace := replace'\<rparr>, w1)
              | Inr (Proceed, replace') \<Rightarrow>
                  accept_and_confirm c q p val (ph_unavailables ph) (lp1\<lparr>lp_replace := replace'\<rparr>) w1))"

fun choose_loop ::
  "nat \<Rightarrow> ('w, 'v, 'c::linorder, 'e) client \<Rightarrow> ('v, 'c) pvalue \<Rightarrow> ('v, 'c) loop \<Rightarrow> 'w
     \<Rightarrow> ((('c, 'e) exn + ('v, 'c) choice) \<times> ('v, 'c) loop \<times> 'w) option" where
  "choose_loop 0 c val lp w = None"
| "choose_loop (Suc fuel) c val lp w =
     (case choose_round c val lp w of
        (Inl e, lp', w') \<Rightarrow> Some (Inl e, lp', w')
      | (Inr (Finished ch), lp', w') \<Rightarrow> Some (Inr ch, lp', w')
      | (Inr Continue, lp', w') \<Rightarrow> choose_loop fuel c val lp' w')"

definition loop_start :: "('w, 'v, 'c, 'e) client \<Rightarrow> int \<Rightarrow> ('v, 'c) loop" where
  "loop_start c ver = \<lparr>lp_version = ver, lp_round = cl_round c, lp_replace = None, lp_backoff = 1\<rparr>"

definition client_choose ::
  "nat \<Rightarrow> ('w, 'v, 'c::linorder, 'e) client \<Rightarrow> int \<Rightarrow> ('v, 'c) pvalue \<Rightarrow> 'w
     \<Rightarrow> ((('c, 'e) exn + ('v, 'c) choice) \<times> ('w, 'v, 'c, 'e) client \<times> 'w) option" where
  "client_choose fuel c ver val w =
     map_option (\<lambda>(r, lp, w'). (r, c\<lparr>cl_round := lp_round lp\<rparr>, w'))
       (choose_loop fuel c val (loop_start c ver) w)"

definition choose_default ::
  "nat \<Rightarrow> ('w, 'v, 'c::linorder, 'e) client \<Rightarrow> ('v, 'c) pvalue \<Rightarrow> 'w
     \<Rightarrow> ((('c, 'e) exn + ('v, 'c) choice) \<times> ('w, 'v, 'c, 'e) client \<times> 'w) option" where
  "choose_default fuel c val w = client_choose fuel c 0 val w"

section \<open>state\<close>

record ('v, 'c, 'e) gather =
  ga_reached :: int
  ga_res :: "('v, 'c) accepted option"
  ga_wrong_quorum :: "'c paxos_error option"
  ga_weak_error :: "('c, 'e) exn option"

record ('v, 'c) paxos_state =
  cs_value :: "'v option"
  cs_quorum :: "'c set"
  cs_proposal :: "'c proposal option"

definition gather_accepted ::
  "('v, 'c::linorder, 'e) gather \<Rightarrow> ('v, 'c) accepted option \<Rightarrow> ('v, 'c, 'e) gather" where
  "gather_accepted g acc =
     (let g1 = g\<lparr>ga_reached := ga_reached g + 1\<rparr> in
      case acc of
        None \<Rightarrow> g1
      | Some a \<Rightarrow>
          (case ga_res g of
             None \<Rightarrow> g1\<lparr>ga_res := Some a\<rparr>
           | Some b \<Rightarrow> if acc_proposal b < acc_proposal a then g1\<lparr>ga_res := Some a\<rparr> else g1))"

definition gather_wrong ::
  "('v, 'c::linorder, 'e) gather \<Rightarrow> 'c proposal \<Rightarrow> 'c paxos_error \<Rightarrow> ('v, 'c, 'e) gather" where
  "gather_wrong g p e =
     (let g1 = g\<lparr>ga_reached := ga_reached g + 1\<rparr> in
      case ga_wrong_quorum g of
        None \<Rightarrow> g1\<lparr>ga_wrong_quorum := Some e\<rparr>
      | Some e' \<Rightarrow>
          (case wq_proposal e' of
             None \<Rightarrow> g1
           | Some p' \<Rightarrow> if p' < p then g1\<lparr>ga_wrong_quorum := Some e\<rparr> else g1))"

fun get_all ::
  "('w, 'v, 'c::linorder, 'e) peer list \<Rightarrow> 'c set \<Rightarrow> ('v, 'c, 'e) gather \<Rightarrow> 'w
     \<Rightarrow> (('c, 'e) exn + ('v, 'c, 'e) gather) \<times> 'w" where
  "get_all [] q g w = (Inr g, w)"
| "get_all (peer # peers) q g w =
     (case peer_get peer q w of
        (Inr acc, w') \<Rightarrow> get_all peers q (gather_accepted g acc) w'
      | (Inl Unavailable, w') \<Rightarrow> get_all peers q g w'
      | (Inl (WeakError e), w') \<Rightarrow>
          get_all peers q
            (g\<lparr>ga_weak_error := (case ga_weak_error g of None \<Rightarrow> Some e | Some e' \<Rightarrow> Some e')\<rparr>) w'
      | (Inl (Athena (WrongQuorum ex ef (Some p))), w') \<Rightarrow>
          get_all peers q (gather_wrong g p (WrongQuorum ex ef (Some p))) w'
      | (Inl e, w') \<Rightarrow> (Inl e, w'))"

definition state_result ::
  "'c::linorder set \<Rightarrow> ('v, 'c, 'e) gather \<Rightarrow> ('c, 'e) exn + ('v, 'c) paxos_state" where
  "state_result q g =
     bind_res (check_headcount q (ga_reached g) (ga_weak_error g) True) (\<lambda>_.
       let value_state =
         (case ga_res g of
            None \<Rightarrow> Inr \<lparr>cs_value = None, cs_quorum = q, cs_proposal = None\<rparr>
          | Some a \<Rightarrow>
              (case acc_value a of
                 PVal v \<Rightarrow> Inr \<lparr>cs_value = Some v, cs_quorum = q, cs_proposal = Some (acc_proposal a)\<rparr>
               | PQuorum _ \<Rightarrow> Inl (Athena AssertFailed)))
       in case ga_wrong_quorum g of
            None \<Rightarrow> value_state
          | Some e \<Rightarrow>
              (case (ga_res g, wq_proposal e) of
                 (None, _) \<Rightarrow> Inl (Athena e)
               | (Some a, Some p) \<Rightarrow> if acc_proposal a < p then Inl (Athena e) else value_state
               | (Some a, None) \<Rightarrow> value_state))"

definition client_state ::
  "('w, 'v, 'c::linorder, 'e) client \<Rightarrow> 'w \<Rightarrow> (('c, 'e) exn + ('v, 'c) paxos_state) \<times> 'w" where
  "client_state c w =
     (let q = client_quorum c in
      case get_all (cl_peers c) q
             \<lparr>ga_reached = 0, ga_res = None, ga_wrong_quorum = None, ga_weak_error = None\<rparr> w of
        (Inl e, w') \<Rightarrow> (Inl e, w')
      | (Inr g, w') \<Rightarrow> (state_result q g, w'))"

definition client_get ::
  "('w, 'v, 'c::linorder, 'e) client \<Rightarrow> 'w \<Rightarrow> (('c, 'e) exn + 'v option) \<times> 'w" where
  "client_get c w =
     (case client_state c w of
        (Inl e, w') \<Rightarrow> (Inl e, w')
      | (Inr st, w') \<Rightarrow> (Inr (cs_value st), w'))"

section \<open>Headcounts\<close>

lemma check_headcount_ok:
  "check_headcount q reached weak reading = Inr () \<longleftrightarrow>
     int (card q) - (if reading then 1 else 0) < 2 * reached \<and> (reading \<and> card q = 0 \<longrightarrow> 0 < reached)"
  by (auto simp: check_headcount_def div_trunc2_def Let_def split: option.splits)

text \<open>
  Quorum intersection: the headcount that lets a client write and the smaller one that lets
  it read (or write) can only both be passed by two sets of servers that have a server in common.
\<close>

theorem headcount_meet:
  fixes weak weak' :: "('c, 'e) exn option"
  assumes fin: "finite q" "A \<subseteq> q" "B \<subseteq> q"
    and w: "check_headcount q (int (card A)) weak False = Inr ()"
    and r: "check_headcount q (int (card B)) weak' reading = Inr ()"
  shows "A \<inter> B \<noteq> {}"
proof
  assume disj: "A \<inter> B = {}"
  have "finite A" "finite B" using fin by (auto intro: finite_subset)
  then have "card A + card B = card (A \<union> B)" using disj by (simp add: card_Un_disjoint)
  also have "\<dots> \<le> card q" using fin by (intro card_mono) auto
  finally show False using w r by (auto simp: check_headcount_ok split: if_splits)
qed

section \<open>Proposals increase from one iteration to the next\<close>

text \<open>
  Rounds are integers in this model and of type \<^verbatim>\<open>int\<close> in the code, which increments them
  and sets them from the answers of the peers; both agree below this bound.
\<close>

definition int_max :: int where
  "int_max = 2 ^ 31 - 1"

definition next_proposal :: "('w, 'v, 'c, 'e) client \<Rightarrow> ('v, 'c) loop \<Rightarrow> 'c proposal" where
  "next_proposal c lp = Proposal (lp_version lp) (lp_round lp + 1) (cl_id c)"

lemma send_acceptations_conflict:
  "send_acceptations i peers q p v ph w = (Inr (ph', Some m), w') \<Longrightarrow> p < m"
  by (induction i peers q p v ph w rule: send_acceptations.induct)
    (auto split: prod.splits sum.splits exn.splits if_splits)

lemma accept_and_confirm_continue:
  assumes "accept_and_confirm c q p val un lp w = (Inr Continue, lp', w')"
  shows "\<exists>m. p < m \<and> lp_version lp' = prop_version m \<and> lp_round lp' = prop_round m
    \<and> lp_backoff lp' = min (lp_backoff lp * 2) 64 \<and> lp_replace lp' = lp_replace lp"
  using assms unfolding accept_and_confirm_def
  by (auto split: prod.splits sum.splits option.splits dest: send_acceptations_conflict)

lemma next_round_higher:
  "p \<le> b \<Longrightarrow> prop_round b < rnd \<Longrightarrow> p < Proposal (prop_version b) rnd i"
  by (cases p; cases b) (auto simp: less_eq_proposal_def)

lemma next_round_above: "p < b \<Longrightarrow> p < Proposal (prop_version b) (prop_round b + 1) i"
  by (rule next_round_higher) auto

lemma decide_retry_Some:
  fixes rs :: "('v, 'c::linorder) response list"
  assumes "decide_retry p rs = Inr (Some (ver, rnd))"
  obtains b where "p = b" "ver = prop_version b" "rnd = prop_round b + 1"
  | b where "p < b" "ver = prop_version b" "rnd = prop_round b"
proof -
  from assms obtain m :: "('v, 'c) response option" where "(case m of None \<Rightarrow> None | Some r \<Rightarrow>
      (case resp_proposal r of None \<Rightarrow> None | Some b \<Rightarrow>
         if p = b then Some (prop_version p, prop_round b + 1)
         else if p < b then Some (prop_version b, prop_round b) else None)) = Some (ver, rnd)"
    by (auto simp: decide_retry_def bind_res_eq_Inr)
  then show thesis using that by (simp split: option.splits if_splits)
qed

lemma decide_retry_higher:
  "decide_retry p rs = Inr (Some (ver, rnd)) \<Longrightarrow> p < Proposal ver (rnd + 1) i"
  by (erule decide_retry_Some) (auto intro!: next_round_higher)

lemma decide_proposals_retry:
  "decide_proposals q p ph rep = Inr (Retry ver rnd, rep') \<Longrightarrow>
   decide_retry p (ph_responses ph) = (Inr (Some (ver, rnd)) :: ('c, 'e) exn + (int \<times> int) option)"
  for ph :: "('v, 'c::linorder, 'e) phase"
  by (auto simp: decide_proposals_def bind_res_eq_Inr split: option.splits)

text \<open>
  C35. Progress of the retry loop: whenever an iteration of \<open>choose\<close> ends in a retry, the
  proposal of the next iteration is strictly greater than the one just tried, for any peers,
  as long as the round of the client, which is set from their answers, stays below the greatest
  \<^verbatim>\<open>int\<close>: then the rounds of both proposals are in the range of the type and the
  increments of the code do not overflow. (A peer that answers with the greatest \<^verbatim>\<open>int\<close>
  makes the next increment overflow, which is undefined.)
\<close>

theorem choose_round_next_higher:
  assumes "choose_round c val lp w = (Inr Continue, lp', w')"
    and "lp_round lp < int_max" and "lp_round lp' < int_max"
  shows "next_proposal c lp < next_proposal c lp' \<and>
    prop_round (next_proposal c lp) \<le> int_max \<and> prop_round (next_proposal c lp') \<le> int_max"
proof -
  have "next_proposal c lp < next_proposal c lp'"
    using assms(1) unfolding choose_round_def Let_def next_proposal_def
    by (auto simp del: less_proposal_simps split: prod.splits sum.splits verdict.splits
        dest!: accept_and_confirm_continue decide_proposals_retry
        intro: decide_retry_higher next_round_above)
  then show ?thesis using assms(2,3) by (simp add: next_proposal_def)
qed

lemma choose_round_backoff:
  assumes "choose_round c val lp w = (r, lp', w')" and "1 \<le> lp_backoff lp" "lp_backoff lp \<le> 64"
  shows "1 \<le> lp_backoff lp' \<and> lp_backoff lp' \<le> 64"
  using assms unfolding choose_round_def Let_def accept_and_confirm_def
  by (auto split: prod.splits sum.splits verdict.splits option.splits)

section \<open>Counting\<close>

lemma send_proposals_reached:
  assumes "send_proposals i peers q p ph w = (Inr ph', w')"
    and "ph_reached ph = int (length (ph_responses ph))"
  shows "ph_reached ph' = int (length (ph_responses ph'))
    \<and> length (ph_responses ph') \<le> length (ph_responses ph) + length peers"
  using assms
  by (induction i peers q p ph w rule: send_proposals.induct)
    (fastforce simp: phase_unavailable_def phase_weak_def split: prod.splits sum.splits exn.splits)+

section \<open>Choosing among the responses\<close>

lemma max_element_from_key:
  fixes f :: "'a \<Rightarrow> 'b::linorder"
  assumes "\<And>x y. x \<in> insert m (set xs) \<Longrightarrow> y \<in> set xs \<Longrightarrow> cmp x y = Inr (f x < f y)"
  shows "\<exists>r \<in> insert m (set xs). max_element_from cmp m xs = Inr r \<and> (\<forall>x \<in> insert m (set xs). f x \<le> f r)"
  using assms
proof (induction xs arbitrary: m)
  case (Cons x xs)
  let ?m = "if f m < f x then x else m"
  have "cmp m x = Inr (f m < f x)" using Cons.prems by auto
  moreover have "\<exists>r \<in> insert ?m (set xs). max_element_from cmp ?m xs = Inr r \<and> (\<forall>x \<in> insert ?m (set xs). f x \<le> f r)"
    using Cons.prems by (intro Cons.IH) auto
  ultimately show ?case by (auto split: if_splits)
qed simp

lemma max_element_key:
  fixes f :: "'a \<Rightarrow> 'b::linorder"
  assumes "\<And>x y. x \<in> set xs \<Longrightarrow> y \<in> set xs \<Longrightarrow> cmp x y = Inr (f x < f y)" and "xs \<noteq> []"
  shows "\<exists>r \<in> set xs. max_element cmp xs = Inr (Some r) \<and> (\<forall>x \<in> set xs. f x \<le> f r)"
proof (cases xs)
  case (Cons x ys)
  then show ?thesis using max_element_from_key [of x ys cmp f] assms(1)
    by (auto simp: max_element_def)
qed (use assms(2) in simp)

lemma resp_proposed_key: "resp_proposed l r = Inr (resp_proposal l < resp_proposal r)"
  by (cases "resp_proposal l"; cases "resp_proposal r") (auto simp: resp_proposed_def enforce_less_def)

definition resp_wf :: "('v, 'c) response \<Rightarrow> bool" where
  "resp_wf r \<longleftrightarrow> (resp_value r \<noteq> None \<longrightarrow> resp_proposal r \<noteq> None)"

definition valued_key :: "('v, 'c) response \<Rightarrow> 'c proposal option" where
  "valued_key r = (if resp_value r = None then None else resp_proposal r)"

lemma resp_valued_key:
  "resp_wf l \<Longrightarrow> resp_wf r \<Longrightarrow> resp_valued l r = Inr (valued_key l < valued_key r)"
  by (cases "resp_proposal l"; cases "resp_proposal r")
    (auto simp: resp_valued_def enforce_less_def valued_key_def resp_wf_def)

lemma decide_replace_highest:
  fixes rs :: "('v, 'c::linorder) response list"
  assumes "\<And>r. r \<in> set rs \<Longrightarrow> resp_wf r"
  obtains (replaced) r where "r \<in> set rs" "resp_value r \<noteq> None"
      "\<And>r'. r' \<in> set rs \<Longrightarrow> resp_value r' \<noteq> None \<Longrightarrow> resp_proposal r' \<le> resp_proposal r"
      "decide_replace rs rep = (Inr (resp_value r) :: ('c, 'e) exn + _)"
  | (kept) "\<And>r. r \<in> set rs \<Longrightarrow> resp_value r = None"
      "decide_replace rs rep = (Inr rep :: ('c, 'e) exn + _)"
proof (cases "rs = []")
  case True
  with kept show thesis by (simp add: decide_replace_def max_element_def)
next
  case False
  have "\<exists>r \<in> set rs. max_element resp_valued rs = (Inr (Some r) :: ('c, 'e) exn + _)
      \<and> (\<forall>x \<in> set rs. valued_key x \<le> valued_key r)"
    using assms False by (intro max_element_key) (auto simp: resp_valued_key)
  then obtain r where
    r: "r \<in> set rs" "max_element resp_valued rs = (Inr (Some r) :: ('c, 'e) exn + _)"
      "\<And>x. x \<in> set rs \<Longrightarrow> valued_key x \<le> valued_key r" by auto
  show thesis
  proof (cases "resp_value r")
    case None
    have "resp_value x = None" if "x \<in> set rs" for x
      using r(3) [OF that] assms [OF that] None
      by (cases "resp_proposal x") (auto simp: valued_key_def resp_wf_def split: if_splits)
    moreover have "decide_replace rs rep = (Inr rep :: ('c, 'e) exn + _)"
      using None by (simp add: decide_replace_def r(2))
    ultimately show thesis by (rule kept)
  next
    case (Some v)
    have "resp_proposal x \<le> resp_proposal r" if "x \<in> set rs" "resp_value x \<noteq> None" for x
      using r(3) [OF that(1)] that(2) Some by (simp add: valued_key_def)
    moreover have "decide_replace rs rep = (Inr (resp_value r) :: ('c, 'e) exn + _)"
      using Some by (simp add: decide_replace_def r(2))
    ultimately show thesis using replaced r(1) Some by blast
  qed
qed

lemma decide_retry_highest:
  fixes rs :: "('v, 'c::linorder) response list"
  obtains (proceed) "decide_retry p rs = (Inr None :: ('c, 'e) exn + _)"
      "\<And>r b. r \<in> set rs \<Longrightarrow> resp_proposal r = Some b \<Longrightarrow> b < p"
  | (retry) m rnd where "decide_retry p rs = (Inr (Some (prop_version m, rnd)) :: ('c, 'e) exn + _)"
      "\<exists>r \<in> set rs. resp_proposal r = Some m" "prop_round m \<le> rnd" "p \<le> m"
      "\<And>r b. r \<in> set rs \<Longrightarrow> resp_proposal r = Some b \<Longrightarrow> b \<le> m"
proof (cases "rs = []")
  case True
  with proceed show thesis by (simp add: decide_retry_def max_element_def)
next
  case False
  have "\<exists>r \<in> set rs. max_element resp_proposed rs = (Inr (Some r) :: ('c, 'e) exn + _)
      \<and> (\<forall>x \<in> set rs. resp_proposal x \<le> resp_proposal r)"
    using False by (intro max_element_key) (auto simp: resp_proposed_key)
  then obtain r where
    r: "r \<in> set rs" "max_element resp_proposed rs = (Inr (Some r) :: ('c, 'e) exn + _)"
      "\<And>x. x \<in> set rs \<Longrightarrow> resp_proposal x \<le> resp_proposal r" by auto
  show thesis
  proof (cases "resp_proposal r")
    case None
    with r(3) have "resp_proposal x = None" if "x \<in> set rs" for x
      using that by (metis less_eq_option_None_is_None)
    with None r proceed show thesis by (simp add: decide_retry_def)
  next
    case (Some b)
    have le: "b' \<le> b" if "x \<in> set rs" "resp_proposal x = Some b'" for x b'
      using r(3) [OF that(1)] that(2) Some by simp
    consider "b < p" | "p = b" | "p < b" by (rule linorder_cases)
    then show thesis
    proof cases
      case 1
      with Some r(2) show thesis
        by (intro proceed) (auto simp: decide_retry_def dest!: le)
    next
      case 2
      with Some r(1,2) le show thesis
        by (intro retry [of b "prop_round b + 1"]) (auto simp: decide_retry_def)
    next
      case 3
      with Some r(1,2) le show thesis
        by (intro retry [of b "prop_round b"]) (auto simp: decide_retry_def)
    qed
  qed
qed

theorem headcount_meet_witness:
  "check_headcount {1, 2, 3, 4 :: nat} (int (card {1, 2, 3 :: nat})) (None :: (nat, unit) exn option) False = Inr ()
   \<and> check_headcount {1, 2, 3, 4 :: nat} (int (card {3, 4 :: nat})) (None :: (nat, unit) exn option) True = Inr ()
   \<and> {1, 2, 3} \<inter> {3, 4 :: nat} \<noteq> {}"
proof -
  have h: "check_headcount {1, 2, 3, 4 :: nat} (int (card {1, 2, 3 :: nat})) (None :: (nat, unit) exn option) False = Inr ()"
    "check_headcount {1, 2, 3, 4 :: nat} (int (card {3, 4 :: nat})) (None :: (nat, unit) exn option) True = Inr ()"
    by code_simp+
  with headcount_meet [OF _ _ _ h] show ?thesis by auto
qed

end
