(* ===== verification/Paxos_Cluster.thy ===== *)
theory Paxos_Cluster
  imports Paxos_Client
begin

text \<open>
  A client against servers. The outside world is a finite map from identifiers to
  servers; a peer of the client forwards each call to the server of its identifier
  (class \<^verbatim>\<open>Peer\<close> of elle/tests/elle/athena/paxos.cc), and a server absent from the map is
  unavailable. The lemmas compute a whole phase over the cluster, then show that a client
  elects its value in one round on a cluster that is ready for the next version, and
  within two rounds on a cluster left behind by proposers that stopped half way.
\<close>

section \<open>Peers backed by servers\<close>

definition server_peer :: "'c \<Rightarrow> ('c \<rightharpoonup> ('v, 'c::{linorder, zero}) server, 'v, 'c, 'e) peer" where
  "server_peer i =
     \<lparr>peer_id = i,
      peer_propose = (\<lambda>q p w. case w i of
          None \<Rightarrow> (Inl Unavailable, w)
        | Some s \<Rightarrow> (case propose s q p of
              Inl e \<Rightarrow> (Inl (Athena e), w) | Inr (r, s') \<Rightarrow> (Inr r, w(i \<mapsto> s')))),
      peer_accept = (\<lambda>q p v w. case w i of
          None \<Rightarrow> (Inl Unavailable, w)
        | Some s \<Rightarrow> (case accept s q p v of
              Inl e \<Rightarrow> (Inl (Athena e), w) | Inr (m, s') \<Rightarrow> (Inr m, w(i \<mapsto> s')))),
      peer_confirm = (\<lambda>q p w. case w i of
          None \<Rightarrow> (Inl Unavailable, w)
        | Some s \<Rightarrow> (case confirm s q p of
              Inl e \<Rightarrow> (Inl (Athena e), w) | Inr s' \<Rightarrow> (Inr (), w(i \<mapsto> s')))),
      peer_get = (\<lambda>q w. case w i of
          None \<Rightarrow> (Inl Unavailable, w)
        | Some s \<Rightarrow> (case server_get s q of Inl e \<Rightarrow> (Inl (Athena e), w) | Inr a \<Rightarrow> (Inr a, w)))\<rparr>"

lemma server_peer_propose [simp]:
  "w i = None \<Longrightarrow> peer_propose (server_peer i) q p w = (Inl Unavailable, w)"
  "w i = Some s \<Longrightarrow> propose s q p = Inr (r, s') \<Longrightarrow> peer_propose (server_peer i) q p w = (Inr r, w(i \<mapsto> s'))"
  "w i = Some s \<Longrightarrow> propose s q p = Inl e \<Longrightarrow> peer_propose (server_peer i) q p w = (Inl (Athena e), w)"
  by (simp_all add: server_peer_def)

lemma server_peer_accept [simp]:
  "w i = None \<Longrightarrow> peer_accept (server_peer i) q p v w = (Inl Unavailable, w)"
  "w i = Some s \<Longrightarrow> accept s q p v = Inr (m, s') \<Longrightarrow> peer_accept (server_peer i) q p v w = (Inr m, w(i \<mapsto> s'))"
  "w i = Some s \<Longrightarrow> accept s q p v = Inl e \<Longrightarrow> peer_accept (server_peer i) q p v w = (Inl (Athena e), w)"
  by (simp_all add: server_peer_def)

lemma server_peer_confirm [simp]:
  "w i = None \<Longrightarrow> peer_confirm (server_peer i) q p w = (Inl Unavailable, w)"
  "w i = Some s \<Longrightarrow> confirm s q p = Inr s' \<Longrightarrow> peer_confirm (server_peer i) q p w = (Inr (), w(i \<mapsto> s'))"
  "w i = Some s \<Longrightarrow> confirm s q p = Inl e \<Longrightarrow> peer_confirm (server_peer i) q p w = (Inl (Athena e), w)"
  by (simp_all add: server_peer_def)

lemma server_peer_get [simp]:
  "w i = None \<Longrightarrow> peer_get (server_peer i) q w = (Inl Unavailable, w)"
  "w i = Some s \<Longrightarrow> server_get s q = Inr a \<Longrightarrow> peer_get (server_peer i) q w = (Inr a, w)"
  "w i = Some s \<Longrightarrow> server_get s q = Inl e \<Longrightarrow> peer_get (server_peer i) q w = (Inl (Athena e), w)"
  by (simp_all add: server_peer_def)

lemma server_peer_id [simp]: "peer_id (server_peer i) = i"
  by (simp add: server_peer_def)

definition up :: "('c \<rightharpoonup> 's) \<Rightarrow> 'c list \<Rightarrow> 'c list" where
  "up w ids = filter (\<lambda>k. w k \<noteq> None) ids"

fun down_from :: "nat \<Rightarrow> ('c \<rightharpoonup> 's) \<Rightarrow> 'c list \<Rightarrow> nat set" where
  "down_from i w [] = {}"
| "down_from i w (k # ks) = (if w k = None then insert i (down_from (Suc i) w ks) else down_from (Suc i) w ks)"

definition update_up :: "('c \<rightharpoonup> 's) \<Rightarrow> 'c list \<Rightarrow> ('c \<Rightarrow> 's) \<Rightarrow> ('c \<rightharpoonup> 's)" where
  "update_up w ids g = (\<lambda>k. if k \<in> set ids \<and> w k \<noteq> None then Some (g k) else w k)"

lemma up_simps [simp]:
  "up w [] = []" "up w (k # ks) = (if w k = None then up w ks else k # up w ks)"
  by (simp_all add: up_def)

lemma up_cong: "(\<And>k. k \<in> set ids \<Longrightarrow> (w' k = None) = (w k = None)) \<Longrightarrow> up w' ids = up w ids"
  by (simp add: up_def cong: filter_cong)

lemma down_from_cong:
  "(\<And>k. k \<in> set ids \<Longrightarrow> (w' k = None) = (w k = None)) \<Longrightarrow> down_from i w' ids = down_from i w ids"
  by (induction ids arbitrary: i) auto

lemma down_from_ge: "j \<in> down_from i w ids \<Longrightarrow> i \<le> j"
  by (induction ids arbitrary: i) (fastforce split: if_splits)+

lemma up_upd: "k \<notin> set ks \<Longrightarrow> up (w(k \<mapsto> x)) ks = up w ks"
  by (rule up_cong) auto

lemma down_from_upd: "k \<notin> set ks \<Longrightarrow> down_from i (w(k \<mapsto> x)) ks = down_from i w ks"
  by (rule down_from_cong) auto

lemma down_from_range: "down_from i w ids \<subseteq> {i ..< i + length ids}"
proof (induction ids arbitrary: i)
  case (Cons k ks)
  from Cons.IH [of "Suc i"] show ?case by (auto split: if_splits)
qed simp

lemma unavailables_step:
  assumes "un \<inter> {i ..< i + length (k # ks)} = down_from i w (k # ks)"
  shows "(i \<in> un) = (w k = None)" "un \<inter> {Suc i ..< Suc i + length ks} = down_from (Suc i) w ks"
proof -
  let ?R = "{Suc i ..< Suc i + length ks}"
  have "{i ..< i + length (k # ks)} = insert i ?R" by auto
  with assms have eq: "un \<inter> insert i ?R = down_from i w (k # ks)" by simp
  have D: "i \<notin> down_from (Suc i) w ks" "i \<notin> ?R" "down_from (Suc i) w ks \<subseteq> ?R"
    using down_from_range [of "Suc i" w ks] by auto
  have split: "down_from i w (k # ks) = (if w k = None then {i} else {}) \<union> down_from (Suc i) w ks"
    by simp
  have "(i \<in> un) = (i \<in> down_from i w (k # ks))" unfolding eq [symmetric] by simp
  also have "\<dots> = (w k = None)" unfolding split using D(1) by simp
  finally show "(i \<in> un) = (w k = None)" .
  have "un \<inter> ?R = (un \<inter> insert i ?R) - {i}" using D by blast
  also have "\<dots> = down_from (Suc i) w ks" unfolding eq split using D(1) by (simp add: insert_Diff_if)
  finally show "un \<inter> ?R = down_from (Suc i) w ks" .
qed

lemma update_up_Nil [simp]: "update_up w [] g = w"
  by (simp add: update_up_def)

lemma update_up_Cons_None:
  "w k = None \<Longrightarrow> update_up w (k # ks) g = update_up w ks g"
  by (auto simp: update_up_def fun_eq_iff)

lemma update_up_Cons_Some:
  "k \<notin> set ks \<Longrightarrow> w k = Some s \<Longrightarrow> update_up (w(k \<mapsto> g k)) ks g = update_up w (k # ks) g"
  by (auto simp: update_up_def fun_eq_iff)

lemma update_up_None [simp]: "(update_up w ids g k = None) = (w k = None)"
  by (simp add: update_up_def)

lemma send_proposals_cluster:
  fixes w :: "'c::{linorder, zero} \<rightharpoonup> ('v, 'c) server" and ph :: "('v, 'c, 'e) phase"
  assumes "distinct ids"
    and "\<And>k s. k \<in> set ids \<Longrightarrow> w k = Some s \<Longrightarrow> propose s q p = Inr (r k, g k)"
  shows "send_proposals i (map server_peer ids) q p ph w =
    (Inr (ph\<lparr>ph_reached := ph_reached ph + int (length (up w ids)),
            ph_unavailables := ph_unavailables ph \<union> down_from i w ids,
            ph_responses := ph_responses ph @ map r (up w ids)\<rparr>),
     update_up w ids g)"
  using assms
proof (induction ids arbitrary: i ph w)
  case (Cons k ks)
  show ?case
  proof (cases "w k")
    case None
    with Cons.prems show ?thesis
      by (simp add: phase_unavailable_def update_up_Cons_None Cons.IH)
  next
    case (Some s)
    have IH: "send_proposals (Suc i) (map server_peer ks) q p ph' (w(k \<mapsto> g k)) =
      (Inr (ph'\<lparr>ph_reached := ph_reached ph' + int (length (up w ks)),
            ph_unavailables := ph_unavailables ph' \<union> down_from (Suc i) w ks,
            ph_responses := ph_responses ph' @ map r (up w ks)\<rparr>),
       update_up w (k # ks) g)" for ph' :: "('v, 'c, 'e) phase"
      using Cons.prems Some by (subst Cons.IH) (auto simp: up_upd down_from_upd update_up_Cons_Some split: if_splits)
    from Some Cons.prems(2) [of k s] show ?thesis by (simp add: IH)
  qed
qed simp

lemma send_acceptations_cluster:
  fixes w :: "'c::{linorder, zero} \<rightharpoonup> ('v, 'c) server" and ph :: "('v, 'c, 'e) phase"
  assumes "distinct ids"
    and "\<And>k s. k \<in> set ids \<Longrightarrow> w k = Some s \<Longrightarrow> accept s q p v = Inr (p, g k)"
    and "ph_unavailables ph \<inter> {i ..< i + length ids} = down_from i w ids"
  shows "send_acceptations i (map server_peer ids) q p v ph w =
    (Inr (ph\<lparr>ph_reached := ph_reached ph + int (length (up w ids))\<rparr>, None), update_up w ids g)"
  using assms
proof (induction ids arbitrary: i ph w)
  case (Cons k ks)
  have un: "(i \<in> ph_unavailables ph) = (w k = None)"
    "ph_unavailables ph \<inter> {Suc i ..< Suc i + length ks} = down_from (Suc i) w ks"
    using unavailables_step [OF Cons.prems(3)] by auto
  show ?case
  proof (cases "w k")
    case None
    with Cons.prems un show ?thesis
      by (simp add: update_up_Cons_None Cons.IH)
  next
    case (Some s)
    have IH: "send_acceptations (Suc i) (map server_peer ks) q p v
        (ph\<lparr>ph_reached := n\<rparr>) (w(k \<mapsto> g k)) =
      (Inr (ph\<lparr>ph_reached := n + int (length (up w ks))\<rparr>, None), update_up w (k # ks) g)" for n
      using Cons.prems Some un
      by (subst Cons.IH) (auto simp: up_upd down_from_upd update_up_Cons_Some split: if_splits)
    from Some Cons.prems(2) [of k s] un show ?thesis by (simp add: IH)
  qed
qed simp

lemma send_confirmations_cluster:
  fixes w :: "'c::{linorder, zero} \<rightharpoonup> ('v, 'c) server" and ph :: "('v, 'c, 'e) phase"
  assumes "distinct ids"
    and "\<And>k s. k \<in> set ids \<Longrightarrow> w k = Some s \<Longrightarrow> confirm s q p = Inr (g k)"
    and "ph_unavailables ph \<inter> {i ..< i + length ids} = down_from i w ids"
  shows "send_confirmations i (map server_peer ids) q p ph w =
    (Inr (ph\<lparr>ph_reached := ph_reached ph + int (length (up w ids))\<rparr>), update_up w ids g)"
  using assms
proof (induction ids arbitrary: i ph w)
  case (Cons k ks)
  have un: "(i \<in> ph_unavailables ph) = (w k = None)"
    "ph_unavailables ph \<inter> {Suc i ..< Suc i + length ks} = down_from (Suc i) w ks"
    using unavailables_step [OF Cons.prems(3)] by auto
  show ?case
  proof (cases "w k")
    case None
    with Cons.prems un show ?thesis
      by (simp add: update_up_Cons_None Cons.IH)
  next
    case (Some s)
    have IH: "send_confirmations (Suc i) (map server_peer ks) q p
        (ph\<lparr>ph_reached := n\<rparr>) (w(k \<mapsto> g k)) =
      (Inr (ph\<lparr>ph_reached := n + int (length (up w ks))\<rparr>), update_up w (k # ks) g)" for n
      using Cons.prems Some un
      by (subst Cons.IH) (auto simp: up_upd down_from_upd update_up_Cons_Some split: if_splits)
    from Some Cons.prems(2) [of k s] un show ?thesis by (simp add: IH)
  qed
qed simp

section \<open>Electing a value on a ready server\<close>

definition server_ready :: "'c set \<Rightarrow> 'c proposal \<Rightarrow> ('v, 'c::linorder) server \<Rightarrow> bool" where
  "server_ready q p s \<longleftrightarrow>
     server_inv s \<and> \<not> srv_partial s \<and> Version 0 1 0 \<le> srv_version s \<and> current_quorum s = q
     \<and> (case srv_state s of
          None \<Rightarrow> True
        | Some st \<Rightarrow> vs_version st = prop_version p - 1
            \<and> (case vs_accepted st of None \<Rightarrow> False | Some a \<Rightarrow> acc_confirmed a))"

definition committed :: "('v, 'c) server \<Rightarrow> ('v, 'c) server" where
  "committed s = (case srv_accepted s of None \<Rightarrow> s | Some a \<Rightarrow> commit_accepted s a)"

definition with_state :: "('v, 'c) server \<Rightarrow> 'c proposal \<Rightarrow> ('v, 'c) accepted option \<Rightarrow> ('v, 'c) server" where
  "with_state s p a = (committed s)\<lparr>srv_state := Some \<lparr>vs_proposal = p, vs_accepted = a\<rparr>\<rparr>"

definition elect :: "('v, 'c) server \<Rightarrow> 'c proposal \<Rightarrow> ('v, 'c) pvalue \<Rightarrow> ('v, 'c) server" where
  "elect s p v = with_state s p (Some \<lparr>acc_proposal = p, acc_value = v, acc_confirmed = True\<rparr>)"

lemma ready_committed:
  assumes "server_ready q p s"
  shows "srv_quorum (committed s) = q" "\<not> srv_partial (committed s)"
    "srv_version (committed s) = srv_version s"
  using assms
  by (auto simp: server_ready_def committed_def commit_accepted_def srv_accepted_def current_quorum_def
      split: option.splits pvalue.splits)

lemma ready_propose:
  assumes "server_ready q p s"
  shows "propose s q p = Inr (resp_of None None False, with_state s p None)"
proof (cases "srv_state s")
  case None
  with assms show ?thesis
    by (auto simp: server_ready_def propose_def propose_advance_def check_confirmed_def check_quorum_fresh
        srv_accepted_def current_quorum_def propose_register_def with_state_def committed_def)
next
  case (Some st)
  with assms obtain a where a: "vs_accepted st = Some a" "acc_confirmed a"
      "vs_version st = prop_version p - 1" "acc_proposal a \<le> vs_proposal st"
      "current_quorum s = q" "\<not> srv_partial s" "Version 0 1 0 \<le> srv_version s"
    by (auto simp: server_ready_def server_inv_def split: option.splits)
  have ver: "prop_version (acc_proposal a) < prop_version p"
    using a(3,4) prop_less_version [of "acc_proposal a" "vs_proposal st"]
    by (fastforce simp: vs_version_def le_less)
  have "check_quorum s q (Some p) = Inr ()"
    using a ver Some by (auto simp: check_quorum_def current_quorum_def srv_accepted_def split: pvalue.splits)
  then show ?thesis
    using a ver Some
    by (auto simp: propose_def propose_advance_def check_confirmed_def srv_accepted_def
        propose_register_def with_state_def committed_def Let_def)
qed

lemma ready_accept:
  assumes "server_ready q p s"
  shows "accept (with_state s p None) q p v =
    Inr (p, with_state s p (Some \<lparr>acc_proposal = p, acc_value = v, acc_confirmed = False\<rparr>))"
  using ready_committed [OF assms]
  by (simp add: accept_def with_state_def check_quorum_def srv_accepted_def accept_value_def)

lemma ready_confirm:
  assumes "server_ready q p s"
  shows "confirm (with_state s p (Some \<lparr>acc_proposal = p, acc_value = v, acc_confirmed = False\<rparr>)) q p
    = Inr (elect s p v)"
  using ready_committed [OF assms]
  by (simp add: confirm_def elect_def with_state_def check_quorum_def srv_accepted_def vs_version_def
      split: pvalue.splits)

definition pvalue_quorum :: "('v, 'c) pvalue \<Rightarrow> 'c set \<Rightarrow> 'c set" where
  "pvalue_quorum v q = (case v of PVal _ \<Rightarrow> q | PQuorum q' \<Rightarrow> q')"

lemma elect_ready:
  assumes "server_ready q p s" and "prop_version p' = prop_version p + 1"
  shows "server_ready (pvalue_quorum v q) p' (elect s p v)"
  using ready_committed [OF assms(1)] assms
  by (auto simp: server_ready_def elect_def with_state_def server_inv_def current_quorum_def
      srv_accepted_def vs_version_def pvalue_quorum_def split: pvalue.splits)

lemma elect_get:
  assumes "server_ready q p s"
  shows "server_get (elect s p (PVal x)) q =
    Inr (Some \<lparr>acc_proposal = p, acc_value = PVal x, acc_confirmed = True\<rparr>)"
  using ready_committed [OF assms]
  by (simp add: server_get_def elect_def with_state_def check_quorum_def srv_accepted_def current_value_def)

section \<open>One round on a ready cluster\<close>

lemma update_up_update_up [simp]: "update_up (update_up w ids g) ids h = update_up w ids h"
  by (auto simp: update_up_def fun_eq_iff)

lemma up_update_up [simp]: "up (update_up w ids' g) ids = up w ids"
  by (rule up_cong) simp

lemma down_from_update_up [simp]: "down_from i (update_up w ids' g) ids = down_from i w ids"
  by (rule down_from_cong) simp

lemma update_up_Some:
  "update_up w ids g k = Some s \<Longrightarrow> k \<in> set ids \<Longrightarrow> s = g k \<and> (\<exists>s0. w k = Some s0)"
  by (auto simp: update_up_def split: if_splits)

lemma headcount_up:
  "card q < 2 * length ks \<Longrightarrow> check_headcount q (int (length ks)) e False = Inr ()"
  by (auto simp: check_headcount_ok)

lemma max_element_constant:
  assumes "cmp x x = Inr False"
  shows "max_element cmp (replicate n x) = Inr (if n = 0 then None else Some x)"
proof -
  have "max_element_from cmp x (replicate k x) = Inr x" for k
    using assms by (induction k) auto
  then show ?thesis by (cases n) (auto simp: max_element_def)
qed

lemma decide_silent:
  assumes "card q < 2 * n" and "ph_responses ph = replicate n (resp_of None None False)"
    and "ph_reached ph = int n"
  shows "decide_proposals q p ph rep = Inr (Proceed, rep)"
proof -
  have "find resp_is_confirmed (ph_responses ph) = None"
    by (auto simp: assms(2) find_None_iff resp_is_confirmed_def resp_of_def)
  moreover have "check_headcount q (ph_reached ph) (ph_weak_error ph) False = Inr ()"
    using assms(1,3) by (auto simp: check_headcount_ok)
  ultimately show ?thesis
    by (simp add: decide_proposals_def decide_replace_def decide_retry_def assms(2)
        max_element_constant resp_valued_def resp_proposed_def resp_of_def)
qed

lemma accept_and_confirm_cluster:
  fixes w :: "'c::{linorder, zero} \<rightharpoonup> ('v, 'c) server"
  assumes peers: "cl_peers c = map server_peer ids" "distinct ids"
    and maj: "card q < 2 * length (up w ids)"
    and acc: "\<And>k s. k \<in> set ids \<Longrightarrow> w k = Some s \<Longrightarrow>
        accept s q p (case lp_replace lp of Some v \<Rightarrow> v | None \<Rightarrow> val) = Inr (p, g k)"
    and conf: "\<And>k s. k \<in> set ids \<Longrightarrow> w k = Some s \<Longrightarrow> confirm (g k) q p = Inr (h k)"
  shows "accept_and_confirm c q p val (down_from 0 w ids) lp w =
    (Inr (Finished (case lp_replace lp of Some v \<Rightarrow> choice_other p v | None \<Rightarrow> choice_own p)),
     lp, update_up w ids h)"
proof -
  have un: "down_from 0 w ids \<inter> {0 ..< 0 + length ids} = down_from 0 w ids"
    using down_from_range [of 0 w ids] by auto
  have 1: "send_acceptations 0 (cl_peers c) q p (case lp_replace lp of Some v \<Rightarrow> v | None \<Rightarrow> val)
      (phase_start (down_from 0 w ids)) w =
    (Inr (phase_start (down_from 0 w ids)\<lparr>ph_reached := int (length (up w ids))\<rparr>, None), update_up w ids g)"
    unfolding peers(1)
    by (subst send_acceptations_cluster [OF peers(2) acc]) (simp_all add: phase_start_def un [simplified])
  have 2: "send_confirmations 0 (cl_peers c) q p (phase_start (down_from 0 w ids)) (update_up w ids g) =
    (Inr (phase_start (down_from 0 w ids)\<lparr>ph_reached := int (length (up w ids))\<rparr>), update_up w ids h)"
    unfolding peers(1)
    by (subst send_confirmations_cluster [OF peers(2), where g = h])
      (auto simp: phase_start_def un [simplified] dest: update_up_Some conf)
  show ?thesis
    unfolding accept_and_confirm_def 1
    by (simp add: phase_start_def headcount_up [OF maj] 2 [unfolded phase_start_def])
qed

lemma client_quorum_cluster:
  "cl_peers c = map server_peer ids \<Longrightarrow> client_quorum c = set ids"
  by (simp add: client_quorum_def comp_def)

lemma choose_round_ready:
  fixes w :: "'c::{linorder, zero} \<rightharpoonup> ('v, 'c) server"
    and c :: "('c \<rightharpoonup> ('v, 'c) server, 'v, 'c, 'e) client"
  assumes peers: "cl_peers c = map server_peer ids" "distinct ids"
    and maj: "card (set ids) < 2 * length (up w ids)"
    and ready: "\<And>k s. k \<in> set ids \<Longrightarrow> w k = Some s \<Longrightarrow> server_ready (set ids) (next_proposal c lp) s"
    and rep: "lp_replace lp = None"
  shows "choose_round c v lp w =
    (Inr (Finished (choice_own (next_proposal c lp))), lp\<lparr>lp_round := lp_round lp + 1\<rparr>,
     update_up w ids (\<lambda>k. elect (the (w k)) (next_proposal c lp) v))"
proof -
  let ?p = "next_proposal c lp" and ?q = "set ids" and ?lp = "lp\<lparr>lp_round := lp_round lp + 1\<rparr>"
  let ?w1 = "update_up w ids (\<lambda>k. with_state (the (w k)) ?p None)"
  let ?ph = "\<lparr>ph_reached = int (length (up w ids)), ph_unavailables = down_from 0 w ids, ph_weak_error = None,
       ph_responses = map (\<lambda>k. resp_of None None False) (up w ids)\<rparr> :: ('v, 'c, 'e) phase"
  have q: "client_quorum c = ?q" using peers(1) by (rule client_quorum_cluster)
  have 1: "send_proposals 0 (cl_peers c) ?q ?p (phase_start {}) w = (Inr ?ph, ?w1)"
    unfolding peers(1)
    by (subst send_proposals_cluster [OF peers(2), where r = "\<lambda>k. resp_of None None False"
          and g = "\<lambda>k. with_state (the (w k)) ?p None"])
      (auto simp: phase_start_def dest: ready_propose [OF ready])
  have 2: "decide_proposals ?q ?p ?ph None = Inr (Proceed, None)"
    using maj by (intro decide_silent) (auto simp: map_replicate_const)
  have 3: "accept_and_confirm c ?q ?p v (down_from 0 ?w1 ids) ?lp ?w1 =
    (Inr (Finished (case lp_replace ?lp of Some v \<Rightarrow> choice_other ?p v | None \<Rightarrow> choice_own ?p)),
     ?lp, update_up ?w1 ids (\<lambda>k. elect (the (w k)) ?p v))"
    using maj rep
    by (intro accept_and_confirm_cluster [OF peers, where
          g = "\<lambda>k. with_state (the (w k)) ?p (Some \<lparr>acc_proposal = ?p, acc_value = v, acc_confirmed = False\<rparr>)"])
      (auto dest!: update_up_Some intro!: ready_accept ready_confirm ready)
  have 4: "?lp\<lparr>lp_replace := None\<rparr> = ?lp" using rep by (cases lp) simp
  show ?thesis
    unfolding choose_round_def Let_def q using rep 1 2 3
    by (simp add: next_proposal_def 4)
qed

lemma choose_ready:
  fixes w :: "'c::{linorder, zero} \<rightharpoonup> ('v, 'c) server"
  assumes "cl_peers c = map server_peer ids" "distinct ids"
    and "card (set ids) < 2 * length (up w ids)"
    and p: "p = Proposal ver (cl_round c + 1) (cl_id c)"
    and "\<And>k s. k \<in> set ids \<Longrightarrow> w k = Some s \<Longrightarrow> server_ready (set ids) p s"
  shows "client_choose (Suc fuel) c ver v w =
    Some (Inr (choice_own p), c\<lparr>cl_round := cl_round c + 1\<rparr>, update_up w ids (\<lambda>k. elect (the (w k)) p v))"
  using choose_round_ready [of c ids w "loop_start c ver" v] assms
  by (simp add: client_choose_def loop_start_def next_proposal_def)

section \<open>Reading\<close>

lemma get_all_cluster:
  fixes w :: "'c::{linorder, zero} \<rightharpoonup> ('v, 'c) server"
  assumes "\<And>k s. k \<in> set ids \<Longrightarrow> w k = Some s \<Longrightarrow> server_get s q = Inr (a k)"
  shows "get_all (map server_peer ids) q g w = (Inr (foldl gather_accepted g (map a (up w ids))), w)"
  using assms
proof (induction ids arbitrary: g)
  case (Cons k ks)
  then show ?case by (cases "w k") (simp_all add: server_peer_get(2) [where a = "a k"])
qed simp

lemma gather_same:
  assumes "ga_res g = None \<or> ga_res g = Some a"
  shows "foldl gather_accepted g (replicate n (Some a)) =
    g\<lparr>ga_reached := ga_reached g + int n, ga_res := (if n = 0 then ga_res g else Some a)\<rparr>"
  using assms by (induction n arbitrary: g) (auto simp: gather_accepted_def)

lemma get_elected:
  fixes w :: "'c::{linorder, zero} \<rightharpoonup> ('v, 'c) server"
    and c :: "('c \<rightharpoonup> ('v, 'c) server, 'v, 'c, 'e) client"
  assumes "cl_peers c = map server_peer ids"
    and "card (set ids) < 2 * length (up w ids)"
    and "\<And>k s. k \<in> set ids \<Longrightarrow> w k = Some s \<Longrightarrow>
       server_get s (set ids) = Inr (Some \<lparr>acc_proposal = p, acc_value = PVal x, acc_confirmed = True\<rparr>)"
  shows "client_state c w = (Inr \<lparr>cs_value = Some x, cs_quorum = set ids, cs_proposal = Some p\<rparr>, w)"
proof -
  let ?a = "\<lparr>acc_proposal = p, acc_value = PVal x, acc_confirmed = True\<rparr>"
  have "length (up w ids) \<noteq> 0" using assms(2) by auto
  moreover have "check_headcount (set ids) (int (length (up w ids))) (None :: ('c, 'e) exn option) True = Inr ()"
    using assms(2) by (auto simp: check_headcount_ok)
  ultimately show ?thesis
    unfolding client_state_def Let_def client_quorum_cluster [OF assms(1)] assms(1)
    by (subst get_all_cluster [where a = "\<lambda>k. Some ?a"])
      (auto simp: assms(3) map_replicate_const gather_same state_result_def)
qed

section \<open>A cluster left behind by proposers that stopped half way\<close>

definition server_open :: "'c set \<Rightarrow> int \<Rightarrow> ('v, 'c::linorder) server \<Rightarrow> bool" where
  "server_open q ver s \<longleftrightarrow>
     server_inv s \<and> \<not> srv_partial s \<and> srv_quorum s = q
     \<and> (case srv_state s of
          None \<Rightarrow> True
        | Some st \<Rightarrow> vs_version st = ver
            \<and> (case vs_accepted st of None \<Rightarrow> True | Some a \<Rightarrow> \<not> acc_confirmed a))"

definition promise_below :: "('v, 'c::linorder) server \<Rightarrow> 'c proposal \<Rightarrow> bool" where
  "promise_below s p \<longleftrightarrow> (case srv_state s of None \<Rightarrow> True | Some st \<Rightarrow> vs_proposal st < p)"

definition elected :: "'c proposal \<Rightarrow> ('v, 'c) pvalue \<Rightarrow> ('v, 'c) server \<Rightarrow> bool" where
  "elected p v s \<longleftrightarrow>
     srv_accepted s = Some \<lparr>acc_proposal = p, acc_value = v, acc_confirmed = True\<rparr>"

lemma open_check_quorum: "server_open q ver s \<Longrightarrow> check_quorum s q p = Inr ()"
  by (auto simp: server_open_def check_quorum_def srv_accepted_def split: option.splits pvalue.splits)

lemma open_propose:
  assumes "server_open q ver s" and "prop_version p = ver"
  shows "propose s q p = Inr (propose_register s p)"
proof -
  have "propose_advance s q p = Inr s"
    using assms open_check_quorum [OF assms(1)]
    by (auto simp: propose_advance_def check_confirmed_def server_open_def Let_def split: option.splits)
  moreover have "\<not> prop_version p < prop_version (acc_proposal a)" if "srv_accepted s = Some a" for a
    using assms that prop_less_version [of "acc_proposal a" "vs_proposal (the (srv_state s))"]
    by (auto simp: server_open_def server_inv_def srv_accepted_def vs_version_def le_less split: option.splits)
  ultimately show ?thesis by (auto simp: propose_def split: option.splits)
qed

lemma open_register_open:
  assumes "server_open q ver s" and "prop_version p = ver" and "propose_register s p = (r, s')"
  shows "server_open q ver s'"
proof -
  have "server_inv s'" using assms(1,3) by (auto simp: server_open_def intro: propose_register_inv)
  then show ?thesis
  proof (cases "srv_state s")
    case None
    with assms \<open>server_inv s'\<close> show ?thesis
      by (clarsimp simp: propose_register_def server_open_def vs_version_def)
  next
    case (Some st)
    with assms \<open>server_inv s'\<close> show ?thesis
      by (cases "vs_accepted st"; cases "vs_proposal st < p")
        (clarsimp simp: propose_register_def server_open_def vs_version_def)+
  qed
qed

lemma open_register:
  assumes "server_open q ver s" and "prop_version p = ver" and "propose_register s p = (r, s')"
  shows "resp_wf r" "\<not> resp_confirmed r"
    "srv_promise s' = Some (case srv_promise s of None \<Rightarrow> p | Some b \<Rightarrow> max b p)"
    "resp_proposal r = Some b \<Longrightarrow> prop_version b = ver"
    "srv_promise s = Some b \<Longrightarrow> p \<le> b \<Longrightarrow> resp_proposal r = Some b"
    "promise_below s p \<Longrightarrow> resp_proposal r = Some b \<Longrightarrow> b < p"
  using assms propose_register_promise [OF assms(3)]
  by (auto simp: propose_register_def server_open_def resp_wf_def resp_of_def vs_version_def srv_promise_def
      promise_below_def split: option.splits if_splits)

lemma open_accept:
  assumes "server_open q ver s" and "srv_state s = Some st" and "vs_proposal st = p"
  shows "accept s q p v = Inr (p, s\<lparr>srv_state := Some (st\<lparr>vs_accepted :=
     Some \<lparr>acc_proposal = p, acc_value = v, acc_confirmed = False\<rparr>\<rparr>)\<rparr>)"
  using assms open_check_quorum [OF assms(1)]
  by (subst accept_promised [OF assms(2,3)])
    (auto simp: accept_value_def server_open_def split: option.splits)

lemma open_confirm:
  assumes "server_open q ver s" and "srv_state s = Some st" and "vs_proposal st = p"
  shows "\<exists>s'. confirm (s\<lparr>srv_state := Some (st\<lparr>vs_accepted :=
       Some \<lparr>acc_proposal = p, acc_value = v, acc_confirmed = False\<rparr>\<rparr>)\<rparr>) q p = Inr s'
     \<and> elected p v s'"
  using assms
  by (auto simp: confirm_def server_open_def check_quorum_def srv_accepted_def elected_def vs_version_def
      split: pvalue.splits)


lemma promise_below_iff:
  "promise_below s p \<longleftrightarrow> (case srv_promise s of None \<Rightarrow> True | Some b \<Rightarrow> b < p)"
  by (simp add: promise_below_def srv_promise_def split: option.splits)

text \<open>An iteration at a proposal above every promise elects a value on every reachable server.\<close>

lemma open_accept_and_confirm:
  fixes w :: "'c::{linorder, zero} \<rightharpoonup> ('v, 'c) server"
  assumes peers: "cl_peers c = map server_peer ids" "distinct ids"
    and maj: "card q < 2 * length (up w ids)"
    and op: "\<And>k s. k \<in> set ids \<Longrightarrow> w k = Some s \<Longrightarrow> server_open q ver s \<and> srv_promise s = Some p"
    and v: "v = (case lp_replace lp of Some v \<Rightarrow> v | None \<Rightarrow> val)"
  shows "\<exists>h. accept_and_confirm c q p val (down_from 0 w ids) lp w =
      (Inr (Finished (case lp_replace lp of Some v \<Rightarrow> choice_other p v | None \<Rightarrow> choice_own p)),
       lp, update_up w ids h)
    \<and> (\<forall>k \<in> set ids. w k \<noteq> None \<longrightarrow> elected p v (h k))"
proof -
  define g where "g = (\<lambda>k. let s = the (w k) in s\<lparr>srv_state := Some (the (srv_state s)\<lparr>vs_accepted :=
     Some \<lparr>acc_proposal = p, acc_value = v, acc_confirmed = False\<rparr>\<rparr>)\<rparr>)"
  have st: "\<exists>st. srv_state s = Some st \<and> vs_proposal st = p" if "k \<in> set ids" "w k = Some s" for k s
    using op [OF that] by (auto simp: srv_promise_def)
  have acc: "accept s q p v = Inr (p, g k)" if k: "k \<in> set ids" "w k = Some s" for k s
    using st [OF k] op [OF k] k(2) by (auto simp: open_accept Let_def g_def)
  have "\<exists>s'. confirm (g k) q p = Inr s' \<and> elected p v s'" if k: "k \<in> set ids" "w k = Some s" for k s
    using st [OF k] op [OF k] k(2) by (auto simp: Let_def g_def intro!: open_confirm)
  then obtain h where h: "\<And>k. k \<in> set ids \<Longrightarrow> w k \<noteq> None \<Longrightarrow> confirm (g k) q p = Inr (h k) \<and> elected p v (h k)"
    by (metis option.exhaust)
  show ?thesis
    using acc h unfolding v by (intro exI [of _ h] conjI accept_and_confirm_cluster [OF peers maj, where g = g]) auto
qed

lemma open_decide:
  fixes ph :: "('v, 'c::linorder, 'e) phase"
  assumes "card q < 2 * length (ph_responses ph)" and "ph_reached ph = int (length (ph_responses ph))"
    and wf: "\<And>r. r \<in> set (ph_responses ph) \<Longrightarrow> resp_wf r \<and> \<not> resp_confirmed r"
  obtains (proceed) rep' where "decide_proposals q p ph rep = Inr (Proceed, rep')"
      "\<And>r b. r \<in> set (ph_responses ph) \<Longrightarrow> resp_proposal r = Some b \<Longrightarrow> b < p"
  | (retry) m rnd rep' where "decide_proposals q p ph rep = Inr (Retry (prop_version m) rnd, rep')"
      "\<exists>r \<in> set (ph_responses ph). resp_proposal r = Some m" "prop_round m \<le> rnd" "p \<le> m"
      "\<And>r b. r \<in> set (ph_responses ph) \<Longrightarrow> resp_proposal r = Some b \<Longrightarrow> b \<le> m"
proof -
  let ?rs = "ph_responses ph"
  have "find resp_is_confirmed ?rs = None"
    using wf by (auto simp: find_None_iff resp_is_confirmed_def)
  moreover have "check_headcount q (ph_reached ph) (ph_weak_error ph) False = Inr ()"
    using assms(1,2) by (auto simp: check_headcount_ok)
  moreover obtain rep' where "decide_replace ?rs rep = (Inr rep' :: ('c, 'e) exn + _)"
    by (rule decide_replace_highest [of ?rs rep, where 'e = 'e]) (use wf in blast)+
  ultimately have dec: "decide_proposals q p ph rep = bind_res (decide_retry p ?rs) (\<lambda>retry.
      Inr (case retry of Some (ver, rnd) \<Rightarrow> Retry ver rnd | None \<Rightarrow> Proceed, rep'))"
    by (simp add: decide_proposals_def)
  show thesis
  proof (rule decide_retry_highest [of p ?rs, where 'e = 'e])
    assume "decide_retry p ?rs = (Inr None :: ('c, 'e) exn + _)"
      and "\<And>r b. r \<in> set ?rs \<Longrightarrow> resp_proposal r = Some b \<Longrightarrow> b < p"
    then show thesis using dec by (intro proceed) auto
  next
    fix m rnd
    assume "decide_retry p ?rs = (Inr (Some (prop_version m, rnd)) :: ('c, 'e) exn + _)"
      "\<exists>r \<in> set ?rs. resp_proposal r = Some m" "prop_round m \<le> rnd" "p \<le> m"
      "\<And>r b. r \<in> set ?rs \<Longrightarrow> resp_proposal r = Some b \<Longrightarrow> b \<le> m"
    then show thesis using dec by (intro retry [of m rnd rep']) auto
  qed
qed

lemma open_send_proposals:
  fixes w :: "'c::{linorder, zero} \<rightharpoonup> ('v, 'c) server"
  assumes "distinct ids"
    and "\<And>k s. k \<in> set ids \<Longrightarrow> w k = Some s \<Longrightarrow> server_open q ver s" and "prop_version p = ver"
  shows "send_proposals 0 (map server_peer ids) q p (phase_start {}) w =
    (Inr \<lparr>ph_reached = int (length (up w ids)), ph_unavailables = down_from 0 w ids, ph_weak_error = None,
       ph_responses = map (\<lambda>k. fst (propose_register (the (w k)) p)) (up w ids)\<rparr>,
     update_up w ids (\<lambda>k. snd (propose_register (the (w k)) p)))"
  using assms(1)
  by (subst send_proposals_cluster [where r = "\<lambda>k. fst (propose_register (the (w k)) p)"
        and g = "\<lambda>k. snd (propose_register (the (w k)) p)"])
    (auto simp: phase_start_def open_propose [OF assms(2,3)])

definition outcome :: "('v, 'c) choice \<Rightarrow> 'c proposal \<Rightarrow> ('v, 'c) pvalue \<Rightarrow> ('v, 'c) pvalue \<Rightarrow> bool" where
  \<comment> \<open>the client returned this choice and the value elected at \<open>p\<close> is \<open>v\<close>\<close>
  "outcome ch p val v \<longleftrightarrow> ch = choice_own p \<and> v = val \<or> ch = choice_other p v"

text \<open>What a server promises after an answer, from the answer alone.\<close>

lemma register_low:
  assumes "server_open q ver s" "prop_version p = ver" "propose_register s p = (r, s')"
    and "\<And>b. resp_proposal r = Some b \<Longrightarrow> b < p"
  shows "srv_promise s' = Some p"
proof (cases "srv_promise s")
  case (Some b)
  then have "b < p" using open_register(5) [OF assms(1-3) Some] assms(4) by (metis not_le order_less_irrefl)
  with Some open_register(3) [OF assms(1-3)] show ?thesis by (simp add: max_absorb2)
qed (use open_register(3) [OF assms(1-3)] in simp)

lemma register_high:
  assumes "server_open q ver s" "prop_version p = ver" "propose_register s p = (r, s')"
    and "\<And>b. resp_proposal r = Some b \<Longrightarrow> b \<le> m" "p \<le> m" "srv_promise s' = Some b"
  shows "b \<le> m"
proof (cases "srv_promise s")
  case (Some b')
  then show ?thesis
    using open_register(3) [OF assms(1-3)] open_register(5) [OF assms(1-3) Some] assms(4-6)
    by (cases "p \<le> b'") (auto simp: max_def split: if_splits)
qed (use open_register(3) [OF assms(1-3)] assms in simp)

lemma choose_round_open:
  fixes w :: "'c::{linorder, zero} \<rightharpoonup> ('v, 'c) server"
    and c :: "('c \<rightharpoonup> ('v, 'c) server, 'v, 'c, 'e) client"
  assumes peers: "cl_peers c = map server_peer ids" "distinct ids"
    and maj: "card (set ids) < 2 * length (up w ids)"
    and op: "\<And>k s. k \<in> set ids \<Longrightarrow> w k = Some s \<Longrightarrow> server_open (set ids) (lp_version lp) s"
  obtains (finished) ch lp' v h where "choose_round c val lp w = (Inr (Finished ch), lp', update_up w ids h)"
      "outcome ch (next_proposal c lp) val v"
      "\<And>k. k \<in> set ids \<Longrightarrow> w k \<noteq> None \<Longrightarrow> elected (next_proposal c lp) v (h k)"
  | (again) lp' g where "choose_round c val lp w = (Inr Continue, lp', update_up w ids g)"
      "\<And>k. k \<in> set ids \<Longrightarrow> w k \<noteq> None \<Longrightarrow>
         server_open (set ids) (lp_version lp') (g k) \<and> promise_below (g k) (next_proposal c lp')"
      "\<exists>k s. k \<in> set ids \<and> w k = Some s \<and> \<not> promise_below s (next_proposal c lp)"
proof -
  define p where "p = next_proposal c lp"
  define r where "r = (\<lambda>k. fst (propose_register (the (w k)) p))"
  define g where "g = (\<lambda>k. snd (propose_register (the (w k)) p))"
  let ?q = "set ids" and ?lp = "lp\<lparr>lp_round := lp_round lp + 1\<rparr>" and ?w1 = "update_up w ids g"
  let ?ph = "\<lparr>ph_reached = int (length (up w ids)), ph_unavailables = down_from 0 w ids, ph_weak_error = None,
       ph_responses = map r (up w ids)\<rparr> :: ('v, 'c, 'e) phase"
  have p1: "Proposal (lp_version ?lp) (lp_round ?lp) (cl_id c) = p" by (simp add: p_def next_proposal_def)
  have pv: "prop_version p = lp_version lp" by (simp add: p_def next_proposal_def)
  have rg: "propose_register s p = (r k, g k)" if "k \<in> set ids" "w k = Some s" for k s
    using that by (simp add: r_def g_def)
  have 1: "send_proposals 0 (cl_peers c) ?q p (phase_start {}) w = (Inr ?ph, ?w1)"
    unfolding peers(1) r_def g_def by (rule open_send_proposals [OF peers(2) op pv])
  note step = choose_round_def [of c val lp w, unfolded Let_def client_quorum_cluster [OF peers(1)] p1 1]
  have mem: "k \<in> set (up w ids) \<longleftrightarrow> k \<in> set ids \<and> w k \<noteq> None" for k by (auto simp: up_def)
  show thesis
  proof (rule open_decide [of ?q ?ph p "lp_replace ?lp"])
    show "card ?q < 2 * length (ph_responses ?ph)" "ph_reached ?ph = int (length (ph_responses ?ph))"
      using maj by simp_all
    show "resp_wf x \<and> \<not> resp_confirmed x" if "x \<in> set (ph_responses ?ph)" for x
      using that open_register(1,2) [OF op pv rg] by (auto simp: mem)
  next
    fix rep'
    assume dec: "decide_proposals ?q p ?ph (lp_replace ?lp) = Inr (Proceed, rep')"
      and low: "\<And>x b. x \<in> set (ph_responses ?ph) \<Longrightarrow> resp_proposal x = Some b \<Longrightarrow> b < p"
    let ?v = "case rep' of Some v \<Rightarrow> v | None \<Rightarrow> val"
    have op1: "server_open ?q (lp_version lp) s' \<and> srv_promise s' = Some p"
      if k: "k \<in> set ids" "?w1 k = Some s'" for k s'
      using update_up_Some [OF k(2,1)] k low [of "r k"]
      by (auto simp: mem intro: register_low [OF op pv rg] open_register_open [OF op pv rg])
    have "\<exists>h. accept_and_confirm c ?q p val (down_from 0 ?w1 ids) (?lp\<lparr>lp_replace := rep'\<rparr>) ?w1 =
      (Inr (Finished (case lp_replace (?lp\<lparr>lp_replace := rep'\<rparr>) of
         Some v \<Rightarrow> choice_other p v | None \<Rightarrow> choice_own p)),
       ?lp\<lparr>lp_replace := rep'\<rparr>, update_up ?w1 ids h)
      \<and> (\<forall>k \<in> set ids. ?w1 k \<noteq> None \<longrightarrow> elected p ?v (h k))"
      using maj by (intro open_accept_and_confirm [OF peers _ op1]) auto
    then obtain h where "accept_and_confirm c ?q p val (down_from 0 w ids) (?lp\<lparr>lp_replace := rep'\<rparr>) ?w1 =
      (Inr (Finished (case rep' of Some v \<Rightarrow> choice_other p v | None \<Rightarrow> choice_own p)),
       ?lp\<lparr>lp_replace := rep'\<rparr>, update_up w ids h)"
      and "\<forall>k \<in> set ids. w k \<noteq> None \<longrightarrow> elected p ?v (h k)"
      by auto
    with step dec show thesis
      by (intro finished [of _ _ h ?v]) (auto simp: outcome_def p_def split: option.splits)
  next
    fix m rnd rep'
    assume dec: "decide_proposals ?q p ?ph (lp_replace ?lp) = Inr (Retry (prop_version m) rnd, rep')"
      and m: "\<exists>x \<in> set (ph_responses ?ph). resp_proposal x = Some m" "prop_round m \<le> rnd" "p \<le> m"
      and high: "\<And>x b. x \<in> set (ph_responses ?ph) \<Longrightarrow> resp_proposal x = Some b \<Longrightarrow> b \<le> m"
    let ?lp' = "?lp\<lparr>lp_version := prop_version m, lp_round := rnd, lp_replace := rep'\<rparr>"
    from m(1) obtain k0 s0 where k0: "k0 \<in> set ids" "w k0 = Some s0" "resp_proposal (r k0) = Some m"
      by (auto simp: mem)
    note r0 = open_register [OF op [OF k0(1,2)] pv rg [OF k0(1,2)]]
    have ver: "prop_version m = lp_version lp" using r0(4) k0(3) .
    have below: "\<not> promise_below s0 p" using r0(6) [OF _ k0(3)] m(3) by auto
    have le: "b \<le> m" if k: "k \<in> set ids" "w k = Some s" "srv_promise (g k) = Some b" for k s b
      using register_high [OF op [OF k(1,2)] pv rg [OF k(1,2)] _ m(3) k(3)] high [of "r k"] k
      by (auto simp: mem)
    have "b < next_proposal c ?lp'" if "b \<le> m" for b
      using next_round_higher [OF that, of "rnd + 1" "cl_id c"] m(2) by (simp add: next_proposal_def)
    then have "server_open ?q (lp_version ?lp') (g k) \<and> promise_below (g k) (next_proposal c ?lp')"
      if "k \<in> set ids" "w k = Some s" for k s
      using that le ver open_register_open [OF op pv rg]
      by (auto simp: promise_below_iff split: option.splits)
    then show thesis
      using step dec k0(1,2) below by (intro again [of ?lp' g]) (auto simp: p_def)
  qed
qed

text \<open>
  Two rounds are enough: the first may lose to a promise that is already there, and tells the
  client how high to bid; nothing is in the way of the second.
\<close>

text \<open>
  C3. Termination and success without contention: when a majority of the servers is reachable, and
  each reachable server has the quorum of the client, is not partial and holds nothing confirmed at the
  version being chosen, nor anything of another version (it is fresh, or earlier proposers at this
  version stopped at any point before confirming, leaving promises of any height and values accepted on
  some servers only), \<open>choose\<close> returns within two rounds, and every reachable server
  ends up with the same confirmed value, the one the returned choice stands for.
\<close>

theorem choose_open:
  fixes w :: "'c::{linorder, zero} \<rightharpoonup> ('v, 'c) server"
    and c :: "('c \<rightharpoonup> ('v, 'c) server, 'v, 'c, 'e) client"
  assumes peers: "cl_peers c = map server_peer ids" "distinct ids"
    and maj: "card (set ids) < 2 * length (up w ids)"
    and op: "\<And>k s. k \<in> set ids \<Longrightarrow> w k = Some s \<Longrightarrow> server_open (set ids) ver s"
  shows "\<exists>ch c' p v h. client_choose (Suc (Suc fuel)) c ver val w = Some (Inr ch, c', update_up w ids h)
    \<and> outcome ch p val v \<and> (\<forall>k \<in> set ids. w k \<noteq> None \<longrightarrow> elected p v (h k))"
proof -
  let ?lp = "loop_start c ver"
  have op0: "server_open (set ids) (lp_version ?lp) s" if "k \<in> set ids" "w k = Some s" for k s
    using op [OF that] by (simp add: loop_start_def)
  show ?thesis
  proof (rule choose_round_open [OF peers maj op0, where val = val])
    fix ch lp' v h
    assume "choose_round c val ?lp w = (Inr (Finished ch), lp', update_up w ids h)"
      "outcome ch (next_proposal c ?lp) val v"
      "\<And>k. k \<in> set ids \<Longrightarrow> w k \<noteq> None \<Longrightarrow> elected (next_proposal c ?lp) v (h k)"
    then show ?thesis by (fastforce simp: client_choose_def)
  next
    fix lp' g
    assume 1: "choose_round c val ?lp w = (Inr Continue, lp', update_up w ids g)"
      and g: "\<And>k. k \<in> set ids \<Longrightarrow> w k \<noteq> None \<Longrightarrow>
         server_open (set ids) (lp_version lp') (g k) \<and> promise_below (g k) (next_proposal c lp')"
    have up1: "s = g k" "w k \<noteq> None" if "k \<in> set ids" "update_up w ids g k = Some s" for k s
      using update_up_Some [OF that(2,1)] by auto
    have maj1: "card (set ids) < 2 * length (up (update_up w ids g) ids)" using maj by simp
    have op1: "server_open (set ids) (lp_version lp') s"
      if "k \<in> set ids" "update_up w ids g k = Some s" for k s
      using g up1 [OF that] that(1) by blast
    show ?thesis
    proof (rule choose_round_open [OF peers maj1 op1, where val = val])
      fix ch lp'' v h
      assume "choose_round c val lp' (update_up w ids g) = (Inr (Finished ch), lp'', update_up (update_up w ids g) ids h)"
        "outcome ch (next_proposal c lp') val v"
        "\<And>k. k \<in> set ids \<Longrightarrow> update_up w ids g k \<noteq> None \<Longrightarrow> elected (next_proposal c lp') v (h k)"
      with 1 show ?thesis by (fastforce simp: client_choose_def)
    next
      assume "\<exists>k s. k \<in> set ids \<and> update_up w ids g k = Some s \<and> \<not> promise_below s (next_proposal c lp')"
      with g up1 show ?thesis by blast
    qed
  qed
qed

section \<open>Reading back what was chosen\<close>

text \<open>
  C8. Write then read: on a cluster whose reachable servers form a majority and are ready for version
  \<open>ver\<close>, a client elects its value in one round; any client of the same peers then reads that
  value back; and the cluster is ready for the next version, so that a sequence of writes goes through.
\<close>

theorem choose_get:
  fixes w :: "'c::{linorder, zero} \<rightharpoonup> ('v, 'c) server"
    and c c2 :: "('c \<rightharpoonup> ('v, 'c) server, 'v, 'c, 'e) client"
  assumes peers: "cl_peers c = map server_peer ids" "cl_peers c2 = map server_peer ids" "distinct ids"
    and maj: "card (set ids) < 2 * length (up w ids)"
    and p: "p = Proposal ver (cl_round c + 1) (cl_id c)"
    and ready: "\<And>k s. k \<in> set ids \<Longrightarrow> w k = Some s \<Longrightarrow> server_ready (set ids) p s"
  shows "\<exists>w'. client_choose (Suc fuel) c ver (PVal x) w =
        Some (Inr (choice_own p), c\<lparr>cl_round := cl_round c + 1\<rparr>, w')
      \<and> client_get c2 w' = (Inr (Some x), w')
      \<and> (\<forall>k \<in> set ids. \<forall>s p'. w' k = Some s \<longrightarrow> prop_version p' = ver + 1 \<longrightarrow> server_ready (set ids) p' s)"
proof -
  let ?w = "update_up w ids (\<lambda>k. elect (the (w k)) p (PVal x))"
  have el: "\<exists>s0. w k = Some s0 \<and> s = elect s0 p (PVal x)" if "k \<in> set ids" "?w k = Some s" for k s
    using update_up_Some [OF that(2,1)] by auto
  have "client_choose (Suc fuel) c ver (PVal x) w =
      Some (Inr (choice_own p), c\<lparr>cl_round := cl_round c + 1\<rparr>, ?w)"
    using choose_ready [OF peers(1,3) maj p ready] .
  moreover have "client_state c2 ?w = (Inr \<lparr>cs_value = Some x, cs_quorum = set ids, cs_proposal = Some p\<rparr>, ?w)"
    using maj el elect_get [OF ready] by (intro get_elected [OF peers(2)]) fastforce+
  moreover have "server_ready (set ids) p' s" if "k \<in> set ids" "?w k = Some s" "prop_version p' = ver + 1" for k s p'
    using el [OF that(1,2)] elect_ready [OF ready, of k _ p' "PVal x"] that p by (auto simp: pvalue_quorum_def)
  ultimately show ?thesis by (intro exI [of _ ?w]) (auto simp: client_get_def)
qed

definition demo_server :: "nat \<Rightarrow> (nat, nat) server" where
  "demo_server k = \<lparr>srv_id = k, srv_quorum = {1, 2, 3}, srv_value = None, srv_version = Version 0 3 0,
     srv_partial = False, srv_state = None\<rparr>"

definition demo_world :: "nat \<rightharpoonup> (nat, nat) server" where
  "demo_world = [1 \<mapsto> demo_server 1, 3 \<mapsto> demo_server 3]"

definition demo_client :: "nat \<Rightarrow> (nat \<rightharpoonup> (nat, nat) server, nat, nat, unit) client" where
  "demo_client i = \<lparr>cl_id = i, cl_peers = map server_peer [1, 2, 3], cl_conflict_backoff = True, cl_round = 0\<rparr>"

lemma demo_up: "length (up demo_world [1, 2, 3]) = 2"
  by (simp add: up_def demo_world_def)

lemma demo_ready:
  "k \<in> set [1, 2, 3] \<Longrightarrow> demo_world k = Some s \<Longrightarrow> server_ready (set [1, 2, 3]) p s"
  by (auto simp: demo_world_def demo_server_def server_ready_def server_inv_def current_quorum_def
      srv_accepted_def version_le_def split: if_splits)

theorem choose_get_witness:
  "\<exists>w'. client_choose 1 (demo_client 8) 1 (PVal 42) demo_world =
        Some (Inr (choice_own (Proposal 1 1 8)), (demo_client 8)\<lparr>cl_round := 1\<rparr>, w')
      \<and> client_get (demo_client 9) w' = (Inr (Some 42), w')"
  using choose_get [of "demo_client 8" "[1, 2, 3]" "demo_client 9" demo_world "Proposal 1 1 8" 1 0 42]
    demo_up demo_ready
  by (auto simp: demo_client_def)

definition stale_world :: "nat \<rightharpoonup> (nat, nat) server" where
  "stale_world =
    [1 \<mapsto> (demo_server 1)\<lparr>srv_state := Some \<lparr>vs_proposal = Proposal 1 5 7, vs_accepted = None\<rparr>\<rparr>,
     2 \<mapsto> (demo_server 2)\<lparr>srv_state := Some \<lparr>vs_proposal = Proposal 1 3 6,
        vs_accepted = Some \<lparr>acc_proposal = Proposal 1 3 6, acc_value = PVal 30, acc_confirmed = False\<rparr>\<rparr>\<rparr>]"

theorem choose_open_witness:
  "\<exists>ch c' p v h. client_choose 2 (demo_client 8) 1 (PVal 42) stale_world =
       Some (Inr ch, c', update_up stale_world [1, 2, 3] h)
     \<and> outcome ch p (PVal 42) v \<and> elected p v (h 1) \<and> elected p v (h 2)"
proof -
  have "length (up stale_world [1, 2, 3]) = 2" by (simp add: stale_world_def)
  moreover have "server_open (set [1, 2, 3]) 1 s" if "k \<in> set [1, 2, 3]" "stale_world k = Some s" for k s
    using that by (auto simp: stale_world_def server_open_def server_inv_def demo_server_def vs_version_def
        split: if_splits)
  ultimately show ?thesis
    using choose_open [of "demo_client 8" "[1, 2, 3]" stale_world 1 0 "PVal 42"]
    by (fastforce simp: demo_client_def numeral_2_eq_2 stale_world_def)
qed

section \<open>Too few servers\<close>

text \<open>
  C28. Without a majority nothing is written: when at most half of the servers is reachable, and each
  reachable server is ready for the proposal (not partial, with the quorum of the client, and either
  fresh or with the previous version confirmed; so none holds a confirmed value of this version, with
  which \<open>choose\<close> would succeed), \<open>choose\<close> reports how many it reached and how many
  there are, after one round, and no server has accepted anything.
\<close>

theorem choose_too_few:
  fixes w :: "'c::{linorder, zero} \<rightharpoonup> ('v, 'c) server"
    and c :: "('c \<rightharpoonup> ('v, 'c) server, 'v, 'c, 'e) client"
  assumes peers: "cl_peers c = map server_peer ids" "distinct ids"
    and few: "2 * length (up w ids) \<le> card (set ids)"
    and p: "p = Proposal ver (cl_round c + 1) (cl_id c)"
    and ready: "\<And>k s. k \<in> set ids \<Longrightarrow> w k = Some s \<Longrightarrow> server_ready (set ids) p s"
  shows "client_choose (Suc fuel) c ver v w =
    Some (Inl (TooFewPeers (int (length (up w ids))) (int (card (set ids)))),
          c\<lparr>cl_round := cl_round c + 1\<rparr>, update_up w ids (\<lambda>k. with_state (the (w k)) p None))"
proof -
  let ?ph = "\<lparr>ph_reached = int (length (up w ids)), ph_unavailables = down_from 0 w ids, ph_weak_error = None,
       ph_responses = map (\<lambda>k. resp_of None None False) (up w ids)\<rparr> :: ('v, 'c, 'e) phase"
  let ?w1 = "update_up w ids (\<lambda>k. with_state (the (w k)) p None)"
  have 1: "send_proposals 0 (cl_peers c) (set ids) p (phase_start {}) w = (Inr ?ph, ?w1)"
    unfolding peers(1)
    by (subst send_proposals_cluster [OF peers(2), where r = "\<lambda>k. resp_of None None False"
          and g = "\<lambda>k. with_state (the (w k)) p None"])
      (auto simp: phase_start_def dest: ready_propose [OF ready])
  have "find resp_is_confirmed (ph_responses ?ph) = None"
    by (auto simp: find_None_iff resp_is_confirmed_def resp_of_def)
  moreover have "check_headcount (set ids) (int (length (up w ids))) (None :: ('c, 'e) exn option) False =
      Inl (TooFewPeers (int (length (up w ids))) (int (card (set ids))))"
    using few by (auto simp: check_headcount_def div_trunc2_def Let_def)
  ultimately have 2: "decide_proposals (set ids) p ?ph None =
      Inl (TooFewPeers (int (length (up w ids))) (int (card (set ids))))"
    by (simp add: decide_proposals_def)
  show ?thesis
    using 1 2 by (simp add: client_choose_def choose_round_def Let_def loop_start_def
        client_quorum_cluster [OF peers(1)] p)
qed

definition lone_world :: "nat \<rightharpoonup> (nat, nat) server" where
  "lone_world = [1 \<mapsto> demo_server 1]"

theorem choose_too_few_witness:
  "client_choose 1 (demo_client 8) 1 (PVal 42) lone_world =
     Some (Inl (TooFewPeers 1 3), (demo_client 8)\<lparr>cl_round := 1\<rparr>,
       update_up lone_world [1, 2, 3] (\<lambda>k. with_state (the (lone_world k)) (Proposal 1 1 8) None))"
proof -
  have ready: "server_ready (set [1, 2, 3]) (Proposal 1 1 8) s"
    if "k \<in> set [1, 2, 3]" "lone_world k = Some s" for k s
    using that demo_ready [of 1 s] by (auto simp: demo_world_def lone_world_def split: if_splits)
  have "length (up lone_world [1, 2, 3]) = 1" by (simp add: lone_world_def)
  then show ?thesis
    using choose_too_few [of "demo_client 8" "[1, 2, 3]" lone_world "Proposal 1 1 8" 1 0 "PVal 42", OF _ _ _ _ ready]
    by (simp add: demo_client_def)
qed

section \<open>Bidding higher\<close>

definition stubborn_peer :: "(unit, nat, nat, unit) peer" where
  "stubborn_peer = \<lparr>peer_id = 1,
     peer_propose = (\<lambda>q p w. (Inr (resp_of (Some (Proposal 1 7 9)) None False), w)),
     peer_accept = (\<lambda>q p v w. (Inr p, w)), peer_confirm = (\<lambda>q p w. (Inr (), w)), peer_get = (\<lambda>q w. (Inr None, w))\<rparr>"

definition lone_client :: "(unit, nat, nat, unit) client" where
  "lone_client = \<lparr>cl_id = 2, cl_peers = [stubborn_peer], cl_conflict_backoff = True, cl_round = 0\<rparr>"

theorem choose_round_next_higher_witness:
  "choose_round lone_client (PVal 5) (loop_start lone_client 1) () =
     (Inr Continue, \<lparr>lp_version = 1, lp_round = 7, lp_replace = None, lp_backoff = 1\<rparr>, ())
   \<and> next_proposal lone_client (loop_start lone_client 1)
     < next_proposal lone_client \<lparr>lp_version = 1, lp_round = 7, lp_replace = None, lp_backoff = 1\<rparr>"
proof -
  have "choose_round lone_client (PVal 5) (loop_start lone_client 1) () =
     (Inr Continue, \<lparr>lp_version = 1, lp_round = 7, lp_replace = None, lp_backoff = 1\<rparr>, ())"
    by code_simp
  with choose_round_next_higher [OF this] show ?thesis by (simp add: int_max_def loop_start_def lone_client_def)
qed

end
