(* ===== verification/Paxos_Agreement.thy ===== *)
theory Paxos_Agreement
  imports Paxos_Client
begin

text \<open>
  Several clients and servers exchanging messages for one version, in any order. The servers run
  \<^const>\<open>propose\<close>, \<^const>\<open>accept\<close> and \<^const>\<open>confirm\<close>; a client may send an acceptation only
  with the value \<^const>\<open>decide_proposals\<close> gives it on answers it really received, and a confirmation
  only once a majority accepted, as \<^verbatim>\<open>Client::choose\<close> does. A message may be lost, delayed or
  repeated. The parameter \<open>ok\<close> restricts which answers to a proposal occur: with the trivial
  predicate the relation is the code as it is; with \<open>reply_exact\<close> every answer names the
  proposal under which the reported value was accepted.

  Under \<open>reply_exact\<close> two servers never hold different confirmed values. Without it they can: the
  server answers with its latest promise instead, and a run of the code is exhibited in which two
  values are confirmed for the same version.
\<close>

section \<open>Messages and global states\<close>

record ('v, 'c) proto =
  pr_servers :: "'c \<Rightarrow> ('v, 'c) server"
  pr_replies :: "('c \<times> 'c proposal \<times> ('v, 'c) response) list"
  pr_sent :: "'c proposal \<rightharpoonup> ('v, 'c) pvalue"
  pr_votes :: "('c \<times> 'c proposal) list"

datatype ('v, 'c) msg =
    MPropose 'c "'c proposal"
  | MSend "'c proposal" "('c \<times> ('v, 'c) response) list" "('v, 'c) pvalue option" "('v, 'c) pvalue"
  | MAccept 'c "'c proposal"
  | MConfirm 'c "'c proposal"

definition voters :: "('v, 'c) proto \<Rightarrow> 'c proposal \<Rightarrow> 'c list" where
  "voters x p = remdups (map fst (filter (\<lambda>(k, b). b = p) (pr_votes x)))"

definition answers :: "('c \<times> ('v, 'c) response) list \<Rightarrow> ('v, 'c, unit) phase" where
  "answers krs = \<lparr>ph_reached = int (length krs), ph_unavailables = {}, ph_weak_error = None,
                   ph_responses = map snd krs\<rparr>"

fun proto_step ::
  "(('v, 'c::{linorder, zero}) server \<Rightarrow> ('v, 'c) response \<Rightarrow> bool) \<Rightarrow> 'c set \<Rightarrow> int
     \<Rightarrow> ('v, 'c) proto \<Rightarrow> ('v, 'c) msg \<Rightarrow> ('v, 'c) proto option" where
  "proto_step ok q ver x (MPropose k p) =
     (if k \<in> q \<and> prop_version p = ver then
        (case propose (pr_servers x k) q p of
           Inl _ \<Rightarrow> None
         | Inr (r, s') \<Rightarrow>
             if ok (pr_servers x k) r
             then Some (x\<lparr>pr_servers := (pr_servers x)(k := s'),
                          pr_replies := (k, p, r) # pr_replies x\<rparr>)
             else None)
      else None)"
| "proto_step ok q ver x (MSend p krs rep val) =
     (if pr_sent x p = None \<and> distinct (map fst krs) \<and> (\<forall>kr \<in> set krs. fst kr \<in> q)
         \<and> (\<forall>kr \<in> set krs. (fst kr, p, snd kr) \<in> set (pr_replies x)) then
        (case decide_proposals q p (answers krs) rep of
           Inr (Proceed, rep') \<Rightarrow>
             Some (x\<lparr>pr_sent := (pr_sent x)(p \<mapsto> (case rep' of Some v \<Rightarrow> v | None \<Rightarrow> val))\<rparr>)
         | _ \<Rightarrow> None)
      else None)"
| "proto_step ok q ver x (MAccept k p) =
     (case pr_sent x p of
        None \<Rightarrow> None
      | Some v \<Rightarrow>
          if k \<in> q then
            (case accept (pr_servers x k) q p v of
               Inl _ \<Rightarrow> None
             | Inr (m, s') \<Rightarrow>
                 Some (x\<lparr>pr_servers := (pr_servers x)(k := s'),
                         pr_votes := (if p < m then pr_votes x else (k, p) # pr_votes x)\<rparr>))
          else None)"
| "proto_step ok q ver x (MConfirm k p) =
     (if (k, p) \<in> set (pr_votes x)
         \<and> check_headcount q (int (length (voters x p))) (None :: ('c, unit) exn option) False = Inr () then
        (case confirm (pr_servers x k) q p of
           Inl _ \<Rightarrow> None
         | Inr s' \<Rightarrow> Some (x\<lparr>pr_servers := (pr_servers x)(k := s')\<rparr>))
      else None)"

fun proto_run where
  "proto_run ok q ver x [] = Some x"
| "proto_run ok q ver x (m # ms) =
     (case proto_step ok q ver x m of None \<Rightarrow> None | Some x' \<Rightarrow> proto_run ok q ver x' ms)"

definition proto_init :: "'c set \<Rightarrow> ('c \<Rightarrow> ('v, 'c) server) \<Rightarrow> ('v, 'c) proto \<Rightarrow> bool" where
  "proto_init q servers x \<longleftrightarrow>
     x = \<lparr>pr_servers = servers, pr_replies = [], pr_sent = Map.empty, pr_votes = []\<rparr>
     \<and> (\<forall>k \<in> q. srv_state (servers k) = None \<and> \<not> srv_partial (servers k) \<and> srv_quorum (servers k) = q)"

inductive proto_reachable for ok q ver servers where
  init: "proto_init q servers x \<Longrightarrow> proto_reachable ok q ver servers x"
| step: "proto_reachable ok q ver servers x \<Longrightarrow> proto_step ok q ver x m = Some x'
    \<Longrightarrow> proto_reachable ok q ver servers x'"

definition reply_exact :: "('v, 'c) server \<Rightarrow> ('v, 'c) response \<Rightarrow> bool" where
  "reply_exact s r \<longleftrightarrow>
     (case srv_accepted s of
        Some a \<Rightarrow> resp_value r = None \<or> resp_proposal r = Some (acc_proposal a)
      | None \<Rightarrow> True)"

lemma proto_run_reachable:
  "proto_reachable ok q ver servers x \<Longrightarrow> proto_run ok q ver x ms = Some x'
   \<Longrightarrow> proto_reachable ok q ver servers x'"
  by (induction ms arbitrary: x) (auto split: option.splits intro: proto_reachable.step)

section \<open>Chosen values\<close>

definition chosen :: "'c set \<Rightarrow> ('v, 'c) proto \<Rightarrow> 'c proposal \<Rightarrow> ('v, 'c) pvalue \<Rightarrow> bool" where
  "chosen q x p v \<longleftrightarrow>
     pr_sent x p = Some v \<and> card q < 2 * card {k. (k, p) \<in> set (pr_votes x)}"

definition granted :: "'c::linorder proposal \<Rightarrow> ('v, 'c) response \<Rightarrow> bool" where
  "granted p r \<longleftrightarrow> (case resp_proposal r of None \<Rightarrow> True | Some b \<Rightarrow> b < p)"

text \<open>The votes of a server below a proposal are summed up by the answer it gave to it.\<close>

definition reply_sums_up :: "('v, 'c::linorder) proto \<Rightarrow> 'c \<Rightarrow> 'c proposal \<Rightarrow> ('v, 'c) response \<Rightarrow> bool" where
  "reply_sums_up x k p r \<longleftrightarrow>
     (case resp_value r of
        None \<Rightarrow> \<forall>b. (k, b) \<in> set (pr_votes x) \<longrightarrow> p \<le> b
      | Some v \<Rightarrow> (\<exists>b. resp_proposal r = Some b \<and> (k, b) \<in> set (pr_votes x) \<and> pr_sent x b = Some v
          \<and> (\<forall>b'. (k, b') \<in> set (pr_votes x) \<longrightarrow> b' \<le> b \<or> p \<le> b')))"

definition justified :: "'c set \<Rightarrow> ('v, 'c::linorder) proto \<Rightarrow> 'c proposal \<Rightarrow> ('v, 'c) pvalue \<Rightarrow> bool" where
  "justified q x p v \<longleftrightarrow>
     (\<exists>M f. M \<subseteq> q \<and> card q < 2 * card M
        \<and> (\<forall>k \<in> M. (k, p, f k) \<in> set (pr_replies x) \<and> granted p (f k))
        \<and> ((\<forall>k \<in> M. resp_value (f k) = None)
           \<or> (\<exists>k \<in> M. resp_value (f k) = Some v
                \<and> (\<forall>k' \<in> M. resp_value (f k') \<noteq> None \<longrightarrow> resp_proposal (f k') \<le> resp_proposal (f k)))))"

section \<open>Invariant\<close>

definition server_here :: "'c set \<Rightarrow> int \<Rightarrow> ('v, 'c::linorder) server \<Rightarrow> bool" where
  "server_here q ver s \<longleftrightarrow> server_inv s \<and> \<not> srv_partial s \<and> srv_quorum s = q
     \<and> (case srv_state s of None \<Rightarrow> True | Some st \<Rightarrow> vs_version st = ver)
     \<and> (case srv_accepted s of None \<Rightarrow> True | Some a \<Rightarrow> prop_version (acc_proposal a) = ver)"

definition votes_ok :: "'c set \<Rightarrow> ('v, 'c::linorder) proto \<Rightarrow> bool" where
  "votes_ok q x \<longleftrightarrow>
     (\<forall>k b. (k, b) \<in> set (pr_votes x) \<longrightarrow> k \<in> q \<and> pr_sent x b \<noteq> None
        \<and> (\<exists>a. srv_accepted (pr_servers x k) = Some a \<and> b \<le> acc_proposal a))
     \<and> (\<forall>k \<in> q. \<forall>a. srv_accepted (pr_servers x k) = Some a \<longrightarrow>
          (k, acc_proposal a) \<in> set (pr_votes x) \<and> pr_sent x (acc_proposal a) = Some (acc_value a))"

definition replies_ok :: "'c set \<Rightarrow> ('v, 'c::linorder) proto \<Rightarrow> bool" where
  "replies_ok q x \<longleftrightarrow>
     (\<forall>k p r. (k, p, r) \<in> set (pr_replies x) \<longrightarrow> granted p r \<longrightarrow>
        k \<in> q \<and> promise_le (Some p) (srv_promise (pr_servers x k)) \<and> reply_sums_up x k p r)"

definition sent_ok :: "'c set \<Rightarrow> ('v, 'c::linorder) proto \<Rightarrow> bool" where
  "sent_ok q x \<longleftrightarrow> finite (dom (pr_sent x)) \<and> (\<forall>p v. pr_sent x p = Some v \<longrightarrow> justified q x p v)"

definition confirmed_ok :: "'c set \<Rightarrow> ('v, 'c::linorder) proto \<Rightarrow> bool" where
  "confirmed_ok q x \<longleftrightarrow>
     (\<forall>k \<in> q. \<forall>a. srv_accepted (pr_servers x k) = Some a \<longrightarrow> acc_confirmed a \<longrightarrow>
        (\<exists>b \<le> acc_proposal a. chosen q x b (acc_value a)))"

definition proto_inv :: "'c set \<Rightarrow> int \<Rightarrow> ('v, 'c::linorder) proto \<Rightarrow> bool" where
  "proto_inv q ver x \<longleftrightarrow> (\<forall>k \<in> q. server_here q ver (pr_servers x k))
     \<and> votes_ok q x \<and> replies_ok q x \<and> sent_ok q x \<and> confirmed_ok q x"

text \<open>What is chosen at a proposal is what every later proposal carries.\<close>

lemma chosen_binds:
  assumes fin: "finite q" and inv: "votes_ok q x" "replies_ok q x" "sent_ok q x"
    and ch: "chosen q x b v" and later: "pr_sent x b' = Some v'" "b \<le> b'"
  shows "v' = v"
proof (cases "b = b'")
  case True
  with ch later show ?thesis by (simp add: chosen_def)
next
  case False
  with later(2) have "b < b'" by simp
  then show ?thesis using later(1)
  proof (induction "card {c \<in> dom (pr_sent x). b < c \<and> c < b'}" arbitrary: b' v' rule: less_induct)
    case less
    let ?V = "{k. (k, b) \<in> set (pr_votes x)}"
    have "justified q x b' v'" using inv(3) less.prems by (simp add: sent_ok_def)
    then obtain M f where M: "M \<subseteq> q" "card q < 2 * card M"
      and rep: "\<And>k. k \<in> M \<Longrightarrow> (k, b', f k) \<in> set (pr_replies x) \<and> granted b' (f k)"
      and val: "(\<forall>k \<in> M. resp_value (f k) = None)
        \<or> (\<exists>k \<in> M. resp_value (f k) = Some v'
             \<and> (\<forall>k' \<in> M. resp_value (f k') \<noteq> None \<longrightarrow> resp_proposal (f k') \<le> resp_proposal (f k)))"
      unfolding justified_def by blast
    have "?V \<subseteq> q" using inv(1) by (auto simp: votes_ok_def)
    with ch M fin obtain k where k: "k \<in> M" "(k, b) \<in> set (pr_votes x)"
      using majorities_meet [of q ?V M] by (auto simp: chosen_def)
    have sums: "reply_sums_up x j b' (f j)" if "j \<in> M" for j
      using rep [OF that] inv(2) by (auto simp: replies_ok_def)
    from sums [OF k(1)] k(2) less.prems(1) obtain vk bk where
      bk: "resp_value (f k) = Some vk" "resp_proposal (f k) = Some bk" "b \<le> bk"
      by (auto simp: reply_sums_up_def not_le [symmetric] split: option.splits)
    with val k(1) obtain j where j: "j \<in> M" "resp_value (f j) = Some v'"
      "resp_proposal (f k) \<le> resp_proposal (f j)" by force
    with sums [OF j(1)] bk obtain bj where
      bj: "resp_proposal (f j) = Some bj" "pr_sent x bj = Some v'" "b \<le> bj"
      by (auto simp: reply_sums_up_def)
    have "bj < b'" using rep [OF j(1)] bj(1) by (simp add: granted_def)
    show ?case
    proof (cases "b = bj")
      case True
      with ch bj(2) show ?thesis by (simp add: chosen_def)
    next
      case False
      with bj(3) have "b < bj" by simp
      have "{c \<in> dom (pr_sent x). b < c \<and> c < bj} \<subset> {c \<in> dom (pr_sent x). b < c \<and> c < b'}"
        using \<open>bj < b'\<close> \<open>b < bj\<close> bj(2) by (auto intro!: psubsetI)
      with inv(3) have "card {c \<in> dom (pr_sent x). b < c \<and> c < bj} < card {c \<in> dom (pr_sent x). b < c \<and> c < b'}"
        by (intro psubset_card_mono) (auto simp: sent_ok_def)
      then show ?thesis using less.hyps \<open>b < bj\<close> bj(2) by blast
    qed
  qed
qed

section \<open>Every message preserves the invariant\<close>

lemma here_propose:
  assumes "server_here q ver s" and "prop_version p = ver" and "propose s q p = Inr (r, s')"
  shows "server_here q ver s'" "srv_accepted s' = srv_accepted s"
    "promise_le (srv_promise s) (srv_promise s')" "promise_le (Some p) (srv_promise s')"
    "resp_value r = map_option acc_value (srv_accepted s)"
proof -
  have "check_quorum s q (Some p) = Inr ()"
    using assms(1,2) by (auto simp: server_here_def check_quorum_def split: option.splits pvalue.splits)
  then have "propose_advance s q p = Inr s"
    using assms(1,2)
    by (auto simp: propose_advance_def check_confirmed_def server_here_def Let_def split: option.splits)
  then have reg: "propose_register s p = (r, s')"
    using assms by (auto simp: propose_def server_here_def split: option.splits)
  show acc: "srv_accepted s' = srv_accepted s"
    using reg by (auto simp: propose_register_def srv_accepted_def split: option.splits if_splits)
  show "resp_value r = map_option acc_value (srv_accepted s)"
    using reg by (auto simp: propose_register_def srv_accepted_def resp_of_def split: option.splits if_splits)
  have prom: "srv_promise s' = Some (case srv_promise s of None \<Rightarrow> p | Some b \<Rightarrow> max b p)"
    using propose_register_promise [OF reg] .
  then show "promise_le (srv_promise s) (srv_promise s')" "promise_le (Some p) (srv_promise s')"
    by (auto simp: promise_le_def split: option.splits)
  have "srv_partial s' = srv_partial s" "srv_quorum s' = srv_quorum s"
    using reg by (auto simp: propose_register_def split: option.splits if_splits)
  moreover have "case srv_state s' of None \<Rightarrow> True | Some st \<Rightarrow> vs_version st = ver"
    using prom assms(1,2)
    by (auto simp: srv_promise_def server_here_def vs_version_def max_def split: option.splits if_splits)
  moreover have "server_inv s'" using assms(1) propose_register_inv [OF _ reg] by (simp add: server_here_def)
  ultimately show "server_here q ver s'" using assms(1) acc by (simp add: server_here_def)
qed

lemma justified_mono:
  assumes "justified q x p v" and "set (pr_replies x) \<subseteq> set (pr_replies x')"
  shows "justified q x' p v"
  using assms unfolding justified_def by (meson subsetD)

lemma chosen_mono:
  assumes "chosen q x p v" and "finite {k. (k, p) \<in> set (pr_votes x')}"
    and "set (pr_votes x) \<subseteq> set (pr_votes x')" and "pr_sent x \<subseteq>\<^sub>m pr_sent x'"
  shows "chosen q x' p v"
proof -
  have "card {k. (k, p) \<in> set (pr_votes x)} \<le> card {k. (k, p) \<in> set (pr_votes x')}"
    using assms(2,3) by (intro card_mono) auto
  with assms(1,4) show ?thesis by (auto simp: chosen_def map_le_def dom_def)
qed

lemma finite_votes [simp]: "finite {k. (k, p) \<in> set (pr_votes x)}"
  by (rule finite_subset [of _ "fst ` set (pr_votes x)"]) force+

lemma proto_inv_init: "proto_init q servers x \<Longrightarrow> proto_inv q ver x"
  by (auto simp: proto_init_def proto_inv_def server_here_def server_inv_def votes_ok_def replies_ok_def
      sent_ok_def confirmed_ok_def srv_accepted_def)

lemma inv_propose:
  assumes inv: "proto_inv q ver x" and step: "proto_step reply_exact q ver x (MPropose k p) = Some x'"
  shows "proto_inv q ver x'"
proof -
  obtain r s' where k: "k \<in> q" "prop_version p = ver"
    and pr: "propose (pr_servers x k) q p = Inr (r, s')" "reply_exact (pr_servers x k) r"
    and x': "x' = x\<lparr>pr_servers := (pr_servers x)(k := s'), pr_replies := (k, p, r) # pr_replies x\<rparr>"
    using step by (auto split: if_splits sum.splits)
  have here: "server_here q ver (pr_servers x k)" using inv k(1) by (simp add: proto_inv_def)
  note eff = here_propose [OF here k(2) pr(1)]
  have acc: "srv_accepted (pr_servers x' j) = srv_accepted (pr_servers x j)" for j
    using eff(2) by (simp add: x')
  have sums: "reply_sums_up x' j b ra = reply_sums_up x j b ra" for j b ra
    by (cases "resp_value ra") (simp_all add: reply_sums_up_def x')
  have mono: "promise_le b (srv_promise (pr_servers x' j))" if "promise_le b (srv_promise (pr_servers x j))" for b j
    using that promise_le_trans [OF _ eff(3)] by (auto simp: x')
  have "reply_sums_up x k p r"
    using inv k(1) pr(2) eff(5)
    by (fastforce simp: proto_inv_def votes_ok_def reply_sums_up_def reply_exact_def split: option.splits)
  then have new: "k \<in> q \<and> promise_le (Some p) (srv_promise (pr_servers x' k)) \<and> reply_sums_up x' k p r"
    unfolding sums using k(1) eff(4) by (simp add: x')
  have old: "j \<in> q \<and> promise_le (Some b) (srv_promise (pr_servers x' j)) \<and> reply_sums_up x' j b ra"
    if "(j, b, ra) \<in> set (pr_replies x)" "granted b ra" for j b ra
    using inv that by (auto simp: proto_inv_def replies_ok_def sums intro: mono)
  have "set (pr_replies x') = insert (k, p, r) (set (pr_replies x))" by (simp add: x')
  with new old have rep_ok: "replies_ok q x'" unfolding replies_ok_def by (metis insertE prod.inject)
  have just: "justified q x' b v" if "justified q x b v" for b v
    using that by (rule justified_mono) (auto simp: x')
  have "sent_ok q x'"
    using inv just by (simp add: proto_inv_def sent_ok_def) (simp add: x')
  moreover have "votes_ok q x'" "confirmed_ok q x'"
    using inv by (auto simp: proto_inv_def votes_ok_def confirmed_ok_def acc) (auto simp: x' chosen_def)
  ultimately show ?thesis
    using inv eff(1) rep_ok by (simp add: proto_inv_def) (simp add: x')
qed

lemma decide_retry_None:
  fixes rs :: "('v, 'c::linorder) response list"
  assumes "decide_retry p rs = (Inr None :: ('c, 'e) exn + _)" and "r \<in> set rs" and "resp_proposal r = Some b"
  shows "b < p"
  by (rule decide_retry_highest [of p rs, where 'e = 'e]) (use assms in auto)

lemma send_justified:
  fixes q :: "'c::linorder set" and x :: "('v, 'c) proto"
  assumes fin: "finite q" and inv: "replies_ok q x"
    and krs: "distinct (map fst krs)" "\<And>kr. kr \<in> set krs \<Longrightarrow> fst kr \<in> q"
      "\<And>kr. kr \<in> set krs \<Longrightarrow> (fst kr, p, snd kr) \<in> set (pr_replies x)"
    and dec: "decide_proposals q p (answers krs) rep = Inr (Proceed, rep')"
  shows "justified q x p (case rep' of Some v \<Rightarrow> v | None \<Rightarrow> val)"
proof -
  let ?rs = "map snd krs" and ?M = "fst ` set krs"
  from dec obtain m where head: "check_headcount q (int (length krs)) (None :: ('c, unit) exn option) False = Inr ()"
    and repl: "decide_replace ?rs rep = (Inr rep' :: ('c, unit) exn + _)"
    and retry: "decide_retry p ?rs = (Inr m :: ('c, unit) exn + _)"
    and m: "(case m of Some (ver, rnd) \<Rightarrow> Retry ver rnd | None \<Rightarrow> Proceed) = (Proceed :: ('v, 'c) verdict)"
    by (auto simp: decide_proposals_def answers_def bind_res_eq_Inr split: option.splits)
  from m retry have retry: "decide_retry p ?rs = (Inr None :: ('c, unit) exn + _)"
    by (cases m) auto
  have low: "granted p r" if "r \<in> set ?rs" for r
    using decide_retry_None [OF retry that] by (auto simp: granted_def split: option.splits)
  have sums: "reply_sums_up x (fst kr) p (snd kr)" if "kr \<in> set krs" for kr
    using krs(3) [OF that] low [of "snd kr"] inv that by (auto simp: replies_ok_def)
  have wf: "resp_wf r" if "r \<in> set ?rs" for r
    using that sums by (fastforce simp: resp_wf_def reply_sums_up_def split: option.splits)
  let ?f = "\<lambda>k. the (map_of krs k)"
  have f: "?f (fst kr) = snd kr" if "kr \<in> set krs" for kr
    using krs(1) that by (metis map_of_eq_Some_iff option.sel prod.collapse)
  have "card ?M = length krs" using krs(1) distinct_card by fastforce
  with head have card: "card q < 2 * card ?M" by (simp add: check_headcount_ok)
  have M: "?M \<subseteq> q" "\<forall>k \<in> ?M. (k, p, ?f k) \<in> set (pr_replies x) \<and> granted p (?f k)"
    using krs(2,3) low f by auto
  have "(\<forall>k \<in> ?M. resp_value (?f k) = None) \<or>
    (\<exists>k \<in> ?M. resp_value (?f k) = Some (case rep' of Some v \<Rightarrow> v | None \<Rightarrow> val)
      \<and> (\<forall>k' \<in> ?M. resp_value (?f k') \<noteq> None \<longrightarrow> resp_proposal (?f k') \<le> resp_proposal (?f k)))"
    using wf
  proof (rule decide_replace_highest [of ?rs rep, where 'e = unit])
    fix r
    assume "r \<in> set ?rs" "resp_value r \<noteq> None"
      "\<And>r'. r' \<in> set ?rs \<Longrightarrow> resp_value r' \<noteq> None \<Longrightarrow> resp_proposal r' \<le> resp_proposal r"
      "decide_replace ?rs rep = (Inr (resp_value r) :: ('c, unit) exn + _)"
    with repl obtain kr v where "kr \<in> set krs" "snd kr = r" "resp_value r = Some v" "rep' = Some v"
      and "\<And>kr'. kr' \<in> set krs \<Longrightarrow> resp_value (snd kr') \<noteq> None \<Longrightarrow> resp_proposal (snd kr') \<le> resp_proposal r"
      by auto
    then show ?thesis by (intro disjI2 bexI [of _ "fst kr"]) (auto simp: f simp del: split_paired_All)
  next
    assume "\<And>r. r \<in> set ?rs \<Longrightarrow> resp_value r = None"
    then show ?thesis using f by auto
  qed
  then show ?thesis unfolding justified_def by (intro exI [of _ ?M] exI [of _ ?f] conjI card M)
qed

lemma sums_up_sent:
  assumes "reply_sums_up x k p r" and "pr_votes x' = pr_votes x" and "pr_sent x \<subseteq>\<^sub>m pr_sent x'"
  shows "reply_sums_up x' k p r"
  using assms by (auto simp: reply_sums_up_def map_le_def dom_def split: option.splits)

lemma proto_invD:
  assumes "proto_inv q ver x"
  shows "votes_ok q x" "replies_ok q x" "sent_ok q x" "confirmed_ok q x"
    "k \<in> q \<Longrightarrow> server_here q ver (pr_servers x k)"
  using assms by (auto simp: proto_inv_def)

lemma votes_okD:
  assumes "votes_ok q x" "(k, b) \<in> set (pr_votes x)"
  shows "k \<in> q" "\<exists>v. pr_sent x b = Some v"
    "\<exists>a. srv_accepted (pr_servers x k) = Some a \<and> b \<le> acc_proposal a"
  using assms unfolding votes_ok_def by fastforce+

lemma votes_ok_acceptedD:
  assumes "votes_ok q x" "k \<in> q" "srv_accepted (pr_servers x k) = Some a"
  shows "(k, acc_proposal a) \<in> set (pr_votes x)" "pr_sent x (acc_proposal a) = Some (acc_value a)"
  using assms unfolding votes_ok_def by blast+

lemma replies_okD:
  assumes "replies_ok q x" "(k, p, r) \<in> set (pr_replies x)" "granted p r"
  shows "k \<in> q" "promise_le (Some p) (srv_promise (pr_servers x k))" "reply_sums_up x k p r"
  using assms unfolding replies_ok_def by blast+

lemma confirmed_okD:
  assumes "confirmed_ok q x" "k \<in> q" "srv_accepted (pr_servers x k) = Some a" "acc_confirmed a"
  obtains b where "b \<le> acc_proposal a" "chosen q x b (acc_value a)"
  using assms unfolding confirmed_ok_def by blast

lemma inv_send:
  assumes fin: "finite q" and inv: "proto_inv q ver x"
    and step: "proto_step ok q ver x (MSend p krs rep val) = Some x'"
  shows "proto_inv q ver x'"
proof -
  obtain rep' where fresh: "pr_sent x p = None"
    and krs: "distinct (map fst krs)" "\<And>kr. kr \<in> set krs \<Longrightarrow> fst kr \<in> q"
      "\<And>kr. kr \<in> set krs \<Longrightarrow> (fst kr, p, snd kr) \<in> set (pr_replies x)"
    and dec: "decide_proposals q p (answers krs) rep = Inr (Proceed, rep')"
    and x': "x' = x\<lparr>pr_sent := (pr_sent x)(p \<mapsto> (case rep' of Some v \<Rightarrow> v | None \<Rightarrow> val))\<rparr>"
    using step by (auto split: if_splits sum.splits prod.splits verdict.splits)
  have ext: "pr_sent x \<subseteq>\<^sub>m pr_sent x'" using fresh by (auto simp: x' map_le_def dom_def)
  have same: "pr_servers x' = pr_servers x" "pr_replies x' = pr_replies x" "pr_votes x' = pr_votes x"
    by (simp_all add: x')
  have keep: "pr_sent x' b = Some v" if "pr_sent x b = Some v" for b v
    using that ext by (auto simp: map_le_def dom_def)
  have "justified q x p (case rep' of Some v \<Rightarrow> v | None \<Rightarrow> val)"
    using inv krs dec by (intro send_justified [OF fin]) (auto simp: proto_inv_def)
  then have "justified q x b v" if "pr_sent x' b = Some v" for b v
    using that inv by (auto simp: x' proto_inv_def sent_ok_def split: if_splits)
  then have "justified q x' b v" if "pr_sent x' b = Some v" for b v
    using justified_mono [of q x b v x'] that by (simp add: same)
  then have "sent_ok q x'" using inv by (simp add: proto_inv_def sent_ok_def) (simp add: x')
  moreover have "replies_ok q x'"
    using inv sums_up_sent [OF _ same(3) ext] by (fastforce simp: proto_inv_def replies_ok_def same)
  moreover have "votes_ok q x'" using inv keep by (fastforce simp: proto_inv_def votes_ok_def same)
  moreover have "confirmed_ok q x'"
    using inv keep by (fastforce simp: proto_inv_def confirmed_ok_def same chosen_def)
  ultimately show ?thesis using inv by (simp add: proto_inv_def same)
qed

lemma inv_accept:
  assumes fin: "finite q" and inv: "proto_inv q ver x"
    and step: "proto_step ok q ver x (MAccept k p) = Some x'"
  shows "proto_inv q ver x'"
proof -
  obtain v m s' where sent: "pr_sent x p = Some v" and k: "k \<in> q"
    and acc: "accept (pr_servers x k) q p v = Inr (m, s')"
    and x': "x' = x\<lparr>pr_servers := (pr_servers x)(k := s'),
                   pr_votes := (if p < m then pr_votes x else (k, p) # pr_votes x)\<rparr>"
    using step by (auto split: if_splits sum.splits prod.splits option.splits)
  from acc show ?thesis
  proof (cases rule: accept_cases)
    case (obsolete st)
    then have "x' = x" using x' by simp
    with inv show ?thesis by simp
  next
    case (recorded st)
    have here: "server_here q ver (pr_servers x k)" using inv k by (simp add: proto_inv_def)
    have s': "srv_accepted s' = Some (accept_value st p v)" "srv_promise s' = Some p"
      "srv_promise (pr_servers x k) = Some p"
      using recorded by (auto simp: srv_accepted_def srv_promise_def)
    have votes: "set (pr_votes x') = insert (k, p) (set (pr_votes x))" using recorded x' by simp
    have same: "pr_replies x' = pr_replies x" "pr_sent x' = pr_sent x"
      "\<And>j. pr_servers x' j = (if j = k then s' else pr_servers x j)" by (simp_all add: x')
    have below: "acc_proposal a \<le> p" if "srv_accepted (pr_servers x k) = Some a" for a
      using here recorded that by (auto simp: server_here_def server_inv_def srv_accepted_def)
    have mono: "chosen q x' b u" if "chosen q x b u" for b u
      using that by (rule chosen_mono) (auto simp: votes same)
    have "\<exists>a. srv_accepted (pr_servers x' j) = Some a \<and> b \<le> acc_proposal a"
      if "(j, b) \<in> set (pr_votes x)" for j b
      using votes_okD(3) [OF proto_invD(1) [OF inv] that] below s'(1)
      by (auto simp: same intro: order_trans)
    then have vok: "votes_ok q x'"
      using sent k s'(1) votes_okD(1,2) [OF proto_invD(1) [OF inv]]
        votes_ok_acceptedD [OF proto_invD(1) [OF inv]]
      unfolding votes_ok_def votes by (auto simp: same)
    have "reply_sums_up x' j b r" if r: "(j, b, r) \<in> set (pr_replies x)" "granted b r" for j b r
    proof -
      have "reply_sums_up x j b r" "j = k \<longrightarrow> b \<le> p"
        using replies_okD [OF proto_invD(2) [OF inv] r] s'(3) by (auto simp: promise_le_def)
      then show ?thesis by (auto simp: reply_sums_up_def votes same(2) split: option.splits)
    qed
    moreover have "srv_promise (pr_servers x' j) = srv_promise (pr_servers x j)" for j
      using s'(2,3) by (simp add: same)
    ultimately have "replies_ok q x'"
      using replies_okD(1,2) [OF proto_invD(2) [OF inv]] unfolding replies_ok_def same(1) by metis
    moreover have "sent_ok q x'"
      using inv justified_mono [of q x _ _ x'] by (auto simp: proto_inv_def sent_ok_def same)
    moreover have "server_here q ver s'"
      using here recorded by (auto simp: server_here_def server_inv_def srv_accepted_def vs_version_def)
    moreover have "\<exists>b \<le> p. chosen q x' b v" if c: "acc_confirmed (accept_value st p v)"
    proof -
      obtain a where a: "srv_accepted (pr_servers x k) = Some a" "acc_confirmed a"
        using c recorded(1) by (cases "vs_accepted st") (auto simp: accept_value_def srv_accepted_def)
      then obtain b where b: "b \<le> acc_proposal a" "chosen q x b (acc_value a)"
        by (rule confirmed_okD [OF proto_invD(4) [OF inv] k])
      with below [OF a(1)] have "b \<le> p" by simp
      with chosen_binds [OF fin _ _ _ b(2) sent] inv have "v = acc_value a" by (simp add: proto_inv_def)
      with b(2) \<open>b \<le> p\<close> mono show ?thesis by blast
    qed
    then have "confirmed_ok q x'"
      using mono s'(1) confirmed_okD [OF proto_invD(4) [OF inv]]
      unfolding confirmed_ok_def same(3) by (auto split: if_splits) metis
    ultimately show ?thesis using inv vok by (auto simp: proto_inv_def same)
  qed
qed

lemma inv_confirm:
  assumes fin: "finite q" and inv: "proto_inv q ver x"
    and step: "proto_step ok q ver x (MConfirm k p) = Some x'"
  shows "proto_inv q ver x'"
proof -
  obtain s' where vote: "(k, p) \<in> set (pr_votes x)"
    and head: "check_headcount q (int (length (voters x p))) (None :: ('a, unit) exn option) False = Inr ()"
    and conf: "confirm (pr_servers x k) q p = Inr s'"
    and x': "x' = x\<lparr>pr_servers := (pr_servers x)(k := s')\<rparr>"
    using step by (auto split: if_splits sum.splits)
  from conf show ?thesis
  proof (cases rule: confirm_cases)
    case unchanged
    then have "x' = x" using x' by simp
    with inv show ?thesis by simp
  next
    case (confirmed st a)
    have here: "server_here q ver (pr_servers x k)" "k \<in> q"
      using inv vote by (auto simp: proto_inv_def votes_ok_def)
    have same: "pr_replies x' = pr_replies x" "pr_sent x' = pr_sent x" "pr_votes x' = pr_votes x"
      "\<And>j. pr_servers x' j = (if j = k then s' else pr_servers x j)" by (simp_all add: x')
    have acc: "srv_accepted (pr_servers x k) = Some a" "srv_accepted s' = Some (a\<lparr>acc_confirmed := True\<rparr>)"
      "srv_promise s' = srv_promise (pr_servers x k)"
      using confirmed by (auto simp: srv_accepted_def confirm_state_def srv_promise_def)
    have "set (voters x p) = {j. (j, p) \<in> set (pr_votes x)}" by (force simp: voters_def)
    then have "length (voters x p) = card {j. (j, p) \<in> set (pr_votes x)}"
      by (metis distinct_card distinct_remdups voters_def)
    then obtain v where ch: "chosen q x p v"
      using head votes_okD(2) [OF proto_invD(1) [OF inv] vote] by (auto simp: chosen_def check_headcount_ok)
    have "p \<le> acc_proposal a" "pr_sent x (acc_proposal a) = Some (acc_value a)"
      using votes_okD(3) [OF proto_invD(1) [OF inv] vote]
        votes_ok_acceptedD [OF proto_invD(1) [OF inv] here(2)] acc(1) by auto
    with chosen_binds [OF fin _ _ _ ch] inv ch have "\<exists>b \<le> acc_proposal a. chosen q x b (acc_value a)"
      by (auto simp: proto_inv_def)
    moreover have "chosen q x' = chosen q x" by (intro ext) (simp add: chosen_def same)
    ultimately have "confirmed_ok q x'"
      using acc(2) confirmed_okD [OF proto_invD(4) [OF inv]]
      unfolding confirmed_ok_def same(4) by (auto split: if_splits) metis
    note cok = this
    have "b \<le> acc_proposal a" if "(k, b) \<in> set (pr_votes x)" for b
      using votes_okD(3) [OF proto_invD(1) [OF inv] that] acc(1) by simp
    then have vok: "votes_ok q x'"
      using votes_okD [OF proto_invD(1) [OF inv]] votes_ok_acceptedD [OF proto_invD(1) [OF inv]] acc(1,2)
      unfolding votes_ok_def by (auto simp: same split: if_splits)
    have "reply_sums_up x' = reply_sums_up x"
      by (intro ext) (simp add: reply_sums_up_def same cong: option.case_cong)
    moreover have "srv_promise (pr_servers x' j) = srv_promise (pr_servers x j)" for j
      using acc(3) by (simp add: same)
    ultimately have "replies_ok q x'"
      using replies_okD [OF proto_invD(2) [OF inv]] unfolding replies_ok_def same(1) by metis
    moreover have "sent_ok q x'"
      using inv justified_mono [of q x _ _ x'] by (auto simp: proto_inv_def sent_ok_def same)
    moreover have "server_here q ver s'"
      using here(1) confirmed by (auto simp: server_here_def server_inv_def srv_accepted_def confirm_state_def vs_version_def)
    ultimately show ?thesis using inv cok vok by (auto simp: proto_inv_def same)
  qed
qed

lemma proto_reachable_inv:
  assumes "proto_reachable reply_exact q ver servers x" and "finite q"
  shows "proto_inv q ver x"
  using assms(1)
proof induction
  case (init x)
  then show ?case by (rule proto_inv_init)
next
  case (step x m x')
  then show ?case using assms(2)
    by (cases m) (auto intro: inv_propose inv_send inv_accept inv_confirm simp del: proto_step.simps)
qed

text \<open>
  C1. Agreement. In every state that clients and servers can reach for one version, in any order of
  messages and with any of them lost, two servers that hold a confirmed value hold the same one,
  provided that each answer to a proposal names the proposal under which the value it reports was
  accepted.
\<close>

theorem proto_agreement:
  assumes "proto_reachable reply_exact q ver servers x" and fin: "finite q"
    and k: "k \<in> q" "srv_accepted (pr_servers x k) = Some a" "acc_confirmed a"
    and k': "k' \<in> q" "srv_accepted (pr_servers x k') = Some a'" "acc_confirmed a'"
  shows "acc_value a = acc_value a'"
proof -
  have inv: "proto_inv q ver x" using assms(1,2) by (rule proto_reachable_inv)
  then have ok: "votes_ok q x" "replies_ok q x" "sent_ok q x" by (auto simp: proto_inv_def)
  obtain b where b: "chosen q x b (acc_value a)"
    by (rule confirmed_okD [OF proto_invD(4) [OF inv] k])
  obtain b' where b': "chosen q x b' (acc_value a')"
    by (rule confirmed_okD [OF proto_invD(4) [OF inv] k'])
  show ?thesis
    using chosen_binds [OF fin ok b] chosen_binds [OF fin ok b'] b b'
    by (metis chosen_def linear)
qed

section \<open>Runs\<close>

definition trio_server :: "nat \<Rightarrow> (nat, nat) server" where
  "trio_server k = \<lparr>srv_id = k, srv_quorum = {1, 2, 3}, srv_value = None, srv_version = Version 0 3 0,
                    srv_partial = False, srv_state = None\<rparr>"

definition trio :: "(nat, nat) proto" where
  "trio = \<lparr>pr_servers = trio_server, pr_replies = [], pr_sent = Map.empty, pr_votes = []\<rparr>"

definition silent :: "(nat, nat) response" where
  "silent = resp_of None None False"

lemma trio_init: "proto_init {1, 2, 3} trio_server trio"
  by (auto simp: proto_init_def trio_def trio_server_def)

definition split_run :: "(nat, nat) msg list" where
  "split_run =
    (let p = (\<lambda>n. Proposal 1 1 n) in
     [MPropose 1 (p 1), MPropose 2 (p 1), MPropose 3 (p 1),
      MSend (p 1) [(1, silent), (2, silent), (3, silent)] None (PVal 10), MAccept 1 (p 1),
      MPropose 2 (p 2), MPropose 3 (p 2),
      MSend (p 2) [(2, silent), (3, silent)] None (PVal 20), MAccept 2 (p 2), MAccept 3 (p 2),
      MPropose 1 (p 3),
      MPropose 1 (p 4), MPropose 2 (p 4),
      MSend (p 4) [(1, resp_of (Some (p 3)) (Some (PVal 10)) False),
                   (2, resp_of (Some (p 2)) (Some (PVal 20)) False)] None (PVal 40),
      MAccept 1 (p 4), MAccept 2 (p 4), MConfirm 1 (p 4), MConfirm 2 (p 4), MConfirm 3 (p 2)])"

definition trio_result :: "(nat, nat) proto option \<Rightarrow> (nat, nat) accepted option list option" where
  "trio_result r = map_option (\<lambda>x. map (\<lambda>k. srv_accepted (pr_servers x k)) [1, 2, 3]) r"

lemma split_run_result:
  "trio_result (proto_run (\<lambda>_ _. True) {1, 2, 3} 1 trio split_run) =
     Some [Some \<lparr>acc_proposal = Proposal 1 1 4, acc_value = PVal 10, acc_confirmed = True\<rparr>,
           Some \<lparr>acc_proposal = Proposal 1 1 4, acc_value = PVal 10, acc_confirmed = True\<rparr>,
           Some \<lparr>acc_proposal = Proposal 1 1 2, acc_value = PVal 20, acc_confirmed = True\<rparr>]"
  by code_simp


definition exact_run :: "(nat, nat) msg list" where
  "exact_run =
    (let p = (\<lambda>n. Proposal 1 1 n) in
     [MPropose 1 (p 1), MPropose 2 (p 1), MPropose 3 (p 1),
      MSend (p 1) [(1, silent), (2, silent)] None (PVal 10), MAccept 1 (p 1),
      MPropose 1 (p 2), MPropose 3 (p 2),
      MSend (p 2) [(1, resp_of (Some (p 1)) (Some (PVal 10)) False), (3, silent)] None (PVal 20),
      MAccept 1 (p 2), MAccept 3 (p 2), MConfirm 1 (p 2), MConfirm 3 (p 2)])"

lemma exact_run_result:
  "trio_result (proto_run reply_exact {1, 2, 3} 1 trio exact_run) =
     Some [Some \<lparr>acc_proposal = Proposal 1 1 2, acc_value = PVal 10, acc_confirmed = True\<rparr>, None,
           Some \<lparr>acc_proposal = Proposal 1 1 2, acc_value = PVal 10, acc_confirmed = True\<rparr>]"
  by code_simp

lemma trio_resultD:
  assumes "trio_result (proto_run ok {1, 2, 3} ver trio ms) = Some [a1, a2, a3]"
  obtains x where "proto_reachable ok {1, 2, 3} ver trio_server x"
    "srv_accepted (pr_servers x 1) = a1" "srv_accepted (pr_servers x 2) = a2"
    "srv_accepted (pr_servers x 3) = a3"
proof -
  from assms obtain x where run: "proto_run ok {1, 2, 3} ver trio ms = Some x"
    and "map (\<lambda>k. srv_accepted (pr_servers x k)) [1, 2, 3] = [a1, a2, a3]"
    by (auto simp: trio_result_def)
  then show thesis
    by (intro that [OF proto_run_reachable [OF proto_reachable.init [OF trio_init] run]]) auto
qed

text \<open>
  C2. The answers of the code name the server's latest promise, not the proposal the value was
  accepted under, and that breaks agreement: three servers and four clients, none of them faulty, reach
  a state in which servers 1 and 3 hold different confirmed values for the same version.
\<close>

theorem split_brain:
  "\<exists>x a a'. proto_reachable (\<lambda>_ _. True) {1, 2, 3} 1 trio_server x
     \<and> srv_accepted (pr_servers x 1) = Some a \<and> acc_confirmed a
     \<and> srv_accepted (pr_servers x 3) = Some a' \<and> acc_confirmed a'
     \<and> acc_value a \<noteq> acc_value a'"
  by (rule trio_resultD [OF split_run_result]) fastforce

theorem proto_agreement_witness:
  "\<exists>x a a'. proto_reachable reply_exact {1, 2, 3} 1 trio_server x
     \<and> srv_accepted (pr_servers x 1) = Some a \<and> srv_accepted (pr_servers x 3) = Some a'
     \<and> acc_confirmed a \<and> acc_confirmed a' \<and> acc_value a = acc_value a'"
proof (rule trio_resultD [OF exact_run_result])
  fix x
  let ?a = "\<lparr>acc_proposal = Proposal 1 1 2, acc_value = PVal 10, acc_confirmed = True\<rparr>"
  assume x: "proto_reachable reply_exact {1, 2, 3} 1 trio_server x"
    "srv_accepted (pr_servers x 1) = Some ?a" "srv_accepted (pr_servers x 3) = Some ?a"
  then show ?thesis
    using proto_agreement [OF x(1), of 1 ?a 3 ?a] by auto
qed

end
