(* ===== verification/Elle_Binary.thy ===== *)
theory Elle_Binary
  imports Elle_Version
begin

text \<open>
  The binary serialization format of elle
  (elle/src/elle/serialization/binary/SerializerOut.cc and SerializerIn.cc): numbers of
  variable length, integers of each width with their range check, booleans, buffers,
  strings, options, arrays, pairs and versions. A writer gives the bytes it appends to
  the stream; a reader takes what is left of the stream and gives a value and what is
  left after it, or the error that is thrown.

  The interface of a writer and a reader that fit is the locale \<open>codec\<close>; every pair of
  functions below interprets it, or carries it from the parts to the whole.
\<close>

unbundle bit_operations_syntax

section \<open>Streams\<close>

text \<open>
  \<open>Uninitialised\<close> is not an exception: it stands for the use of a variable that a short
  \<^verbatim>\<open>istream::read\<close> left without a value; nor are \<open>NullPointer\<close>, a null pointer being
  dereferenced, and \<open>Assertion\<close>, a failed assertion. \<open>BadAlloc\<close> is \<^verbatim>\<open>std::bad_alloc\<close>, thrown for a
  buffer whose size was read as a negative \<^verbatim>\<open>int\<close>.
\<close>

datatype ser_error =
    EndOfStream
  | ShortRead int int
  | Overflow
  | BadAlloc
  | Uninitialised
  | NullPointer
  | Assertion
  | NoMagic
  | WrongMagic byte
  | UnknownType string
  | ConvertErr string

type_synonym 'a writer = "'a \<Rightarrow> buffer"
type_synonym 'a reader = "buffer \<Rightarrow> ser_error + 'a \<times> buffer"

definition return_rd :: "'a \<Rightarrow> 'a reader" where
  "return_rd x s = Inr (x, s)"

definition fail_rd :: "ser_error \<Rightarrow> 'a reader" where
  "fail_rd e s = Inl e"

definition bind_rd :: "'a reader \<Rightarrow> ('a \<Rightarrow> 'b reader) \<Rightarrow> 'b reader" where
  "bind_rd r f s = (case r s of Inl e \<Rightarrow> Inl e | Inr (x, s') \<Rightarrow> f x s')"

lemma rd_simps [simp]:
  "return_rd x s = Inr (x, s)"
  "fail_rd e s = Inl e"
  by (simp_all add: return_rd_def fail_rd_def)

lemma bind_rd_monad [simp]:
  "bind_rd (return_rd x) f = f x"
  "bind_rd (fail_rd e) f = fail_rd e"
  "bind_rd (bind_rd r f) g = bind_rd r (\<lambda>x. bind_rd (f x) g)"
  by (auto simp: bind_rd_def fun_eq_iff split: sum.splits)

lemma bind_rd_Inr: "r s = Inr (x, s') \<Longrightarrow> bind_rd r f s = f x s'"
  by (simp add: bind_rd_def)

lemma bind_rd_Inl: "r s = Inl e \<Longrightarrow> bind_rd r f s = Inl e"
  by (simp add: bind_rd_def)

section \<open>Numbers\<close>

text \<open>Conversion to \<^verbatim>\<open>int64_t\<close>.\<close>

definition int64 :: "int \<Rightarrow> int" where
  "int64 x = (x + 2 ^ 63) mod 2 ^ 64 - 2 ^ 63"

lemma int64_id: "- (2 ^ 63) \<le> x \<Longrightarrow> x < 2 ^ 63 \<Longrightarrow> int64 x = x"
  by (simp add: int64_def)

lemma int64_range: "- (2 ^ 63) \<le> int64 x \<and> int64 x < 2 ^ 63"
  by (simp add: int64_def)

text \<open>The eight bytes of a 64-bit integer in memory, on a little-endian machine.\<close>

primrec le_bytes :: "nat \<Rightarrow> int \<Rightarrow> buffer" where
  "le_bytes 0 n = []"
| "le_bytes (Suc k) n = word_of_int n # le_bytes k (n div 256)"

fun le_value :: "buffer \<Rightarrow> int" where
  "le_value [] = 0"
| "le_value (b # bs) = uint b + 256 * le_value bs"

text \<open>
  \<^verbatim>\<open>SerializerOut::serialize_number\<close>: the sign, the bits that tell the length and the
  absolute value. The negation of the smallest \<^verbatim>\<open>int64_t\<close> overflows and is that number
  again.
\<close>

definition number_bytes :: "bool \<Rightarrow> int \<Rightarrow> buffer" where
  "number_bytes neg n =
     (if n \<le> 0x3f then [word_of_int ((if neg then 0x80 else 0) + n)]
      else if n \<le> 0x1fff then [word_of_int ((if neg then 0xC0 else 0x40) + n div 2 ^ 8), word_of_int n]
      else if n \<le> 0x0fffff then
        [word_of_int ((if neg then 0xe0 else 0x60) + n div 2 ^ 16), word_of_int (n div 2 ^ 8), word_of_int n]
      else (if neg then 0xFF else 0x7F) # le_bytes 8 n)"

definition serialize_number :: "int \<Rightarrow> buffer" where
  "serialize_number n' =
     (let neg = n' < 0; n = (if neg then int64 (- n') else n') in number_bytes neg n)"

text \<open>\<^verbatim>\<open>get\<close> of SerializerIn.cc.\<close>

fun get_byte :: "byte reader" where
  "get_byte [] = Inl EndOfStream"
| "get_byte (c # s) = Inr (c, s)"

definition deserialize_number :: "int reader" where
  "deserialize_number = bind_rd get_byte (\<lambda>c.
     let negative = c AND 0x80 \<noteq> 0; res = (\<lambda>value. if negative then int64 (- value) else value) in
     if c AND 0x40 = 0 then return_rd (res (uint (c AND 0x3f)))
     else if c AND 0x20 = 0 then
       bind_rd get_byte (\<lambda>c2. return_rd (res (uint (c AND 0x1F) * 2 ^ 8 + uint c2)))
     else if c AND 0x10 = 0 then
       bind_rd get_byte (\<lambda>c2. bind_rd get_byte (\<lambda>c3.
         return_rd (res (uint (c AND 0x0F) * 2 ^ 16 + uint c2 * 2 ^ 8 + uint c3))))
     else (\<lambda>s. if length s < 8 then Inl Uninitialised
               else Inr (res (int64 (le_value (take 8 s))), drop 8 s)))"

section \<open>Integers of each width\<close>

text \<open>
  \<^verbatim>\<open>SerializerIn::_serialize_int\<close>, with the limits of the type as arguments. An unsigned
  64-bit integer travels as the signed one of the same bits.
\<close>

definition deserialize_int :: "int \<Rightarrow> int \<Rightarrow> int reader" where
  "deserialize_int lo hi = bind_rd deserialize_number (\<lambda>v.
     if hi < v then fail_rd Overflow else if v < lo then fail_rd Overflow else return_rd v)"

definition serialize_uint64 :: "int \<Rightarrow> buffer" where
  "serialize_uint64 v = serialize_number (int64 v)"

definition deserialize_uint64 :: "int reader" where
  "deserialize_uint64 = bind_rd deserialize_number (\<lambda>v. return_rd (v mod 2 ^ 64))"

definition deserialize_int32 :: "int reader" where
  "deserialize_int32 = deserialize_int (- (2 ^ 31)) (2 ^ 31 - 1)"

definition serialize_uint8 :: "byte \<Rightarrow> buffer" where
  "serialize_uint8 v = serialize_number (uint v)"

definition deserialize_uint8 :: "byte reader" where
  "deserialize_uint8 = bind_rd (deserialize_int 0 255) (\<lambda>v. return_rd (word_of_int v))"

definition serialize_bool :: "bool \<Rightarrow> buffer" where
  "serialize_bool v = serialize_number (if v then 1 else 0)"

definition deserialize_bool :: "bool reader" where
  "deserialize_bool = bind_rd deserialize_int32 (\<lambda>v.
     if v \<noteq> 0 \<and> v \<noteq> 1 then fail_rd Overflow else return_rd (v \<noteq> 0))"

section \<open>Buffers, strings, options and arrays\<close>

definition serialize_buffer :: "buffer \<Rightarrow> buffer" where
  "serialize_buffer b = serialize_number (int (length b)) @ b"

text \<open>The size is read into an \<^verbatim>\<open>int\<close>.\<close>

definition deserialize_buffer :: "buffer reader" where
  "deserialize_buffer = bind_rd deserialize_number (\<lambda>n s.
     let sz = int32 n in
     if sz < 0 then Inl BadAlloc
     else if int (length s) < sz then Inl (ShortRead sz (int (length s)))
     else Inr (take (nat sz) s, drop (nat sz) s))"

definition string_of :: "buffer \<Rightarrow> string" where
  "string_of = map (\<lambda>b. char_of (unat b))"

definition serialize_string :: "string \<Rightarrow> buffer" where
  "serialize_string s = serialize_buffer (bytes_of s)"

definition deserialize_string :: "string reader" where
  "deserialize_string = bind_rd deserialize_buffer (\<lambda>b. return_rd (string_of b))"

definition serialize_option :: "'a writer \<Rightarrow> 'a option writer" where
  "serialize_option wr x = (case x of None \<Rightarrow> serialize_bool False | Some v \<Rightarrow> serialize_bool True @ wr v)"

definition deserialize_option :: "'a reader \<Rightarrow> 'a option reader" where
  "deserialize_option rd = bind_rd deserialize_bool (\<lambda>filled.
     if filled then bind_rd rd (\<lambda>v. return_rd (Some v)) else return_rd None)"

definition serialize_array :: "'a writer \<Rightarrow> 'a list writer" where
  "serialize_array wr xs = serialize_number (int32 (int (length xs))) @ concat (map wr xs)"

text \<open>The loop over the elements of an array; a negative count reads none.\<close>

primrec read_elements :: "nat \<Rightarrow> 'a reader \<Rightarrow> 'a list reader" where
  "read_elements 0 rd = return_rd []"
| "read_elements (Suc n) rd = bind_rd rd (\<lambda>x. bind_rd (read_elements n rd) (\<lambda>xs. return_rd (x # xs)))"

definition deserialize_array :: "'a reader \<Rightarrow> 'a list reader" where
  "deserialize_array rd = bind_rd deserialize_number (\<lambda>n. read_elements (nat (int32 n)) rd)"

text \<open>
  A pair is an array of two. The reader of a pair throws on a third element and on a
  missing one.
\<close>

definition serialize_pair :: "'a writer \<Rightarrow> 'b writer \<Rightarrow> ('a \<times> 'b) writer" where
  "serialize_pair wa wb p = serialize_number 2 @ wa (fst p) @ wb (snd p)"

definition deserialize_pair :: "'a reader \<Rightarrow> 'b reader \<Rightarrow> ('a \<times> 'b) reader" where
  "deserialize_pair ra rb = bind_rd deserialize_number (\<lambda>n.
     let count = int32 n in
     if count < 1 then fail_rd (ConvertErr ''too few value to unpack for a pair'')
     else bind_rd ra (\<lambda>x.
       if count < 2 then fail_rd (ConvertErr ''too few value to unpack for a pair'')
       else bind_rd rb (\<lambda>y.
         if 2 < count then fail_rd (ConvertErr ''too many values to unpack for a pair'')
         else return_rd (x, y))))"

section \<open>Versions and the magic byte\<close>

definition serialize_version :: "version \<Rightarrow> buffer" where
  "serialize_version v =
     serialize_uint8 (major v) @ serialize_uint8 (minor v) @ serialize_uint8 (subminor v)"

definition deserialize_version :: "version reader" where
  "deserialize_version =
     bind_rd deserialize_uint8 (\<lambda>a. bind_rd deserialize_uint8 (\<lambda>b. bind_rd deserialize_uint8 (\<lambda>c.
       return_rd (Version a b c))))"

definition write_magic :: buffer where
  "write_magic = [0]"

fun check_magic :: "unit reader" where
  "check_magic [] = Inl NoMagic"
| "check_magic (m # s) = (if m \<noteq> 0 then Inl (WrongMagic m) else Inr ((), s))"

section \<open>Writers and readers that fit\<close>

locale codec =
  fixes wr :: "'a writer" and rd :: "'a reader" and ok :: "'a \<Rightarrow> bool"
  assumes roundtrip: "ok x \<Longrightarrow> rd (wr x @ rest) = Inr (x, rest)"
begin

lemma bind_roundtrip [simp]: "ok x \<Longrightarrow> bind_rd rd f (wr x @ rest) = f x rest"
  by (simp add: bind_rd_def roundtrip)

lemma whole: "ok x \<Longrightarrow> rd (wr x) = Inr (x, [])"
  using roundtrip [of x "[]"] by simp

text \<open>What is written delimits itself: no value's bytes are a prefix of another's.\<close>

lemma prefix_free:
  assumes "ok x" and "ok y" and "wr x @ s = wr y @ t"
  shows "x = y \<and> s = t"
proof -
  have "rd (wr x @ s) = rd (wr y @ t)" by (simp only: assms(3))
  then show ?thesis using assms(1,2) by (simp add: roundtrip)
qed

end

section \<open>Numbers\<close>

lemma le_value_le_bytes: "le_value (le_bytes k n) = n mod 256 ^ k"
proof (induction k arbitrary: n)
  case (Suc k)
  have "n mod (256 * 256 ^ k) = 256 * (n div 256 mod 256 ^ k) + n mod 256"
    by (simp add: zmod_zmult2_eq)
  then show ?case by (simp add: Suc uint_word_of_int)
qed simp

lemma length_le_bytes [simp]: "length (le_bytes k n) = k"
  by (induction k arbitrary: n) simp_all

text \<open>
  The first byte of a number: the sign bit, the bits that tell its length and its value
  bits, by evaluation on every first byte of each length.
\<close>

lemma head_1:
  assumes "0 \<le> n" and "n \<le> 0x3f" and "c = word_of_int ((if neg then 0x80 else 0) + n)"
  shows "(c AND 0x80 \<noteq> 0) = neg \<and> c AND 0x40 = 0 \<and> uint (c AND 0x3f :: byte) = n"
proof -
  have "\<forall>neg. \<forall>n \<in> set [0..0x3f]. let c = word_of_int ((if neg then 0x80 else 0) + n) :: byte in
      (c AND 0x80 \<noteq> 0) = neg \<and> c AND 0x40 = 0 \<and> uint (c AND 0x3f) = n" by code_simp
  then show ?thesis using assms by (simp add: Let_def)
qed

lemma head_2:
  assumes "0 \<le> n" and "n \<le> 0x1f" and "c = word_of_int ((if neg then 0xC0 else 0x40) + n)"
  shows "(c AND 0x80 \<noteq> 0) = neg \<and> c AND 0x40 \<noteq> 0 \<and> c AND 0x20 = 0 \<and> uint (c AND 0x1F :: byte) = n"
proof -
  have "\<forall>neg. \<forall>n \<in> set [0..0x1f]. let c = word_of_int ((if neg then 0xC0 else 0x40) + n) :: byte in
      (c AND 0x80 \<noteq> 0) = neg \<and> c AND 0x40 \<noteq> 0 \<and> c AND 0x20 = 0 \<and> uint (c AND 0x1F) = n" by code_simp
  then show ?thesis using assms by (simp add: Let_def)
qed

lemma head_3:
  assumes "0 \<le> n" and "n \<le> 0xf" and "c = word_of_int ((if neg then 0xe0 else 0x60) + n)"
  shows "(c AND 0x80 \<noteq> 0) = neg \<and> c AND 0x40 \<noteq> 0 \<and> c AND 0x20 \<noteq> 0 \<and> c AND 0x10 = 0 \<and>
    uint (c AND 0x0F :: byte) = n"
proof -
  have "\<forall>neg. \<forall>n \<in> set [0..0xf]. let c = word_of_int ((if neg then 0xe0 else 0x60) + n) :: byte in
      (c AND 0x80 \<noteq> 0) = neg \<and> c AND 0x40 \<noteq> 0 \<and> c AND 0x20 \<noteq> 0 \<and> c AND 0x10 = 0 \<and>
      uint (c AND 0x0F) = n" by code_simp
  then show ?thesis using assms by (simp add: Let_def)
qed

lemma head_9:
  assumes "c = (if neg then 0xFF else 0x7F :: byte)"
  shows "(c AND 0x80 \<noteq> 0) = neg \<and> c AND 0x40 \<noteq> 0 \<and> c AND 0x20 \<noteq> 0 \<and> c AND 0x10 \<noteq> 0"
  using assms by simp

lemma deserialize_absolute:
  assumes "0 \<le> n" and "n < 2 ^ 63"
  shows "deserialize_number (number_bytes neg n @ rest) = Inr (if neg then - n else n, rest)"
proof -
  consider "n \<le> 0x3f" | "0x3f < n" "n \<le> 0x1fff" | "0x1fff < n" "n \<le> 0x0fffff" | "0x0fffff < n" by linarith
  then show ?thesis
  proof cases
    case 1
    note h = head_1 [OF assms(1) 1 refl, of neg]
    show ?thesis using 1 assms h by (cases neg) (simp_all add: number_bytes_def deserialize_number_def bind_rd_def Let_def int64_id)
  next
    case 2
    have "n div 2 ^ 8 \<le> 0x1f" using 2 by simp
    note h = head_2 [OF _ this refl, of neg]
    have "n div 256 * 256 + n mod 256 = n" "- (n div 256 * 256) - n mod 256 = - n" by presburger+
    then show ?thesis using 2 assms h
      by (cases neg) (simp_all add: number_bytes_def deserialize_number_def bind_rd_def Let_def uint_word_of_int int64_id)
  next
    case 3
    have "n div 2 ^ 16 \<le> 0xf" using 3 by simp
    note h = head_3 [OF _ this refl, of neg]
    have "n div 65536 = n div 256 div 256" by (simp add: div_mult2_eq')
    then have "n div 65536 * 65536 + (n div 256 mod 256) * 256 + n mod 256 = n"
      using div_mult_mod_eq [of "n div 256" 256] div_mult_mod_eq [of n 256] by linarith
    then have "n div 65536 * 65536 + (n div 256 mod 256) * 256 + n mod 256 = n"
      "- (n div 65536 * 65536) - (n div 256 mod 256) * 256 - n mod 256 = - n" by linarith+
    then show ?thesis using 3 assms h
      by (cases neg) (simp_all add: number_bytes_def deserialize_number_def bind_rd_def Let_def uint_word_of_int int64_id)
  next
    case 4
    note h = head_9 [OF refl, of neg]
    show ?thesis using 4 assms h
      by (cases neg) (simp_all add: number_bytes_def deserialize_number_def bind_rd_def Let_def le_value_le_bytes int64_id del: le_bytes.simps)
  qed
qed

lemma deserialize_serialize_number:
  assumes "- (2 ^ 63) < n" and "n < 2 ^ 63"
  shows "deserialize_number (serialize_number n @ rest) = Inr (n, rest)"
proof (cases "n < 0")
  case True
  with assms have "0 \<le> - n" "- n < 2 ^ 63" "int64 (- n) = - n" by (simp_all add: int64_id)
  from deserialize_absolute [OF this(1,2), of True rest] True this(3) show ?thesis
    by (simp add: serialize_number_def Let_def)
next
  case False
  with deserialize_absolute [of n False rest] assms show ?thesis by (simp add: serialize_number_def Let_def)
qed

interpretation num: codec serialize_number deserialize_number "\<lambda>n. - (2 ^ 63) < n \<and> n < 2 ^ 63"
  by unfold_locales (simp add: deserialize_serialize_number)

section \<open>The other types\<close>

lemma codec_int:
  assumes "- (2 ^ 63) < lo" and "hi < 2 ^ 63"
  shows "codec serialize_number (deserialize_int lo hi) (\<lambda>n. lo \<le> n \<and> n \<le> hi)"
  using assms by unfold_locales (auto simp: deserialize_int_def)

interpretation i32: codec serialize_number deserialize_int32 "\<lambda>n. - (2 ^ 31) \<le> n \<and> n \<le> 2 ^ 31 - 1"
  unfolding deserialize_int32_def by (rule codec_int) simp_all

interpretation u64: codec serialize_uint64 deserialize_uint64 "\<lambda>n. 0 \<le> n \<and> n < 2 ^ 64 \<and> n \<noteq> 2 ^ 63"
proof
  fix n :: int and rest
  assume n: "0 \<le> n \<and> n < 2 ^ 64 \<and> n \<noteq> 2 ^ 63"
  have "- (2 ^ 63) < int64 n \<and> int64 n < 2 ^ 63 \<and> int64 n mod 2 ^ 64 = n"
  proof (cases "n < 2 ^ 63")
    case True
    with n show ?thesis by (simp add: int64_def)
  next
    case False
    have "(n + 2 ^ 63) mod 2 ^ 64 = (n - 2 ^ 63) mod 2 ^ 64"
      using mod_add_self2 [of "n - 2 ^ 63" "2 ^ 64"] by (simp add: add.commute)
    then have "int64 n = n - 2 ^ 64" using n False by (simp add: int64_def)
    then show ?thesis using n False by (simp add: mod_diff_left_eq)
  qed
  then show "deserialize_uint64 (serialize_uint64 n @ rest) = Inr (n, rest)"
    by (simp add: deserialize_uint64_def serialize_uint64_def)
qed

interpretation i8: codec serialize_number "deserialize_int 0 255" "\<lambda>n. 0 \<le> n \<and> n \<le> 255"
  by (rule codec_int) simp_all

interpretation u8: codec serialize_uint8 deserialize_uint8 "\<lambda>_. True"
proof
  fix v :: byte and rest
  have "uint v \<le> 255" using uint_lt2p [of v] by simp
  then show "deserialize_uint8 (serialize_uint8 v @ rest) = Inr (v, rest)"
    by (simp add: deserialize_uint8_def serialize_uint8_def)
qed

interpretation bl: codec serialize_bool deserialize_bool "\<lambda>_. True"
  by unfold_locales (simp add: deserialize_bool_def serialize_bool_def)

interpretation buf: codec serialize_buffer deserialize_buffer "\<lambda>b. int (length b) < 2 ^ 31"
  by unfold_locales (simp add: deserialize_buffer_def serialize_buffer_def int32_id Let_def)

lemma string_of_bytes_of [simp]: "string_of (bytes_of s) = s"
  by (induction s) (simp_all add: string_of_def bytes_of_def unsigned_of_nat take_bit_eq_mod)

interpretation str: codec serialize_string deserialize_string "\<lambda>s. int (length s) < 2 ^ 31"
proof
  fix x :: string and rest
  assume "int (length x) < 2 ^ 31"
  then have "int (length (bytes_of x)) < 2 ^ 31" by (simp add: bytes_of_def)
  then show "deserialize_string (serialize_string x @ rest) = Inr (x, rest)"
    by (simp add: deserialize_string_def serialize_string_def)
qed

interpretation ver: codec serialize_version deserialize_version "\<lambda>_. True"
  by unfold_locales (simp add: deserialize_version_def serialize_version_def)

text \<open>Options, arrays and pairs of types that have a codec have one.\<close>

lemma codec_option:
  assumes "codec wr rd ok"
  shows "codec (serialize_option wr) (deserialize_option rd) (pred_option ok)"
proof
  fix x :: "'a option" and rest
  assume "pred_option ok x"
  then show "deserialize_option rd (serialize_option wr x @ rest) = Inr (x, rest)"
    by (cases x) (simp_all add: deserialize_option_def serialize_option_def codec.bind_roundtrip [OF assms])
qed

lemma read_elements_roundtrip:
  assumes "codec wr rd ok" and "list_all ok xs"
  shows "read_elements (length xs) rd (concat (map wr xs) @ rest) = Inr (xs, rest)"
  using assms(2)
proof (induction xs)
  case (Cons x xs)
  then have "read_elements (length xs) rd (concat (map wr xs) @ rest) = Inr (xs, rest)" by simp
  then have "bind_rd (read_elements (length xs) rd) f (concat (map wr xs) @ rest) = f xs rest" for f :: "'a list \<Rightarrow> 'a list reader"
    by (rule bind_rd_Inr)
  with Cons.prems show ?case by (simp add: codec.bind_roundtrip [OF assms(1)])
qed simp

lemma codec_array:
  assumes "codec wr rd ok"
  shows "codec (serialize_array wr) (deserialize_array rd) (\<lambda>xs. list_all ok xs \<and> int (length xs) < 2 ^ 31)"
  by unfold_locales
    (simp add: deserialize_array_def serialize_array_def int32_id read_elements_roundtrip [OF assms])

lemma codec_pair:
  assumes "codec wa ra oka" and "codec wb rb okb"
  shows "codec (serialize_pair wa wb) (deserialize_pair ra rb) (\<lambda>p. oka (fst p) \<and> okb (snd p))"
  by unfold_locales
    (simp add: deserialize_pair_def serialize_pair_def int32_id Let_def
      codec.bind_roundtrip [OF assms(1)] codec.bind_roundtrip [OF assms(2)])

section \<open>What is read\<close>

text \<open>
  Whatever the bytes of the stream, a reader consumes what it reads from the front and
  its value is in the range of its type.
\<close>

definition reads :: "'a reader \<Rightarrow> ('a \<Rightarrow> bool) \<Rightarrow> bool" where
  "reads rd P \<longleftrightarrow> (\<forall>s x t. rd s = Inr (x, t) \<longrightarrow> P x \<and> (\<exists>p. s = p @ t))"

lemma reads_bind:
  assumes "reads r P" and "\<And>x. P x \<Longrightarrow> reads (f x) Q"
  shows "reads (bind_rd r f) Q"
  unfolding reads_def
proof (intro allI impI)
  fix s x t
  assume "bind_rd r f s = Inr (x, t)"
  then obtain y u where y: "r s = Inr (y, u)" "f y u = Inr (x, t)"
    by (auto simp: bind_rd_def split: sum.splits)
  then obtain p where "P y" "s = p @ u" using assms(1) unfolding reads_def by blast
  moreover from this obtain q where "Q x" "u = q @ t" using assms(2) y(2) by (fastforce simp: reads_def)
  ultimately show "Q x \<and> (\<exists>p. s = p @ t)" by auto
qed

lemma reads_return [simp]: "reads (return_rd x) P \<longleftrightarrow> P x"
  by (auto simp: reads_def)

lemma reads_fail [simp]: "reads (fail_rd e) P"
  by (simp add: reads_def)

lemma reads_mono: "reads r P \<Longrightarrow> (\<And>x. P x \<Longrightarrow> Q x) \<Longrightarrow> reads r Q"
  by (auto simp: reads_def)

lemma reads_get_byte: "reads get_byte (\<lambda>_. True)"
  unfolding reads_def
proof (intro allI impI)
  fix s x t
  assume "get_byte s = Inr (x, t)"
  then have "s = [x] @ t" by (cases s) simp_all
  then show "True \<and> (\<exists>p. s = p @ t)" by blast
qed

lemma uint_byte: "0 \<le> uint (b :: byte)" "uint (b :: byte) \<le> 255"
  using uint_lt2p [of b] by simp_all

lemma reads_number: "reads deserialize_number (\<lambda>n. - (2 ^ 63) \<le> n \<and> n < 2 ^ 63)" (is "reads _ ?R")
proof -
  have res: "?R (if neg then int64 (- v) else v)" if "?R v" for neg v
    using that int64_range [of "- v"] by simp
  have big: "- (2 ^ 63) \<le> (- 100000000 :: int)" "(100000000 :: int) < 2 ^ 63" "(2 :: int) ^ 8 = 256" "(2 :: int) ^ 16 = 65536"
    by simp_all
  have one: "?R (uint (c AND 0x3f))" for c :: byte
    using uint_byte [of "c AND 0x3f"] big by (intro conjI) linarith+
  have two: "?R (uint (c AND 0x1F) * 2 ^ 8 + uint d)" for c d :: byte
    using uint_byte [of "c AND 0x1F"] uint_byte [of d] big(1,2) unfolding big(3,4)
    by (intro conjI) linarith+
  have three: "?R (uint (c AND 0x0F) * 2 ^ 16 + uint d * 2 ^ 8 + uint e)" for c d e :: byte
    using uint_byte [of "c AND 0x0F"] uint_byte [of d] uint_byte [of e] big(1,2) unfolding big(3,4)
    by (intro conjI) linarith+
  have nine: "reads (\<lambda>s. if length s < 8 then Inl Uninitialised
      else Inr (if neg then int64 (- int64 (le_value (take 8 s))) else int64 (le_value (take 8 s)), drop 8 s)) ?R" for neg
    unfolding reads_def using res [OF int64_range] by (auto split: if_splits intro: append_take_drop_id [symmetric])
  show ?thesis
    unfolding deserialize_number_def Let_def
    by (rule reads_bind [OF reads_get_byte])
      (auto intro!: reads_bind [OF reads_get_byte] nine simp: res [OF one] res [OF two] res [OF three]
        simp del: power_numeral)
qed

lemma reads_int: "reads (deserialize_int lo hi) (\<lambda>n. lo \<le> n \<and> n \<le> hi)"
  unfolding deserialize_int_def by (rule reads_bind [OF reads_number]) auto

lemma reads_buffer: "reads deserialize_buffer (\<lambda>b. int (length b) < 2 ^ 31)"
  unfolding deserialize_buffer_def
proof (rule reads_bind [OF reads_number])
  fix n
  show "reads (\<lambda>s. let sz = int32 n in if sz < 0 then Inl BadAlloc
      else if int (length s) < sz then Inl (ShortRead sz (int (length s)))
      else Inr (take (nat sz) s, drop (nat sz) s)) (\<lambda>b. int (length b) < 2 ^ 31)"
    unfolding reads_def Let_def using int32_range [of n]
    by (auto split: if_splits intro: append_take_drop_id [symmetric])
qed

lemma reads_elements:
  assumes "reads rd P"
  shows "reads (read_elements n rd) (\<lambda>xs. list_all P xs \<and> length xs = n)"
proof (induction n)
  case (Suc n)
  then show ?case by (auto intro!: reads_bind [OF assms] reads_bind [OF Suc])
qed (simp add: reads_def)

lemma reads_array: "reads rd P \<Longrightarrow> reads (deserialize_array rd) (\<lambda>xs. list_all P xs \<and> int (length xs) < 2 ^ 31)"
  unfolding deserialize_array_def
proof (rule reads_bind [OF reads_number])
  fix n
  assume rd: "reads rd P"
  have "int (nat (int32 n)) < 2 ^ 31" using int32_range [of n] by simp
  then show "reads (read_elements (nat (int32 n)) rd) (\<lambda>xs. list_all P xs \<and> int (length xs) < 2 ^ 31)"
    using reads_elements [OF rd, of "nat (int32 n)"] by (elim reads_mono) simp
qed

section \<open>Properties\<close>

text \<open>
  C36. A 64-bit number is written on one, two, three or nine bytes, according to its
  absolute value, and read back whatever follows it. Only the smallest one is lost: its
  negation overflows, it is written as a negative zero and read back as zero.
\<close>

theorem number_format:
  assumes "- (2 ^ 63) \<le> n" and "n < 2 ^ 63"
  shows "length (serialize_number n) =
      (if n = - (2 ^ 63) \<or> \<bar>n\<bar> \<le> 0x3f then 1 else if \<bar>n\<bar> \<le> 0x1fff then 2 else if \<bar>n\<bar> \<le> 0x0fffff then 3 else 9) \<and>
    deserialize_number (serialize_number n @ rest) = Inr (if n = - (2 ^ 63) then 0 else n, rest)"
proof (cases "n = - (2 ^ 63)")
  case True
  have "serialize_number (- (2 ^ 63)) = [0x80]" by code_simp
  moreover have "deserialize_number (0x80 # rest) = Inr (0, rest)"
    by (simp add: deserialize_number_def bind_rd_def int64_def Let_def)
  ultimately show ?thesis using True by simp
next
  case False
  then have "int64 (- n) = - n" using assms by (intro int64_id) auto
  then have "length (serialize_number n) =
      (if \<bar>n\<bar> \<le> 0x3f then 1 else if \<bar>n\<bar> \<le> 0x1fff then 2 else if \<bar>n\<bar> \<le> 0x0fffff then 3 else 9)"
    by (cases "n < 0") (simp_all add: serialize_number_def number_bytes_def Let_def)
  with False assms show ?thesis by (simp add: num.roundtrip del: power_numeral)
qed

theorem number_format_witness:
  "length (serialize_number 8191) = 2 \<and> deserialize_number (serialize_number 8191 @ [1]) = Inr (8191, [1]) \<and>
   deserialize_number (serialize_number (- (2 ^ 63)) @ [1]) = Inr (0, [1])"
  using number_format [of 8191 "[1]"] number_format [of "- (2 ^ 63)" "[1]"] by simp

text \<open>
  C37. Whatever the bytes received, a reader takes them from the front of the stream and
  what it returns is in the range of its type: integers within the limits they were read
  with, buffers and arrays of less than two to the 31 elements.
\<close>

theorem reader_types:
  "reads deserialize_number (\<lambda>n. - (2 ^ 63) \<le> n \<and> n < 2 ^ 63) \<and>
   reads (deserialize_int lo hi) (\<lambda>n. lo \<le> n \<and> n \<le> hi) \<and>
   reads deserialize_buffer (\<lambda>b. int (length b) < 2 ^ 31) \<and>
   reads (deserialize_array (deserialize_int lo hi))
     (\<lambda>ns. list_all (\<lambda>n. lo \<le> n \<and> n \<le> hi) ns \<and> int (length ns) < 2 ^ 31)"
  by (intro conjI reads_number reads_int reads_buffer reads_array)

end
