(* ===== verification/Memo_Block.thy ===== *)
theory Memo_Block
  imports Memo_Address Elle_Version
begin

text \<open>
  The data of the block layer (src/memo/model/blocks and src/memo/model/doughnut):
  one record per block class, extending its base class, the sum of the classes a
  fetched block can belong to, remove signatures, validation results and what the
  blocks read of the \<^verbatim>\<open>Doughnut\<close> they belong to.

  RSA, SHA-256 and the symmetric cipher are OpenSSL's: they are the fields of the
  record \<open>crypto\<close>, a parameter of every operation, and what a theorem needs of
  them (a signature verifies under the matching public key, what is sealed for a
  key can be opened with it) is a hypothesis of that theorem. Public keys have type
  \<open>'k\<close> and private keys type \<open>'s\<close>. Objects are signed in serialized form; a
  \<open>payload\<close> lists the fields the serializer is given, in order.
\<close>

section \<open>Errors and validation results\<close>

datatype blk_error =
    ElleErr string
  | ValidationErr string
  | MissingBlock address
  | AssertErr
  | UndefinedBehaviour
  | NoFuel

text \<open>
  \<^verbatim>\<open>catch (elle::Error const&)\<close> does not catch failed assertions. Two constructors are
  not exceptions: \<open>UndefinedBehaviour\<close> stands for a null pointer or an index out of
  range being dereferenced, and \<open>NoFuel\<close> for a model that was given too little fuel.
\<close>

fun is_elle_error :: "blk_error \<Rightarrow> bool" where
  "is_elle_error AssertErr = False"
| "is_elle_error UndefinedBehaviour = False"
| "is_elle_error NoFuel = False"
| "is_elle_error _ = True"

record validation_result =
  vr_reason :: string
  vr_success :: bool
  vr_is_conflict :: bool

definition vr_ok :: validation_result where
  "vr_ok = \<lparr>vr_reason = ''success'', vr_success = True, vr_is_conflict = False\<rparr>"

definition vr_failure :: "string \<Rightarrow> validation_result" where
  "vr_failure r = \<lparr>vr_reason = r, vr_success = False, vr_is_conflict = False\<rparr>"

definition vr_conflict :: "string \<Rightarrow> validation_result" where
  "vr_conflict r = \<lparr>vr_reason = r, vr_success = False, vr_is_conflict = True\<rparr>"

lemma vr_success_simps [simp]:
  "vr_success vr_ok" "\<not> vr_success (vr_failure r)" "\<not> vr_success (vr_conflict r)"
  by (simp_all add: vr_ok_def vr_failure_def vr_conflict_def)

lemma vr_conflict_simps [simp]:
  "\<not> vr_is_conflict vr_ok" "\<not> vr_is_conflict (vr_failure r)" "vr_is_conflict (vr_conflict r)"
  by (simp_all add: vr_ok_def vr_failure_def vr_conflict_def)

text \<open>Validation proceeds while the parts succeed and returns the first failure.\<close>

definition vr_then ::
  "blk_error + validation_result \<Rightarrow> (unit \<Rightarrow> blk_error + validation_result)
     \<Rightarrow> blk_error + validation_result" where
  "vr_then r f = bind_res r (\<lambda>v. if vr_success v then f () else Inr v)"

lemma vr_then_simps [simp]:
  "vr_then (Inl e) f = Inl e"
  "vr_then (Inr vr_ok) f = f ()"
  "vr_then (Inr (vr_failure s)) f = Inr (vr_failure s)"
  "vr_then (Inr (vr_conflict s)) f = Inr (vr_conflict s)"
  by (simp_all add: vr_then_def)

lemma vr_then_success:
  "(\<exists>v. vr_then r f = Inr v \<and> vr_success v) \<longleftrightarrow>
     (\<exists>v. r = Inr v \<and> vr_success v) \<and> (\<exists>v. f () = Inr v \<and> vr_success v)"
  by (cases r) (auto simp: vr_then_def)

lemma vr_then_success_dest:
  "vr_then r f = Inr v \<Longrightarrow> vr_success v \<Longrightarrow> \<exists>u. r = Inr u \<and> vr_success u \<and> f () = Inr v"
  by (cases r) (auto simp: vr_then_def split: if_splits)

section \<open>Keys, signatures and signed objects\<close>

record 'k acl_entry =
  acl_key :: 'k
  acl_read :: bool
  acl_write :: bool
  acl_token :: buffer

record 'k passport =
  pp_user :: 'k
  pp_network :: string
  pp_signature :: buffer
  pp_certifier :: "'k option"
  pp_allow_write :: bool
  pp_allow_storage :: bool
  pp_allow_sign :: bool

text \<open>The fields the owner of a block signs, for each block class.\<close>

datatype 'k owner_body =
    OwnerData buffer
  | OwnerACL "('k \<times> bool \<times> bool) list"
      "(('k \<times> bool \<times> bool) list \<times> bool \<times> bool) option"
      "('k \<rightharpoonup> buffer) option"

datatype 'k payload =
    Bytes buffer
  | OwnerObject buffer 'k int "'k owner_body"
  | DataObject buffer 'k int buffer buffer "'k acl_entry list"
      "('k acl_entry list \<times> int list \<times> bool) option"
      "('k list \<times> string option option) option"
  | NamedObject bool string buffer
  | UserObject address buffer address string 'k bool "'k passport option"
  | Fingerprint 'k string "(bool \<times> bool \<times> bool) option"

record signature =
  sig_version :: version
  sig_bytes :: buffer

record ('k, 's) crypto =
  ci_sha256 :: "buffer \<Rightarrow> buffer"
  ci_der :: "'k \<Rightarrow> buffer"
  ci_json :: "'k \<Rightarrow> buffer"
  ci_sign :: "'s \<Rightarrow> 'k payload \<Rightarrow> buffer"
  ci_verify :: "'k \<Rightarrow> buffer \<Rightarrow> 'k payload \<Rightarrow> bool"
  ci_encrypt :: "'k \<Rightarrow> buffer \<Rightarrow> buffer"
  ci_decrypt :: "'s \<Rightarrow> buffer \<Rightarrow> buffer option"
  ci_seal :: "'k \<Rightarrow> buffer \<Rightarrow> buffer"
  ci_open :: "'s \<Rightarrow> buffer \<Rightarrow> buffer option"
  ci_encipher :: "buffer \<Rightarrow> buffer \<Rightarrow> buffer"
  ci_decipher :: "buffer \<Rightarrow> buffer \<Rightarrow> buffer option"
  ci_secret_pack :: "buffer \<Rightarrow> buffer"
  ci_secret_unpack :: "buffer \<Rightarrow> buffer option"
  ci_keys_pack :: "('k \<times> 's) list \<Rightarrow> buffer"
  ci_keys_unpack :: "buffer \<Rightarrow> ('k \<times> 's) list option"
  ci_private_pack :: "'s \<Rightarrow> buffer"
  ci_private_unpack :: "buffer \<Rightarrow> 's option"

text \<open>
  \<^verbatim>\<open>PrivateKey::sign(o, version)\<close> serializes the object at that version and puts the
  version in front of the signature; \<^verbatim>\<open>PublicKey::verify(signature, o)\<close> serializes
  the object at the version it reads from the signature.
\<close>

definition sign_object ::
  "('k, 's) crypto \<Rightarrow> 's \<Rightarrow> (version \<Rightarrow> 'k payload) \<Rightarrow> version \<Rightarrow> signature" where
  "sign_object ci s obj v = \<lparr>sig_version = v, sig_bytes = ci_sign ci s (obj v)\<rparr>"

definition verify_object ::
  "('k, 's) crypto \<Rightarrow> 'k \<Rightarrow> signature \<Rightarrow> (version \<Rightarrow> 'k payload) \<Rightarrow> bool" where
  "verify_object ci k sg obj = ci_verify ci k (sig_bytes sg) (obj (sig_version sg))"

text \<open>Pairs of keys that fit: what is signed, sealed or encrypted comes back.\<close>

definition key_pair :: "('k, 's) crypto \<Rightarrow> 'k \<Rightarrow> 's \<Rightarrow> bool" where
  "key_pair ci K k \<longleftrightarrow>
     (\<forall>p. ci_verify ci K (ci_sign ci k p) p) \<and>
     (\<forall>b. ci_decrypt ci k (ci_encrypt ci K b) = Some b) \<and>
     (\<forall>b. ci_open ci k (ci_seal ci K b) = Some b)"

lemma verify_sign_object:
  "key_pair ci K k \<Longrightarrow> verify_object ci K (sign_object ci k obj v) obj"
  by (simp add: key_pair_def verify_object_def sign_object_def)

section \<open>Blocks\<close>

record block =
  blk_address :: address
  blk_data :: buffer
  blk_owner :: address
  blk_validated :: bool

record chb = block +
  chb_salt :: buffer

record 'k nb = block +
  nb_owner :: 'k
  nb_name :: string
  nb_signature :: buffer

record 'k ub = block +
  ub_name :: string
  ub_key :: 'k
  ub_reverse :: bool
  ub_passport :: "'k passport option"

record mblock = block +
  mb_data_changed :: bool
  mb_seal_version :: "int option"

record ('k, 's) okb = mblock +
  okb_salt :: buffer
  okb_owner_key :: 'k
  okb_header_signature :: buffer
  okb_version :: int
  okb_signature :: "signature option"
  okb_owner_private_key :: "'s option"
  okb_data_plain :: buffer
  okb_data_decrypted :: bool

record ('k, 's) acb = "('k, 's) okb" +
  acb_editor :: int
  acb_owner_token :: buffer
  acb_acl_changed :: bool
  acb_acl_entries :: "'k acl_entry list"
  acb_acl_group_entries :: "'k acl_entry list"
  acb_group_version :: "int list"
  acb_data_version :: int
  acb_data_signature :: "signature option"
  acb_world_readable :: bool
  acb_world_writable :: bool
  acb_deleted :: bool
  acb_sign_key :: "'s option"
  acb_seal_version :: version

record ('k, 's) gb = "('k, 's) acb" +
  gb_keys :: "('k \<times> 's) list"
  gb_public_keys :: "'k list"
  gb_admin_keys :: "'k \<rightharpoonup> buffer"
  gb_description :: "string option"

datatype ('k, 's) any_block =
    PlainBlock block
  | CHB chb
  | NB "'k nb"
  | UB "'k ub"
  | OKB "('k, 's) okb"
  | ACB "('k, 's) acb"
  | GB "('k, 's) gb"

record ('k, 's) remove_signature =
  rs_block :: "('k, 's) any_block option"
  rs_group_key :: "'k option"
  rs_group_index :: "int option"
  rs_signature_key :: "'k option"
  rs_signature :: "buffer option"

definition rs_empty :: "('k, 's) remove_signature" where
  "rs_empty = \<lparr>rs_block = None, rs_group_key = None, rs_group_index = None,
     rs_signature_key = None, rs_signature = None\<rparr>"

section \<open>The network a block belongs to\<close>

text \<open>
  What blocks read of their \<^verbatim>\<open>Doughnut\<close>: its compatibility version, the key pair of
  the user, the owner of the network, the administrator keys, whether signatures
  are validated, the result of fetching an address (\<open>None\<close> is a null pointer) and
  the stack of groups being opened (\<^verbatim>\<open>Group::_stack\<close>).
\<close>

record 'k admin_keys =
  ak_r :: "'k list"
  ak_w :: "'k list"
  ak_group_r :: "'k list"
  ak_group_w :: "'k list"

record ('k, 's) doughnut =
  dn_version :: version
  dn_K :: 'k
  dn_k :: 's
  dn_owner :: 'k
  dn_admin_keys :: "'k admin_keys"
  dn_validate_signatures :: bool
  dn_fetch :: "address \<Rightarrow> blk_error + ('k, 's) any_block option"
  dn_stack :: "'k list"

section \<open>Operations of the base classes\<close>

definition block_new :: "address \<Rightarrow> buffer \<Rightarrow> address \<Rightarrow> block" where
  "block_new a dat ow =
     \<lparr>blk_address = a, blk_data = dat, blk_owner = ow, blk_validated = False\<rparr>"

definition block_eq :: "'a block_scheme \<Rightarrow> 'b block_scheme \<Rightarrow> bool" where
  "block_eq b c \<longleftrightarrow> addr_eq (blk_address c) (blk_address b) \<and> blk_data c = blk_data b"

text \<open>
  \<^verbatim>\<open>Block::validate(model, writing)\<close> caches a success. The class's own
  \<^verbatim>\<open>_validate\<close> is the first argument.
\<close>

definition block_validate ::
  "('a block_scheme \<Rightarrow> blk_error + validation_result) \<Rightarrow> 'a block_scheme
     \<Rightarrow> blk_error + validation_result \<times> 'a block_scheme" where
  "block_validate chk b =
     (if blk_validated b then Inr (vr_ok, b)
      else bind_res (chk b) (\<lambda>r. Inr (r, b\<lparr>blk_validated := vr_success r\<rparr>)))"

text \<open>\<^verbatim>\<open>Block::_validate(model, new_block)\<close>: the block about to be replaced checks the new one.\<close>

definition block_validate_over :: "'a block_scheme \<Rightarrow> 'b block_scheme \<Rightarrow> validation_result" where
  "block_validate_over b new =
     (if \<not> addr_eq (blk_address b) (blk_address new)
      then vr_failure (''Addresses do not match (old '' @ addr_print_hex (blk_address b) @
             '' new '' @ addr_print_hex (blk_address new) @ '')'')
      else vr_ok)"

definition address_invalid :: "address \<Rightarrow> address \<Rightarrow> validation_result" where
  "address_invalid a expected =
     vr_failure (''address '' @ addr_print_hex a @ '' invalid, expecting '' @ addr_print_hex expected)"

lemma address_invalid_fails [simp]: "\<not> vr_success (address_invalid a e)"
  by (simp add: address_invalid_def)

definition mblock_new :: "address \<Rightarrow> buffer \<Rightarrow> address \<Rightarrow> mblock" where
  "mblock_new a dat ow = block.extend (block_new a dat ow)
     \<lparr>mb_data_changed = True, mb_seal_version = None\<rparr>"

definition mblock_set_data :: "buffer \<Rightarrow> 'a mblock_scheme \<Rightarrow> 'a mblock_scheme" where
  "mblock_set_data dat b = b\<lparr>blk_data := dat, mb_data_changed := True\<rparr>"

lemma block_validate_cached:
  "block_validate chk b = Inr (r, b') \<Longrightarrow> vr_success r \<Longrightarrow> blk_validated b'"
  by (auto simp: block_validate_def bind_res_eq_Inr split: if_splits)

lemma block_validate_checked:
  assumes "block_validate chk b = Inr (r, b')" and "vr_success r" and "\<not> blk_validated b"
  shows "\<exists>v. chk b = Inr v \<and> vr_success v"
  using assms by (auto simp: block_validate_def bind_res_eq_Inr)

section \<open>Operations that throw after changing the block\<close>

text \<open>
  A method that changes its block and may throw returns the exception or its
  result together with the block as it was left.
\<close>

type_synonym ('b, 'a) run = "(blk_error + 'a) \<times> 'b"

definition bind_run :: "('b, 'a) run \<Rightarrow> ('a \<Rightarrow> 'b \<Rightarrow> ('b, 'c) run) \<Rightarrow> ('b, 'c) run" where
  "bind_run r f = (case r of (Inl e, b) \<Rightarrow> (Inl e, b) | (Inr x, b) \<Rightarrow> f x b)"

lemma bind_run_simps [simp]:
  "bind_run (Inl e, b) f = (Inl e, b)"
  "bind_run (Inr x, b) f = f x b"
  by (simp_all add: bind_run_def)

lemma bind_run_eq_Inr:
  "bind_run r f = (Inr y, b') \<longleftrightarrow> (\<exists>x b. r = (Inr x, b) \<and> f x b = (Inr y, b'))"
  by (cases r; cases "fst r") (auto simp: bind_run_def)

text \<open>\<open>for (auto const& x: xs) body(x)\<close>, left at the first exception.\<close>

primrec for_run :: "('x \<Rightarrow> 'b \<Rightarrow> ('b, unit) run) \<Rightarrow> 'x list \<Rightarrow> 'b \<Rightarrow> ('b, unit) run" where
  "for_run f [] b = (Inr (), b)"
| "for_run f (x # xs) b = bind_run (f x b) (\<lambda>_ b'. for_run f xs b')"

lemma for_run_invariant:
  assumes "\<And>x b b'. x \<in> set xs \<Longrightarrow> P b \<Longrightarrow> f x b = (Inr (), b') \<Longrightarrow> P b'"
    and "for_run f xs b = (Inr (), b')" and "P b"
  shows "P b'"
  using assms by (induction xs arbitrary: b) (auto simp: bind_run_eq_Inr)

end
