(* ===== verification/Memo_OKB.thy ===== *)
theory Memo_OKB
  imports Memo_Block
begin

text \<open>
  Owner key blocks (src/memo/model/doughnut/OKB.cc and OKB.hh): the header with the
  owner key and the salt that determine the address, the data kept in clear until
  the block is sealed, the owner's signature and its validation. The virtual
  methods that access-controlled blocks override (\<^verbatim>\<open>_sign\<close>, \<^verbatim>\<open>_decrypt_data\<close>) are
  arguments of the operations that call them.
\<close>

section \<open>Header\<close>

definition okb_hash_address :: "('k, 's) crypto \<Rightarrow> 'k \<Rightarrow> buffer \<Rightarrow> version \<Rightarrow> address" where
  "okb_hash_address ci key salt v =
     addr_flagged (ci_sha256 ci (ci_json ci key @ salt)) flags_mutable_block
       (Version 0 5 0 \<le> v)"

definition okb_header_signature_of ::
  "('k, 's) crypto \<Rightarrow> version \<Rightarrow> 'k \<times> 's \<Rightarrow> buffer \<Rightarrow> buffer" where
  "okb_header_signature_of ci v keys salt =
     (if v < Version 0 8 0 then ci_sign ci (snd keys) (Bytes (ci_json ci (fst keys) @ salt))
      else [])"

definition okb_header_validate ::
  "('k, 's) crypto \<Rightarrow> ('k, 's) doughnut \<Rightarrow> address \<Rightarrow> ('k, 's, 'z) okb_scheme \<Rightarrow> validation_result" where
  "okb_header_validate ci d a b =
     (let expected = okb_hash_address ci (okb_owner_key b) (okb_salt b) (dn_version d) in
      if \<not> equal_unflagged a expected then address_invalid a expected else vr_ok)"

section \<open>Construction and content\<close>

text \<open>The salt is the caller's or, in its absence, a random one.\<close>

definition okb_new ::
  "('k, 's) crypto \<Rightarrow> ('k, 's) doughnut \<Rightarrow> buffer \<Rightarrow> buffer \<Rightarrow> 'k \<times> 's \<Rightarrow> address \<Rightarrow> ('k, 's) okb" where
  "okb_new ci d dat salt keys ow =
     mblock.extend
       ((mblock_new (okb_hash_address ci (fst keys) salt (dn_version d)) [] ow)
          \<lparr>mb_data_changed := True\<rparr>)
       \<lparr>okb_salt = salt, okb_owner_key = fst keys,
        okb_header_signature = okb_header_signature_of ci (dn_version d) keys salt,
        okb_version = -1, okb_signature = None, okb_owner_private_key = Some (snd keys),
        okb_data_plain = dat, okb_data_decrypted = True\<rparr>"

definition okb_eq :: "('k, 's, 'y) okb_scheme \<Rightarrow> ('k, 's, 'z) okb_scheme \<Rightarrow> bool" where
  "okb_eq b c \<longleftrightarrow>
     okb_salt b = okb_salt c \<and> okb_owner_key b = okb_owner_key c \<and> block_eq b c"

text \<open>Reading the data decrypts it once; \<open>dec\<close> is the class's \<^verbatim>\<open>_decrypt_data(data)\<close>.\<close>

definition okb_decrypt_data ::
  "(('k, 's, 'z) okb_scheme \<Rightarrow> blk_error + buffer) \<Rightarrow> ('k, 's, 'z) okb_scheme
     \<Rightarrow> (('k, 's, 'z) okb_scheme, unit) run" where
  "okb_decrypt_data dec b =
     (if okb_data_decrypted b then (Inr (), b)
      else case dec b of
             Inl e \<Rightarrow> (Inl e, b)
           | Inr p \<Rightarrow> (Inr (), b\<lparr>okb_data_plain := p, okb_data_decrypted := True\<rparr>))"

definition okb_data ::
  "(('k, 's, 'z) okb_scheme \<Rightarrow> blk_error + buffer) \<Rightarrow> ('k, 's, 'z) okb_scheme
     \<Rightarrow> (('k, 's, 'z) okb_scheme, buffer) run" where
  "okb_data dec b = bind_run (okb_decrypt_data dec b) (\<lambda>_ b'. (Inr (okb_data_plain b'), b'))"

definition okb_set_data :: "buffer \<Rightarrow> ('k, 's, 'z) okb_scheme \<Rightarrow> ('k, 's, 'z) okb_scheme" where
  "okb_set_data dat b =
     b\<lparr>okb_data_plain := dat, mb_data_changed := True, okb_data_decrypted := True,
       blk_validated := False\<rparr>"

definition okb_transform_data ::
  "(('k, 's, 'z) okb_scheme \<Rightarrow> blk_error + buffer) \<Rightarrow> (buffer \<Rightarrow> buffer)
     \<Rightarrow> ('k, 's, 'z) okb_scheme \<Rightarrow> (('k, 's, 'z) okb_scheme, unit) run" where
  "okb_transform_data dec f b =
     bind_run (okb_decrypt_data dec b) (\<lambda>_ b'.
       (Inr (), b'\<lparr>okb_data_plain := f (okb_data_plain b'), mb_data_changed := True,
                   blk_validated := False\<rparr>))"

text \<open>\<^verbatim>\<open>BaseOKB::_decrypt()\<close>, which keeps the clear data only.\<close>

definition okb_decrypt ::
  "(('k, 's, 'z) okb_scheme \<Rightarrow> blk_error + buffer) \<Rightarrow> ('k, 's, 'z) okb_scheme
     \<Rightarrow> (('k, 's, 'z) okb_scheme, unit) run" where
  "okb_decrypt dec b = bind_run (okb_decrypt_data dec b) (\<lambda>_ b'. (Inr (), b'\<lparr>blk_data := []\<rparr>))"

text \<open>The \<^verbatim>\<open>_decrypt_data(data)\<close> of the base class.\<close>

definition okb_open_data ::
  "('k, 's) crypto \<Rightarrow> ('k, 's, 'z) okb_scheme \<Rightarrow> blk_error + buffer" where
  "okb_open_data ci b =
     (case okb_owner_private_key b of
        None \<Rightarrow> Inl (ElleErr ''attempting to decrypt an unowned OKB'')
      | Some k \<Rightarrow> (case ci_open ci k (blk_data b) of
                     None \<Rightarrow> Inl (ElleErr ''unable to open'')
                   | Some p \<Rightarrow> Inr p))"

section \<open>Owner signature\<close>

text \<open>\<^verbatim>\<open>OwnerSignature::serialize\<close>; the last field is the class's \<^verbatim>\<open>_serialize\<close>.\<close>

definition owner_object ::
  "(('k, 's, 'z) okb_scheme \<Rightarrow> version \<Rightarrow> 'k owner_body) \<Rightarrow> ('k, 's, 'z) okb_scheme
     \<Rightarrow> version \<Rightarrow> 'k payload" where
  "owner_object body b v = OwnerObject (okb_salt b) (okb_owner_key b) (okb_version b) (body b v)"

definition okb_body :: "('k, 's, 'z) okb_scheme \<Rightarrow> version \<Rightarrow> 'k owner_body" where
  "okb_body b v = OwnerData (blk_data b)"

section \<open>Sealing\<close>

definition okb_seal_okb ::
  "('k, 's) crypto \<Rightarrow> ('k, 's) doughnut \<Rightarrow> (('k, 's, 'z) okb_scheme \<Rightarrow> version \<Rightarrow> 'k owner_body)
     \<Rightarrow> int option \<Rightarrow> bool \<Rightarrow> ('k, 's, 'z) okb_scheme \<Rightarrow> (('k, 's, 'z) okb_scheme, unit) run" where
  "okb_seal_okb ci d body ver bump b =
     (let b1 = b\<lparr>okb_version := (case ver of Some v \<Rightarrow> v
                                | None \<Rightarrow> if bump then okb_version b + 1 else okb_version b)\<rparr>
      in case okb_owner_private_key b1 of
           None \<Rightarrow> (Inl (ElleErr ''attempting to seal an unowned OKB''), b1)
         | Some k \<Rightarrow>
             (Inr (),
              if dn_validate_signatures d
              then b1\<lparr>okb_signature := Some (sign_object ci k (owner_object body b1) (dn_version d))\<rparr>
              else b1))"

text \<open>
  A version kept in the block for the next seal, if it is not zero, is used when
  none is given, once.
\<close>

definition next_seal_version ::
  "int option \<Rightarrow> 'a mblock_scheme \<Rightarrow> int option \<times> 'a mblock_scheme" where
  "next_seal_version ver b =
     (if ver = None \<and> mb_seal_version b \<noteq> None \<and> the (mb_seal_version b) \<noteq> 0
      then (mb_seal_version b, b\<lparr>mb_seal_version := None\<rparr>) else (ver, b))"

definition okb_seal ::
  "('k, 's) crypto \<Rightarrow> ('k, 's) doughnut \<Rightarrow> int option \<Rightarrow> ('k, 's) okb \<Rightarrow> (('k, 's) okb, unit) run" where
  "okb_seal ci d ver0 b0 =
     (case next_seal_version ver0 b0 of (ver, b) \<Rightarrow>
        if mb_data_changed b then
          bind_run (okb_seal_okb ci d okb_body ver True
                      (mblock_set_data (ci_seal ci (dn_K d) (okb_data_plain b)) b))
            (\<lambda>_ b'. (Inr (), b'\<lparr>mb_data_changed := False\<rparr>))
        else if ver \<noteq> None then okb_seal_okb ci d okb_body ver True b
        else (Inr (), b))"

section \<open>Validation\<close>

definition okb_validate ::
  "('k, 's) crypto \<Rightarrow> ('k, 's) doughnut \<Rightarrow> (('k, 's, 'z) okb_scheme \<Rightarrow> version \<Rightarrow> 'k owner_body)
     \<Rightarrow> ('k, 's, 'z) okb_scheme \<Rightarrow> blk_error + validation_result" where
  "okb_validate ci d body b =
     vr_then (Inr (okb_header_validate ci d (blk_address b) b)) (\<lambda>_.
       if \<not> dn_validate_signatures d then Inr vr_ok
       else case okb_signature b of
              None \<Rightarrow> Inl AssertErr
            | Some sg \<Rightarrow>
                if \<not> verify_object ci (okb_owner_key b) sg (owner_object body b)
                then Inr (vr_failure ''invalid signature'') else Inr vr_ok)"

end
