(* ===== verification/Memo_ACB.thy ===== *)
theory Memo_ACB
  imports Memo_OKB
begin

text \<open>
  Access-controlled blocks (src/memo/model/doughnut/ACB.cc): permissions of users and
  groups, sealing, validation and removal, with the parts of \<^verbatim>\<open>Group\<close> and \<^verbatim>\<open>GB\<close> they
  call (src/memo/model/doughnut/Group.cc and GB.cc). The operations are those of
  \<^verbatim>\<open>BaseACB<Block>\<close>; the two virtual methods that group blocks override, the objects
  signed by the owner and by the author, are arguments.

  Opening a group may decrypt its block, which may open further groups. The depth
  of that recursion is bounded by fuel.
\<close>

section \<open>Groups\<close>

definition group_block_key :: buffer where
  "group_block_key = bytes_of ''group''"

definition group_stack_push :: "('k, 's) doughnut \<Rightarrow> 'k \<Rightarrow> blk_error + ('k, 's) doughnut" where
  "group_stack_push d k =
     (if k \<in> set (dn_stack d) then Inl (ElleErr ''Group loop'')
      else Inr (d\<lparr>dn_stack := dn_stack d @ [k]\<rparr>))"

text \<open>A block of another class gives a null pointer, which the caller dereferences.\<close>

definition fetch_gb :: "('k, 's) doughnut \<Rightarrow> address \<Rightarrow> blk_error + ('k, 's) gb" where
  "fetch_gb d a =
     bind_res (dn_fetch d a) (\<lambda>b. case b of Some (GB g) \<Rightarrow> Inr g | _ \<Rightarrow> Inl UndefinedBehaviour)"

definition group_block :: "('k, 's) crypto \<Rightarrow> ('k, 's) doughnut \<Rightarrow> 'k \<Rightarrow> blk_error + ('k, 's) gb" where
  "group_block ci d k =
     (case fetch_gb d (okb_hash_address ci k group_block_key (dn_version d)) of
        Inl (MissingBlock a) \<Rightarrow>
          (case fetch_gb d (okb_hash_address ci k group_block_key (Version 0 4 0)) of
             Inl (MissingBlock _) \<Rightarrow> Inl (MissingBlock a)
           | r \<Rightarrow> r)
      | r \<Rightarrow> r)"

text \<open>\<open>Group g(dht, key)\<close> followed by an access to its block.\<close>

definition group_open ::
  "('k, 's) crypto \<Rightarrow> ('k, 's) doughnut \<Rightarrow> 'k \<Rightarrow> blk_error + (('k, 's) doughnut \<times> ('k, 's) gb)" where
  "group_open ci d k =
     bind_res (group_stack_push d k) (\<lambda>d'.
       bind_res (group_block ci d' k) (\<lambda>g. Inr (d', g)))"

definition gb_current_public_key :: "('k, 's) gb \<Rightarrow> blk_error + 'k" where
  "gb_current_public_key g =
     (if gb_public_keys g = [] then Inl UndefinedBehaviour else Inr (last (gb_public_keys g)))"

definition gb_group_version :: "('k, 's) gb \<Rightarrow> int" where
  "gb_group_version g = int (length (gb_public_keys g))"

text \<open>
  The group keys are in the data of the block, read when they are first needed;
  \<open>dec\<close> decrypts the data.
\<close>

definition gb_extract_keys ::
  "('k, 's) crypto \<Rightarrow> (('k, 's) gb \<Rightarrow> blk_error + buffer) \<Rightarrow> ('k, 's) gb \<Rightarrow> (('k, 's) gb, unit) run" where
  "gb_extract_keys ci dec g =
     bind_run (okb_data dec g) (\<lambda>dat g'.
       case ci_keys_unpack ci dat of
         None \<Rightarrow> (Inl (ElleErr ''deserialization error''), g')
       | Some ks \<Rightarrow> (Inr (), g'\<lparr>gb_keys := ks\<rparr>))"

definition gb_all_keys ::
  "('k, 's) crypto \<Rightarrow> (('k, 's) gb \<Rightarrow> blk_error + buffer) \<Rightarrow> ('k, 's) gb
     \<Rightarrow> blk_error + ('k \<times> 's) list" where
  "gb_all_keys ci dec g =
     (if gb_keys g = [] then
        (case gb_extract_keys ci dec g of
           (Inl e, _) \<Rightarrow> Inl e
         | (Inr _, g') \<Rightarrow> Inr (gb_keys g'))
      else Inr (gb_keys g))"

definition gb_current_key ::
  "('k, 's) crypto \<Rightarrow> (('k, 's) gb \<Rightarrow> blk_error + buffer) \<Rightarrow> ('k, 's) gb \<Rightarrow> blk_error + 'k \<times> 's" where
  "gb_current_key ci dec g =
     bind_res (gb_all_keys ci dec g) (\<lambda>ks.
       if ks = [] then Inl UndefinedBehaviour else Inr (last ks))"

text \<open>
  \<^verbatim>\<open>umbrella\<close> turns what is thrown into a filesystem error; what is not an exception
  passes.
\<close>

fun umbrella :: "blk_error + 'a \<Rightarrow> blk_error + 'a" where
  "umbrella (Inr x) = Inr x"
| "umbrella (Inl UndefinedBehaviour) = Inl UndefinedBehaviour"
| "umbrella (Inl NoFuel) = Inl NoFuel"
| "umbrella (Inl (ValidationErr _)) = Inl (ElleErr ''EACCES'')"
| "umbrella (Inl _) = Inl (ElleErr ''EIO'')"

definition group_public_keys :: "('k, 's) crypto \<Rightarrow> ('k, 's) doughnut \<Rightarrow> 'k \<Rightarrow> blk_error + 'k list" where
  "group_public_keys ci d k =
     bind_res (group_stack_push d k) (\<lambda>d'.
       umbrella (bind_res (group_block ci d' k) (\<lambda>g. Inr (gb_public_keys g))))"

section \<open>Reading\<close>

text \<open>\<^verbatim>\<open>background_open\<close>: tokens are encrypted for a key from version 0.7.0 on, sealed before.\<close>

definition open_token :: "('k, 's) crypto \<Rightarrow> bool \<Rightarrow> 's \<Rightarrow> buffer \<Rightarrow> blk_error + buffer" where
  "open_token ci use_encrypt k tok =
     (case (if use_encrypt then ci_decrypt ci k tok else ci_open ci k tok) of
        None \<Rightarrow> Inl (ElleErr ''unable to decrypt'')
      | Some s \<Rightarrow> Inr s)"

definition make_token :: "('k, 's) crypto \<Rightarrow> bool \<Rightarrow> 'k \<Rightarrow> buffer \<Rightarrow> buffer" where
  "make_token ci use_encrypt k s = (if use_encrypt then ci_encrypt ci k s else ci_seal ci k s)"

fun entry_secret ::
  "('k, 's) crypto \<Rightarrow> ('k, 's) doughnut \<Rightarrow> bool \<Rightarrow> 'k acl_entry list \<Rightarrow> buffer \<Rightarrow> blk_error + buffer" where
  "entry_secret ci d use_encrypt [] s = Inr s"
| "entry_secret ci d use_encrypt (e # es) s =
     (if acl_key e = dn_K d
      then bind_res (open_token ci use_encrypt (dn_k d) (acl_token e))
             (\<lambda>s'. entry_secret ci d use_encrypt es s')
      else entry_secret ci d use_encrypt es s)"

text \<open>\<open>gk\<close> gives the keys of a group. Every entry is tried, the last that opens counts.\<close>

fun group_secret ::
  "('k, 's) crypto \<Rightarrow> ('k \<Rightarrow> blk_error + ('k \<times> 's) list) \<Rightarrow> bool \<Rightarrow> int list
     \<Rightarrow> 'k acl_entry list \<Rightarrow> nat \<Rightarrow> buffer \<Rightarrow> blk_error + buffer" where
  "group_secret ci gk use_encrypt gv [] idx s = Inr s"
| "group_secret ci gk use_encrypt gv (e # es) idx s =
     (case (bind_res (gk (acl_key e)) (\<lambda>keys.
              if idx \<ge> length gv then Inl UndefinedBehaviour
              else if gv ! idx \<ge> int (length keys) then Inr s
              else if gv ! idx < 0 then Inl UndefinedBehaviour
              else open_token ci use_encrypt (snd (keys ! nat (gv ! idx))) (acl_token e))) of
        Inr s' \<Rightarrow> group_secret ci gk use_encrypt gv es (Suc idx) s'
      | Inl err \<Rightarrow>
          if is_elle_error err then group_secret ci gk use_encrypt gv es (Suc idx) s else Inl err)"

definition acb_decrypt_with ::
  "('k \<Rightarrow> blk_error + ('k \<times> 's) list) \<Rightarrow> ('k, 's) crypto \<Rightarrow> ('k, 's) doughnut \<Rightarrow> ('k, 's) acb
     \<Rightarrow> blk_error + buffer" where
  "acb_decrypt_with gk ci d b =
     (if acb_world_readable b then Inr (blk_data b)
      else
        let use_encrypt = Version 0 7 0 \<le> acb_seal_version b in
        bind_res
          (case okb_owner_private_key b of
             Some k \<Rightarrow> open_token ci use_encrypt k (acb_owner_token b)
           | None \<Rightarrow> entry_secret ci d use_encrypt (acb_acl_entries b) []) (\<lambda>s0.
        bind_res
          (if s0 = [] then group_secret ci gk use_encrypt (acb_group_version b)
                             (acb_acl_group_entries b) 0 s0
           else Inr s0) (\<lambda>s.
        if s = [] then Inl (ValidationErr ''no read permissions'')
        else case (if use_encrypt then Some s else ci_secret_unpack ci s) of
               None \<Rightarrow> Inl (ElleErr ''deserialization error'')
             | Some key \<Rightarrow> (case ci_decipher ci key (blk_data b) of
                              None \<Rightarrow> Inl (ElleErr ''unable to decipher'')
                            | Some p \<Rightarrow> Inr p))))"

text \<open>\<^verbatim>\<open>Group::group_keys\<close>, with the decryption of the group block as an argument.\<close>

definition group_keys ::
  "(('k, 's) doughnut \<Rightarrow> ('k, 's) acb \<Rightarrow> blk_error + buffer) \<Rightarrow> ('k, 's) crypto
     \<Rightarrow> ('k, 's) doughnut \<Rightarrow> 'k \<Rightarrow> blk_error + ('k \<times> 's) list" where
  "group_keys dec ci d k =
     bind_res (group_stack_push d k) (\<lambda>d'.
       umbrella (bind_res (group_block ci d' k) (\<lambda>g.
         gb_all_keys ci (\<lambda>g. dec d' (acb.truncate g)) g)))"

primrec acb_decrypt_data ::
  "nat \<Rightarrow> ('k, 's) crypto \<Rightarrow> ('k, 's) doughnut \<Rightarrow> ('k, 's) acb \<Rightarrow> blk_error + buffer" where
  "acb_decrypt_data 0 = acb_decrypt_with (\<lambda>_. Inl NoFuel)"
| "acb_decrypt_data (Suc n) = (\<lambda>ci d b.
     acb_decrypt_with (group_keys (acb_decrypt_data n ci) ci d) ci d b)"

section \<open>Construction\<close>

definition acb_new ::
  "('k, 's) crypto \<Rightarrow> ('k, 's) doughnut \<Rightarrow> buffer \<Rightarrow> buffer \<Rightarrow> 'k \<times> 's \<Rightarrow> ('k, 's) acb" where
  "acb_new ci d dat salt keys =
     okb.extend (okb_new ci d dat salt keys addr_null)
       \<lparr>acb_editor = -1, acb_owner_token = [], acb_acl_changed = True, acb_acl_entries = [],
        acb_acl_group_entries = [], acb_group_version = [], acb_data_version = -1,
        acb_data_signature = None, acb_world_readable = False, acb_world_writable = False,
        acb_deleted = False, acb_sign_key = None, acb_seal_version = dn_version d\<rparr>"

text \<open>\<^verbatim>\<open>ACLEntry::operator ==\<close>, which requires both entries to be writable.\<close>

definition acl_entry_eq :: "'k acl_entry \<Rightarrow> 'k acl_entry \<Rightarrow> bool" where
  "acl_entry_eq a b \<longleftrightarrow> acl_key a = acl_key b \<and> acl_read a = acl_read b \<and>
     (acl_write a \<and> acl_write b) \<and> acl_token a = acl_token b"

definition acb_eq :: "('k, 's, 'y) acb_scheme \<Rightarrow> ('k, 's, 'z) acb_scheme \<Rightarrow> bool" where
  "acb_eq b c \<longleftrightarrow>
     acb_editor b = acb_editor c \<and> acb_owner_token b = acb_owner_token c \<and>
     list_all2 acl_entry_eq (acb_acl_entries b) (acb_acl_entries c) \<and>
     acb_data_version b = acb_data_version c \<and>
     acb_world_readable b = acb_world_readable c \<and>
     acb_world_writable b = acb_world_writable c \<and>
     acb_deleted b = acb_deleted c \<and> okb_eq b c"

section \<open>Permissions\<close>

definition admin_user :: "('k, 's) doughnut \<Rightarrow> 'k \<Rightarrow> bool" where
  "admin_user d k \<longleftrightarrow> k \<in> set (ak_r (dn_admin_keys d)) \<or> k \<in> set (ak_w (dn_admin_keys d))"

definition admin_group :: "('k, 's) doughnut \<Rightarrow> 'k \<Rightarrow> bool" where
  "admin_group d k \<longleftrightarrow>
     k \<in> set (ak_group_r (dn_admin_keys d)) \<or> k \<in> set (ak_group_w (dn_admin_keys d))"

definition set_world_permissions ::
  "bool \<Rightarrow> bool \<Rightarrow> ('k, 's, 'z) acb_scheme \<Rightarrow> ('k, 's, 'z) acb_scheme" where
  "set_world_permissions rd wr b =
     (if acb_world_readable b \<noteq> rd \<or> acb_world_writable b \<noteq> wr
      then b\<lparr>acb_world_readable := rd, acb_world_writable := wr,
             acb_acl_changed := True, mb_data_changed := True\<rparr>
      else b)"

text \<open>\<^verbatim>\<open>std::find_if\<close> on the key, and the index it finds.\<close>

fun acl_index :: "'k \<Rightarrow> 'k acl_entry list \<Rightarrow> nat option" where
  "acl_index k [] = None"
| "acl_index k (e # es) = (if acl_key e = k then Some 0 else map_option Suc (acl_index k es))"

definition erase_at :: "nat \<Rightarrow> 'a list \<Rightarrow> 'a list" where
  "erase_at i xs = take i xs @ drop (Suc i) xs"

definition acl_edit :: "bool \<Rightarrow> bool \<Rightarrow> 'k acl_entry \<Rightarrow> 'k acl_entry" where
  "acl_edit rd wr e = e\<lparr>acl_read := rd, acl_write := wr\<rparr>"

text \<open>The secret of the block, opened with the owner's key, for the token of a new entry.\<close>

definition new_token ::
  "('k, 's) crypto \<Rightarrow> 'k \<Rightarrow> 's \<Rightarrow> ('k, 's, 'z) acb_scheme \<Rightarrow> blk_error + buffer" where
  "new_token ci key okey b =
     (let use_encrypt = Version 0 7 0 \<le> acb_seal_version b in
      bind_res (open_token ci use_encrypt okey (acb_owner_token b)) (\<lambda>secret.
        Inr (make_token ci use_encrypt key secret)))"

definition set_permissions ::
  "('k, 's) crypto \<Rightarrow> 'k \<Rightarrow> bool \<Rightarrow> bool \<Rightarrow> ('k, 's, 'z) acb_scheme
     \<Rightarrow> (('k, 's, 'z) acb_scheme, unit) run" where
  "set_permissions ci key rd wr b =
     (if key = okb_owner_key b then (Inl (ElleErr ''Cannot set permissions for owner''), b)
      else case acl_index key (acb_acl_entries b) of
        None \<Rightarrow>
          if \<not> rd \<and> \<not> wr then (Inr (), b)
          else
            (case (if acb_owner_token b = [] then Inr []
                   else case okb_owner_private_key b of
                          None \<Rightarrow> Inl (ElleErr ''Owner key unavailable'')
                        | Some okey \<Rightarrow> new_token ci key okey b) of
               Inl e \<Rightarrow> (Inl e, b)
             | Inr tok \<Rightarrow>
                 (Inr (), b\<lparr>acb_acl_entries := acb_acl_entries b @
                              [\<lparr>acl_key = key, acl_read = rd, acl_write = wr, acl_token = tok\<rparr>],
                            acb_acl_changed := True\<rparr>))
      | Some i \<Rightarrow>
          if \<not> rd \<and> \<not> wr
          then (Inr (), b\<lparr>acb_acl_entries := erase_at i (acb_acl_entries b), acb_acl_changed := True\<rparr>)
          else
            let e = acb_acl_entries b ! i in
            (Inr (), b\<lparr>acb_acl_entries := (acb_acl_entries b)[i := acl_edit rd wr e],
                       acb_acl_changed :=
                         (acb_acl_changed b \<or> acl_read e \<noteq> rd \<or> acl_write e \<noteq> wr)\<rparr>))"

text \<open>
  For a group the token is made for its current key. When the block has no token
  yet the entry is appended before the group block is first fetched.
\<close>

definition failed_group :: "blk_error \<Rightarrow> blk_error" where
  "failed_group e = (if is_elle_error e then ElleErr ''Failed to access group block'' else e)"

definition add_group_entry ::
  "'k \<Rightarrow> bool \<Rightarrow> bool \<Rightarrow> buffer \<Rightarrow> ('k, 's, 'z) acb_scheme \<Rightarrow> ('k, 's, 'z) acb_scheme" where
  "add_group_entry key rd wr tok b =
     b\<lparr>acb_acl_group_entries := acb_acl_group_entries b @
         [\<lparr>acl_key = key, acl_read = rd, acl_write = wr, acl_token = tok\<rparr>]\<rparr>"

definition add_group_version :: "int \<Rightarrow> ('k, 's, 'z) acb_scheme \<Rightarrow> ('k, 's, 'z) acb_scheme" where
  "add_group_version v b =
     b\<lparr>acb_group_version := acb_group_version b @ [v], acb_acl_changed := True\<rparr>"

definition set_group_permissions ::
  "('k, 's) crypto \<Rightarrow> ('k, 's) doughnut \<Rightarrow> 'k \<Rightarrow> bool \<Rightarrow> bool \<Rightarrow> ('k, 's, 'z) acb_scheme
     \<Rightarrow> (('k, 's, 'z) acb_scheme, unit) run" where
  "set_group_permissions ci d key rd wr b =
     (case acl_index key (acb_acl_group_entries b) of
        None \<Rightarrow>
          if \<not> rd \<and> \<not> wr then (Inr (), b)
          else
            case group_stack_push d key of
                 Inl e \<Rightarrow> (Inl (failed_group e), b)
               | Inr d' \<Rightarrow>
                   if acb_owner_token b = [] then
                     (case group_block ci d' key of
                        Inl e \<Rightarrow> (Inl (failed_group e), add_group_entry key rd wr [] b)
                      | Inr g \<Rightarrow> (Inr (), add_group_version (gb_group_version g - 1)
                                            (add_group_entry key rd wr [] b)))
                   else
                     (case okb_owner_private_key b of
                        None \<Rightarrow> (Inl UndefinedBehaviour, b)
                      | Some okey \<Rightarrow>
                          (case open_token ci (Version 0 7 0 \<le> acb_seal_version b) okey (acb_owner_token b) of
                             Inl e \<Rightarrow> (Inl (failed_group e), b)
                           | Inr secret \<Rightarrow>
                               (case bind_res (group_block ci d' key) (\<lambda>g.
                                       bind_res (gb_current_public_key g) (\<lambda>pk. Inr (g, pk))) of
                                  Inl e \<Rightarrow> (Inl (failed_group e), b)
                                | Inr (g, pk) \<Rightarrow>
                                    (Inr (), add_group_version (gb_group_version g - 1)
                                       (add_group_entry key rd wr
                                          (make_token ci (Version 0 7 0 \<le> acb_seal_version b) pk secret) b)))))
      | Some i \<Rightarrow>
          if \<not> rd \<and> \<not> wr then
            (if i < length (acb_group_version b)
             then (Inr (), b\<lparr>acb_acl_group_entries := erase_at i (acb_acl_group_entries b),
                             acb_group_version := erase_at i (acb_group_version b),
                             acb_acl_changed := True\<rparr>)
             else (Inl UndefinedBehaviour,
                   b\<lparr>acb_acl_group_entries := erase_at i (acb_acl_group_entries b)\<rparr>))
          else
            let e = acb_acl_group_entries b ! i in
            (Inr (), b\<lparr>acb_acl_group_entries := (acb_acl_group_entries b)[i := acl_edit rd wr e],
                       acb_acl_changed :=
                         (acb_acl_changed b \<or> acl_read e \<noteq> rd \<or> acl_write e \<noteq> wr)\<rparr>))"

record 'k user =
  user_key :: 'k
  user_name :: string

definition starts_with :: "char \<Rightarrow> string \<Rightarrow> bool" where
  "starts_with c s \<longleftrightarrow> s \<noteq> [] \<and> hd s = c"

definition set_user_permissions ::
  "('k, 's) crypto \<Rightarrow> ('k, 's) doughnut \<Rightarrow> 'k user \<Rightarrow> bool \<Rightarrow> bool \<Rightarrow> ('k, 's, 'z) acb_scheme
     \<Rightarrow> (('k, 's, 'z) acb_scheme, unit) run" where
  "set_user_permissions ci d u rd wr b =
     (if admin_user d (user_key u)
      then (Inl (ElleErr ''Cannot change permissions of network admin''), b)
      else if admin_group d (user_key u)
      then (Inl (ElleErr ''Cannot change permissions of network admin group''), b)
      else
        bind_run
          (if starts_with (CHR ''#'') (user_name u) then
             (if \<not> rd \<and> \<not> wr
              then bind_run (set_group_permissions ci d (user_key u) rd wr b)
                     (\<lambda>_ b'. set_permissions ci (user_key u) rd wr b')
              else set_permissions ci (user_key u) rd wr b)
           else (Inr (), b)) (\<lambda>_ b'.
        if starts_with (CHR ''@'') (user_name u)
        then set_group_permissions ci d (user_key u) rd wr b'
        else set_permissions ci (user_key u) rd wr b'))"

text \<open>\<^verbatim>\<open>_copy_permissions\<close> from \<open>src\<close> to the block that is changed.\<close>

definition copy_permissions ::
  "('k, 's) crypto \<Rightarrow> ('k, 's) doughnut \<Rightarrow> ('k, 's, 'y) acb_scheme \<Rightarrow> ('k, 's, 'z) acb_scheme
     \<Rightarrow> (('k, 's, 'z) acb_scheme, unit) run" where
  "copy_permissions ci d src b =
     bind_run
       (for_run (\<lambda>e b. if acl_key e \<noteq> okb_owner_key b
                       then set_permissions ci (acl_key e) (acl_read e) (acl_write e) b
                       else (Inr (), b)) (acb_acl_entries src) b) (\<lambda>_ b1.
     bind_run
       (for_run (\<lambda>e b. set_group_permissions ci d (acl_key e) (acl_read e) (acl_write e) b)
          (acb_acl_group_entries src) b1) (\<lambda>_ b2.
     bind_run
       (if okb_owner_key b2 \<noteq> okb_owner_key src
        then set_permissions ci (okb_owner_key src) True True b2 else (Inr (), b2)) (\<lambda>_ b3.
     (Inr (), b3\<lparr>acb_world_readable := acb_world_readable src,
                 acb_world_writable := acb_world_writable src\<rparr>))))"

definition has_key :: "'k \<Rightarrow> 'k acl_entry list \<Rightarrow> bool \<Rightarrow> bool" where
  "has_key k es write \<longleftrightarrow> list_ex (\<lambda>e. acl_key e = k \<and> acl_read e \<and> (write \<longrightarrow> acl_write e)) es"

section \<open>Signed objects\<close>

definition permissions_of :: "'k acl_entry list \<Rightarrow> ('k \<times> bool \<times> bool) list" where
  "permissions_of es = map (\<lambda>e. (acl_key e, acl_read e, acl_write e)) es"

text \<open>Before version 0.4.0 the owner signs the user entries only.\<close>

definition acb_body :: "('k, 's, 'z) acb_scheme \<Rightarrow> version \<Rightarrow> 'k owner_body" where
  "acb_body b v =
     OwnerACL (permissions_of (acb_acl_entries b))
       (if Version 0 4 0 \<le> v
        then Some (permissions_of (acb_acl_group_entries b), acb_world_readable b, acb_world_writable b)
        else None)
       None"

definition acb_data_object :: "('k, 's, 'z) acb_scheme \<Rightarrow> version \<Rightarrow> 'k payload" where
  "acb_data_object b v =
     DataObject (okb_salt b) (okb_owner_key b) (acb_data_version b) (blk_data b) (acb_owner_token b)
       (acb_acl_entries b)
       (if Version 0 4 0 \<le> v
        then Some (acb_acl_group_entries b, acb_group_version b, acb_deleted b) else None)
       None"

section \<open>Validation\<close>

text \<open>
  The author of a block is its owner (editor -1), a user entry or, past those, a
  group entry. \<open>author_entry\<close> finds the entry and checks that it may write.
\<close>

datatype 'k author = ByOwner | ByUser "'k acl_entry" | ByGroup "'k acl_entry" nat

definition author_entry ::
  "('k, 's, 'z) acb_scheme \<Rightarrow> string + 'k author" where
  "author_entry b =
     (let editor = acb_editor b; n = int (length (acb_acl_entries b)) in
      if editor = -1 then Inr ByOwner
      else if editor < 0 then Inl ''no ACL or no editor''
      else if editor \<ge> n \<and> editor - n \<ge> int (length (acb_acl_group_entries b))
      then Inl ''editor index out of bounds''
      else
        let (e, a) = (if editor \<ge> n
                      then let e = acb_acl_group_entries b ! nat (editor - n)
                           in (e, ByGroup e (nat (editor - n)))
                      else let e = acb_acl_entries b ! nat editor in (e, ByUser e))
        in if \<not> acl_write e then Inl ''no write permissions'' else Inr a)"

definition verify_data ::
  "('k, 's) crypto \<Rightarrow> 'k \<Rightarrow> (('k, 's, 'z) acb_scheme \<Rightarrow> version \<Rightarrow> 'k payload)
     \<Rightarrow> ('k, 's, 'z) acb_scheme \<Rightarrow> blk_error + bool" where
  "verify_data ci key dobj b =
     (case acb_data_signature b of
        None \<Rightarrow> Inl UndefinedBehaviour
      | Some sg \<Rightarrow> Inr (verify_object ci key sg (dobj b)))"

text \<open>The key a group signs with is the one at the index the block records for it.\<close>

definition validate_group_author ::
  "('k, 's) crypto \<Rightarrow> ('k, 's) doughnut \<Rightarrow> (('k, 's, 'z) acb_scheme \<Rightarrow> version \<Rightarrow> 'k payload)
     \<Rightarrow> 'k acl_entry \<Rightarrow> nat \<Rightarrow> ('k, 's, 'z) acb_scheme \<Rightarrow> blk_error + validation_result" where
  "validate_group_author ci d dobj e i b =
     (case bind_res (group_public_keys ci d (acl_key e)) (\<lambda>pubkeys.
             if i \<ge> length (acb_group_version b)
             then Inr (vr_failure ''group_version array too short'')
             else
               let ki = acb_group_version b ! i in
               if ki \<ge> int (length pubkeys) then Inr (vr_failure ''group key out of range'')
               else if ki < 0 then Inl UndefinedBehaviour
               else bind_res (verify_data ci (pubkeys ! nat ki) dobj b) (\<lambda>ok.
                      Inr (if ok then vr_ok else vr_failure ''Invalid group key signature''))) of
        Inr r \<Rightarrow> Inr r
      | Inl e \<Rightarrow> if is_elle_error e then Inr (vr_failure ''Failed to access group'') else Inl e)"

definition validate_author ::
  "('k, 's) crypto \<Rightarrow> ('k, 's) doughnut \<Rightarrow> (('k, 's, 'z) acb_scheme \<Rightarrow> version \<Rightarrow> 'k payload)
     \<Rightarrow> 'k author \<Rightarrow> ('k, 's, 'z) acb_scheme \<Rightarrow> blk_error + validation_result" where
  "validate_author ci d dobj a b =
     (case a of
        ByGroup e i \<Rightarrow> validate_group_author ci d dobj e i b
      | _ \<Rightarrow>
          bind_res (verify_data ci (case a of ByUser e \<Rightarrow> acl_key e | _ \<Rightarrow> okb_owner_key b) dobj b)
            (\<lambda>ok. Inr (if ok then vr_ok else vr_failure ''author signature invalid'')))"

definition missing_admin ::
  "string \<Rightarrow> bool \<Rightarrow> 'k list \<Rightarrow> 'k acl_entry list \<Rightarrow> ('k, 's, 'z) acb_scheme \<Rightarrow> validation_result" where
  "missing_admin what write ks es b =
     (if list_ex (\<lambda>k. k \<noteq> okb_owner_key b \<and> \<not> has_key k es write) ks
      then vr_failure (''Missing admin '' @ what @ '' key'') else vr_ok)"

definition validate_admin_keys ::
  "('k, 's) doughnut \<Rightarrow> ('k, 's, 'z) acb_scheme \<Rightarrow> validation_result" where
  "validate_admin_keys d b =
     (let aks = dn_admin_keys d;
          r1 = missing_admin ''R'' False (ak_r aks) (acb_acl_entries b) b;
          r2 = missing_admin ''RW'' True (ak_w aks) (acb_acl_entries b) b;
          r3 = missing_admin ''R group'' False (ak_group_r aks) (acb_acl_group_entries b) b;
          r4 = missing_admin ''RW group'' True (ak_group_w aks) (acb_acl_group_entries b) b
      in if \<not> vr_success r1 then r1 else if \<not> vr_success r2 then r2
         else if \<not> vr_success r3 then r3 else if \<not> vr_success r4 then r4 else vr_ok)"

definition acb_validate_with ::
  "('k, 's) crypto \<Rightarrow> ('k, 's) doughnut \<Rightarrow> (('k, 's, 'z) acb_scheme \<Rightarrow> version \<Rightarrow> 'k owner_body)
     \<Rightarrow> (('k, 's, 'z) acb_scheme \<Rightarrow> version \<Rightarrow> 'k payload) \<Rightarrow> bool \<Rightarrow> ('k, 's, 'z) acb_scheme
     \<Rightarrow> blk_error + validation_result" where
  "acb_validate_with ci d body dobj writing b =
     vr_then (okb_validate ci d body b) (\<lambda>_.
       if acb_world_writable b then Inr vr_ok
       else case author_entry b of
              Inl reason \<Rightarrow> Inr (vr_failure reason)
            | Inr a \<Rightarrow>
                vr_then (if dn_validate_signatures d then validate_author ci d dobj a b else Inr vr_ok)
                  (\<lambda>_. if writing then Inr (validate_admin_keys d b) else Inr vr_ok))"

definition acb_validate ::
  "('k, 's) crypto \<Rightarrow> ('k, 's) doughnut \<Rightarrow> bool \<Rightarrow> ('k, 's) acb \<Rightarrow> blk_error + validation_result" where
  "acb_validate ci d writing b = acb_validate_with ci d acb_body acb_data_object writing b"

text \<open>
  The previous block \<open>b\<close> checks its replacement \<open>new\<close>: the key index of a group that
  has access to both must not decrease. For each group of \<open>b\<close> the first entry of
  \<open>new\<close> with its key is compared.
\<close>

definition group_downgraded ::
  "('k, 's, 'y) acb_scheme \<Rightarrow> ('k, 's, 'z) acb_scheme \<Rightarrow> nat \<Rightarrow> bool" where
  "group_downgraded b new i =
     (case acl_index (acl_key (acb_acl_group_entries b ! i)) (acb_acl_group_entries new) of
        None \<Rightarrow> False
      | Some j \<Rightarrow> acb_group_version new ! j < acb_group_version b ! i)"

definition acb_validate_over ::
  "('k, 's, 'y) acb_scheme \<Rightarrow> ('k, 's, 'z) acb_scheme \<Rightarrow> blk_error + validation_result" where
  "acb_validate_over b new =
     vr_then (Inr (block_validate_over b new)) (\<lambda>_.
       if length (acb_group_version new) \<noteq> length (acb_acl_group_entries new)
       then Inr (vr_failure ''Mismatch size in group entries'')
       else if list_ex (group_downgraded b new)
                 [0..<min (length (acb_group_version b)) (length (acb_acl_group_entries b))]
       then Inr (vr_conflict ''Group key index downgraded.'')
       else if length (acb_acl_group_entries b) < length (acb_group_version b)
                 \<and> acb_acl_group_entries new \<noteq> []
       then Inl UndefinedBehaviour
       else Inr vr_ok)"

section \<open>Sealing\<close>

text \<open>Administrators are given their permissions before the block is sealed.\<close>

definition enforce_admins ::
  "('k, 's) crypto \<Rightarrow> ('k, 's) doughnut \<Rightarrow> ('k, 's, 'z) acb_scheme \<Rightarrow> (('k, 's, 'z) acb_scheme, unit) run" where
  "enforce_admins ci d b =
     (let user = (\<lambda>wr k b. if k \<noteq> okb_owner_key b then set_permissions ci k True wr b else (Inr (), b));
          group = (\<lambda>wr k b. if k \<noteq> okb_owner_key b then set_group_permissions ci d k True wr b
                            else (Inr (), b));
          aks = dn_admin_keys d in
      bind_run (for_run (user False) (ak_r aks) b) (\<lambda>_ b1.
      bind_run (for_run (user True) (ak_w aks) b1) (\<lambda>_ b2.
      bind_run (for_run (group False) (ak_group_r aks) b2) (\<lambda>_ b3.
      for_run (group True) (ak_group_w aks) b3))))"

text \<open>
  The loop over the user entries of \<^verbatim>\<open>_seal\<close>: every reader gets a token of the secret,
  and the first entry with the user's key makes it the editor if no signing key is
  known yet.
\<close>

fun seal_entries ::
  "('k, 's) crypto \<Rightarrow> ('k, 's) doughnut \<Rightarrow> bool \<Rightarrow> buffer \<Rightarrow> 'k acl_entry list \<Rightarrow> int \<Rightarrow> 's option \<Rightarrow> int
     \<Rightarrow> 'k acl_entry list \<times> 's option \<times> int" where
  "seal_entries ci d use_encrypt secret [] idx sk ed = ([], sk, ed)"
| "seal_entries ci d use_encrypt secret (e # es) idx sk ed =
     (let e' = (if acl_read e then e\<lparr>acl_token := make_token ci use_encrypt (acl_key e) secret\<rparr> else e);
          mine = (sk = None \<and> acl_key e = dn_K d) in
      case seal_entries ci d use_encrypt secret es (idx + 1)
             (if mine then Some (dn_k d) else sk) (if mine then idx else ed) of
        (es', sk', ed') \<Rightarrow> (e' # es', sk', ed'))"

text \<open>
  The loop over the group entries. A group that cannot be opened is skipped; \<open>i\<close> is
  the index in the group entries and \<open>base\<close> the number of user entries.
\<close>

definition seal_group ::
  "nat \<Rightarrow> ('k, 's) crypto \<Rightarrow> ('k, 's) doughnut \<Rightarrow> bool \<Rightarrow> buffer \<Rightarrow> int \<Rightarrow> 'k acl_entry \<Rightarrow> nat
     \<Rightarrow> int list \<Rightarrow> 's option \<Rightarrow> int \<Rightarrow> blk_error + ('k acl_entry \<times> int list \<times> 's option \<times> int)" where
  "seal_group n ci d use_encrypt secret base e i gv sk ed =
     (case (if acl_read e \<or> sk = None then bind_res (group_open ci d (acl_key e)) (\<lambda>(d', g).
              bind_res (if acl_read e then
                          bind_res (gb_current_public_key g) (\<lambda>pk.
                            if i < length gv
                            then Inr (e\<lparr>acl_token := make_token ci use_encrypt pk secret\<rparr>,
                                      gv[i := gb_group_version g - 1])
                            else Inl UndefinedBehaviour)
                        else Inr (e, gv)) (\<lambda>(e', gv').
              if sk = None then
                (case gb_current_key ci (\<lambda>g. acb_decrypt_data n ci d' (acb.truncate g)) g of
                   Inr kp \<Rightarrow> Inr (e', gv', Some (snd kp), base + int i)
                 | Inl err \<Rightarrow> if is_elle_error err then Inr (e', gv', sk, ed) else Inl err)
              else Inr (e', gv', sk, ed)))
            else bind_res (group_stack_push d (acl_key e)) (\<lambda>_. Inr (e, gv, sk, ed))) of
        Inr r \<Rightarrow> Inr r
      | Inl err \<Rightarrow> if is_elle_error err then Inr (e, gv, sk, ed) else Inl err)"

fun seal_groups ::
  "nat \<Rightarrow> ('k, 's) crypto \<Rightarrow> ('k, 's) doughnut \<Rightarrow> bool \<Rightarrow> buffer \<Rightarrow> int \<Rightarrow> 'k acl_entry list \<Rightarrow> nat
     \<Rightarrow> int list \<Rightarrow> 's option \<Rightarrow> int
     \<Rightarrow> blk_error + ('k acl_entry list \<times> int list \<times> 's option \<times> int)" where
  "seal_groups n ci d use_encrypt secret base [] i gv sk ed = Inr ([], gv, sk, ed)"
| "seal_groups n ci d use_encrypt secret base (e # es) i gv sk ed =
     bind_res (seal_group n ci d use_encrypt secret base e i gv sk ed) (\<lambda>(e', gv', sk', ed').
       bind_res (seal_groups n ci d use_encrypt secret base es (Suc i) gv' sk' ed')
         (\<lambda>(es', gv2, sk2, ed2). Inr (e' # es', gv2, sk2, ed2)))"

text \<open>
  The part of \<^verbatim>\<open>_seal\<close> for changed data. \<open>key\<close> is the secret: the caller's, or a new
  random one. The environment variable \<^verbatim>\<open>TOKEN_ENCRYPT\<close> is at its default.
\<close>

definition seal_data ::
  "nat \<Rightarrow> ('k, 's) crypto \<Rightarrow> ('k, 's) doughnut \<Rightarrow> buffer \<Rightarrow> 's option \<Rightarrow> ('k, 's, 'z) acb_scheme
     \<Rightarrow> (('k, 's, 'z) acb_scheme, 's option) run" where
  "seal_data n ci d key sk0 b0 =
     (let sk1 = (if okb_owner_private_key b0 \<noteq> None then okb_owner_private_key b0 else sk0);
          v = dn_version d;
          use_encrypt = (Version 0 7 0 \<le> v);
          secret = (if v < Version 0 7 0 then ci_secret_pack ci key else key);
          b1 = b0\<lparr>acb_data_version := acb_data_version b0 + 1,
                  acb_editor := (if okb_owner_private_key b0 \<noteq> None then -1 else acb_editor b0),
                  acb_seal_version := v,
                  acb_owner_token := make_token ci use_encrypt (okb_owner_key b0) secret\<rparr>
      in case seal_entries ci d use_encrypt secret (acb_acl_entries b1) 0 sk1 (acb_editor b1) of
           (es, sk2, ed2) \<Rightarrow>
             let b2 = b1\<lparr>acb_acl_entries := es, acb_editor := ed2\<rparr> in
             (case seal_groups n ci d use_encrypt secret (int (length es)) (acb_acl_group_entries b2) 0
                     (acb_group_version b2) sk2 ed2 of
                Inl err \<Rightarrow> (Inl err, b2)
              | Inr (gs, gv, sk3, ed3) \<Rightarrow>
                  let b3 = b2\<lparr>acb_acl_group_entries := gs, acb_group_version := gv, acb_editor := ed3\<rparr>;
                      sk4 = (if sk3 = None \<and> acb_world_writable b3 then Some (dn_k d) else sk3);
                      b4 = mblock_set_data (if acb_world_readable b3 then okb_data_plain b3
                             else ci_encipher ci key (okb_data_plain b3)) b3
                  in (Inr sk4, b4\<lparr>mb_data_changed := False\<rparr>)))"

text \<open>
  The editor chosen when no signing key is known after the data part: the last user
  entry with the user's key, else a group whose key can be read. The index is
  advanced once after the loop over the groups, not in it.
\<close>

fun late_user :: "('k, 's) doughnut \<Rightarrow> 'k acl_entry list \<Rightarrow> int \<Rightarrow> 's option \<Rightarrow> int \<Rightarrow> 's option \<times> int" where
  "late_user d [] idx sk ed = (sk, ed)"
| "late_user d (e # es) idx sk ed =
     (if acl_key e = dn_K d then late_user d es (idx + 1) (Some (dn_k d)) idx
      else late_user d es (idx + 1) sk ed)"

text \<open>In the loop over the groups a group loop is not caught.\<close>

fun late_group ::
  "nat \<Rightarrow> ('k, 's) crypto \<Rightarrow> ('k, 's) doughnut \<Rightarrow> int \<Rightarrow> 'k acl_entry list \<Rightarrow> 's option \<Rightarrow> int
     \<Rightarrow> blk_error + ('s option \<times> int)" where
  "late_group n ci d idx [] sk ed = Inr (sk, ed)"
| "late_group n ci d idx (e # es) sk ed =
     bind_res (group_stack_push d (acl_key e)) (\<lambda>d'.
       case bind_res (group_block ci d' (acl_key e)) (\<lambda>g.
              gb_current_key ci (\<lambda>g. acb_decrypt_data n ci d' (acb.truncate g)) g) of
         Inr kp \<Rightarrow> late_group n ci d idx es (Some (snd kp)) idx
       | Inl err \<Rightarrow> if is_elle_error err then late_group n ci d idx es sk ed else Inl err)"

definition late_editor ::
  "nat \<Rightarrow> ('k, 's) crypto \<Rightarrow> ('k, 's) doughnut \<Rightarrow> 's option \<Rightarrow> ('k, 's, 'z) acb_scheme
     \<Rightarrow> blk_error + ('s option \<times> int)" where
  "late_editor n ci d sk b =
     (if sk \<noteq> None then Inr (sk, acb_editor b)
      else if okb_owner_private_key b \<noteq> None then Inr (okb_owner_private_key b, -1)
      else case late_user d (acb_acl_entries b) 0 None (acb_editor b) of
             (Some k, ed) \<Rightarrow> Inr (Some k, ed)
           | (None, ed) \<Rightarrow>
               late_group n ci d (int (length (acb_acl_entries b))) (acb_acl_group_entries b) None ed)"

definition sign_data ::
  "('k, 's) crypto \<Rightarrow> ('k, 's) doughnut \<Rightarrow> (('k, 's, 'z) acb_scheme \<Rightarrow> version \<Rightarrow> 'k payload) \<Rightarrow> 's
     \<Rightarrow> ('k, 's, 'z) acb_scheme \<Rightarrow> ('k, 's, 'z) acb_scheme" where
  "sign_data ci d dobj k b =
     (if dn_validate_signatures d
      then b\<lparr>acb_data_signature := Some (sign_object ci k (dobj b) (dn_version d))\<rparr> else b)"

definition seal_sign ::
  "nat \<Rightarrow> ('k, 's) crypto \<Rightarrow> ('k, 's) doughnut \<Rightarrow> (('k, 's, 'z) acb_scheme \<Rightarrow> version \<Rightarrow> 'k payload)
     \<Rightarrow> int option \<Rightarrow> 's option \<Rightarrow> ('k, 's, 'z) acb_scheme \<Rightarrow> (('k, 's, 'z) acb_scheme, unit) run" where
  "seal_sign n ci d dobj ver sk b0 =
     (let b1 = (case ver of Some v \<Rightarrow> b0\<lparr>acb_data_version := v\<rparr> | None \<Rightarrow> b0) in
      case late_editor n ci d sk b1 of
        Inl e \<Rightarrow> (Inl e, b1)
      | Inr (sk', ed) \<Rightarrow>
          let b2 = b1\<lparr>acb_editor := ed\<rparr>;
              sk2 = (if sk' = None \<and> acb_world_writable b2 then Some (dn_k d) else sk') in
          (case sk2 of
             None \<Rightarrow> (Inl (ValidationErr ''not owner and no write permissions''), b2)
           | Some k \<Rightarrow> (Inr (), (sign_data ci d dobj k b2)\<lparr>acb_sign_key := Some k\<rparr>)))"

text \<open>The end of \<^verbatim>\<open>_seal\<close> signs again what has no signature.\<close>

definition seal_restart ::
  "('k, 's) crypto \<Rightarrow> ('k, 's) doughnut \<Rightarrow> (('k, 's, 'z) acb_scheme \<Rightarrow> version \<Rightarrow> 'k owner_body)
     \<Rightarrow> (('k, 's, 'z) acb_scheme \<Rightarrow> version \<Rightarrow> 'k payload) \<Rightarrow> ('k, 's, 'z) acb_scheme
     \<Rightarrow> (('k, 's, 'z) acb_scheme, unit) run" where
  "seal_restart ci d body dobj b =
     bind_run
       (if dn_validate_signatures d \<and> acb_data_signature b = None then
          (case acb_sign_key b of
             None \<Rightarrow> (Inl AssertErr, b)
           | Some k \<Rightarrow> (Inr (), sign_data ci d dobj k b))
        else (Inr (), b)) (\<lambda>_ b'.
     if dn_validate_signatures d \<and> okb_signature b' = None
     then okb_seal_okb ci d body None False b' else (Inr (), b'))"

definition seal_acl ::
  "('k, 's) crypto \<Rightarrow> ('k, 's) doughnut \<Rightarrow> (('k, 's, 'z) acb_scheme \<Rightarrow> version \<Rightarrow> 'k owner_body)
     \<Rightarrow> ('k, 's, 'z) acb_scheme \<Rightarrow> (('k, 's, 'z) acb_scheme, 's option) run" where
  "seal_acl ci d body b =
     (if acb_acl_changed b then
        let b1 = b\<lparr>acb_acl_changed := False,
                   acb_editor := (if okb_owner_private_key b \<noteq> None then -1 else acb_editor b)\<rparr>
        in bind_run (okb_seal_okb ci d body None True b1) (\<lambda>_ b2.
             (Inr (okb_owner_private_key b),
              if mb_data_changed b then b2
              else b2\<lparr>acb_data_version := acb_data_version b2 + 1\<rparr>))
      else (Inr None, b))"

definition acb_seal_with ::
  "nat \<Rightarrow> ('k, 's) crypto \<Rightarrow> ('k, 's) doughnut \<Rightarrow> (('k, 's, 'z) acb_scheme \<Rightarrow> version \<Rightarrow> 'k owner_body)
     \<Rightarrow> (('k, 's, 'z) acb_scheme \<Rightarrow> version \<Rightarrow> 'k payload) \<Rightarrow> int option \<Rightarrow> buffer
     \<Rightarrow> ('k, 's, 'z) acb_scheme \<Rightarrow> (('k, 's, 'z) acb_scheme, unit) run" where
  "acb_seal_with n ci d body dobj ver0 key b0 =
     (case next_seal_version ver0 b0 of (ver, b) \<Rightarrow>
      bind_run (enforce_admins ci d b) (\<lambda>_ b1.
      bind_run (seal_acl ci d body b1) (\<lambda>sk b2.
      bind_run (if mb_data_changed b1 then seal_data n ci d key sk b2 else (Inr sk, b2)) (\<lambda>sk' b3.
      bind_run (if acb_acl_changed b1 \<or> mb_data_changed b1 \<or> ver \<noteq> None
                then seal_sign n ci d dobj ver sk' b3 else (Inr (), b3)) (\<lambda>_ b4.
      seal_restart ci d body dobj b4)))))"

definition acb_seal ::
  "nat \<Rightarrow> ('k, 's) crypto \<Rightarrow> ('k, 's) doughnut \<Rightarrow> int option \<Rightarrow> buffer \<Rightarrow> ('k, 's) acb
     \<Rightarrow> (('k, 's) acb, unit) run" where
  "acb_seal n ci d ver key b = acb_seal_with n ci d acb_body acb_data_object ver key b"

section \<open>Removal\<close>

definition acb_sign_remove ::
  "nat \<Rightarrow> ('k, 's) crypto \<Rightarrow> ('k, 's) doughnut \<Rightarrow> buffer \<Rightarrow> ('k, 's) acb
     \<Rightarrow> blk_error + ('k, 's) remove_signature" where
  "acb_sign_remove n ci d key b =
     (case acb_seal n ci d None key (b\<lparr>acb_deleted := True, mb_data_changed := True\<rparr>) of
        (Inl e, _) \<Rightarrow> Inl e
      | (Inr _, b') \<Rightarrow> Inr (rs_empty\<lparr>rs_block := Some (ACB b')\<rparr>))"

definition acb_validate_remove ::
  "('k, 's) crypto \<Rightarrow> ('k, 's) doughnut \<Rightarrow> ('k, 's) remove_signature \<Rightarrow> ('k, 's) acb
     \<Rightarrow> blk_error + validation_result" where
  "acb_validate_remove ci d rs b =
     (case rs_block rs of
        None \<Rightarrow> Inr (vr_failure ''remove signature has no block'')
      | Some (ACB mb) \<Rightarrow>
          if \<not> acb_deleted mb
          then Inr (vr_failure ''remove signature block's not marked for deletion'')
          else
            vr_then (bind_res (block_validate (acb_validate ci d True) mb) (\<lambda>(r, _). Inr r)) (\<lambda>_.
              if acb_data_version b \<ge> acb_data_version mb then Inr (vr_conflict ''invalid version'')
              else vr_then (acb_validate_over b mb) (\<lambda>_. Inr vr_ok))
      | Some _ \<Rightarrow> Inr (vr_failure ''remove signature block is not mutable''))"

end
