(* ===== verification/Memo_Access.thy ===== *)
theory Memo_Access
  imports Memo_ACB
begin

text \<open>
  What access-controlled blocks promise: permissions are a map, a sealed block
  validates, those who may read it read what was sealed, only those who may write it
  can make it validate, nested groups are opened in finitely many steps, and a
  removal is authorised. Two defects are exhibited at the end.
\<close>

section \<open>Entries as a map from keys to permissions\<close>

fun acl_perm :: "'k acl_entry list \<Rightarrow> 'k \<rightharpoonup> bool \<times> bool" where
  "acl_perm [] k = None"
| "acl_perm (e # es) k = (if acl_key e = k then Some (acl_read e, acl_write e) else acl_perm es k)"

lemma acl_index_None: "acl_index k es = None \<longleftrightarrow> k \<notin> acl_key ` set es"
  by (induction es) auto

lemma acl_index_Some:
  "acl_index k es = Some i \<Longrightarrow>
     i < length es \<and> acl_key (es ! i) = k \<and> k \<notin> acl_key ` set (take i es)"
  by (induction es arbitrary: i) (auto split: if_splits)

lemma acl_perm_None: "acl_perm es k = None \<longleftrightarrow> k \<notin> acl_key ` set es"
  by (induction es) auto

lemma acl_perm_append:
  "acl_perm (es @ es') k = (case acl_perm es k of None \<Rightarrow> acl_perm es' k | Some p \<Rightarrow> Some p)"
  by (induction es) auto

lemma acl_perm_at_index: "acl_index k es = Some i \<Longrightarrow>
    acl_perm es k = Some (acl_read (es ! i), acl_write (es ! i))"
  by (induction es arbitrary: i) (auto split: if_splits)

lemma acl_index_upd:
  assumes "acl_index k es = Some i" and "acl_key e' = k"
  shows "acl_perm (es[i := e']) = (acl_perm es)(k \<mapsto> (acl_read e', acl_write e'))"
proof
  fix k'
  show "acl_perm (es[i := e']) k' = ((acl_perm es)(k \<mapsto> (acl_read e', acl_write e'))) k'"
    using assms by (induction es arbitrary: i) (auto split: if_splits)
qed

lemma keys_upd:
  assumes "i < length es" and "acl_key e' = acl_key (es ! i)"
  shows "map acl_key (es[i := e']) = map acl_key es"
  using assms by (simp add: map_update) (metis length_map list_update_id nth_map)

lemma erase_at_Cons [simp]:
  "erase_at 0 (x # xs) = xs" "erase_at (Suc i) (x # xs) = x # erase_at i xs"
  by (simp_all add: erase_at_def)

lemma length_erase_at: "i < length xs \<Longrightarrow> length (erase_at i xs) = length xs - 1"
  by (simp add: erase_at_def)

lemma map_erase_at: "map f (erase_at i xs) = erase_at i (map f xs)"
  by (simp add: erase_at_def take_map drop_map)

lemma set_erase_at: "set (erase_at i xs) \<subseteq> set xs"
  by (auto simp: erase_at_def dest: in_set_takeD in_set_dropD)

lemma distinct_erase_at:
  assumes "distinct xs" and "i < length xs"
  shows "distinct (erase_at i xs) \<and> set (erase_at i xs) = set xs - {xs ! i}"
proof -
  have xs: "take i xs @ xs ! i # drop (Suc i) xs = xs" using assms(2) by (rule id_take_nth_drop [symmetric])
  have "distinct (take i xs @ xs ! i # drop (Suc i) xs)" using assms(1) xs by simp
  moreover have "set xs = set (take i xs @ xs ! i # drop (Suc i) xs)" using xs by simp
  ultimately show ?thesis by (auto simp: erase_at_def)
qed

lemma acl_perm_erase:
  assumes "distinct (map acl_key es)" and "acl_index k es = Some i"
  shows "acl_perm (erase_at i es) = (acl_perm es)(k := None)"
proof
  fix k'
  show "acl_perm (erase_at i es) k' = ((acl_perm es)(k := None)) k'"
    using assms
  proof (induction es arbitrary: i)
    case (Cons e es)
    show ?case
    proof (cases "acl_key e = k")
      case True
      then show ?thesis using Cons.prems by (auto simp: acl_perm_None)
    next
      case False
      then obtain j where "i = Suc j" "acl_index k es = Some j" using Cons.prems by auto
      then show ?thesis using Cons.IH [of j] Cons.prems False by auto
    qed
  qed simp
qed

lemma acl_edit_id: "acl_edit (acl_read e) (acl_write e) e = e"
  by (simp add: acl_edit_def)

lemma has_key_perm:
  assumes "distinct (map acl_key es)"
  shows "has_key k es w \<longleftrightarrow> (\<exists>wr. acl_perm es k = Some (True, wr) \<and> (w \<longrightarrow> wr))"
  using assms
proof (induction es)
  case Nil
  then show ?case by (simp add: has_key_def)
next
  case (Cons e es)
  have nk: "acl_key e = k \<Longrightarrow> \<not> has_key k es w" using Cons.prems
    by (fastforce simp: has_key_def list_ex_iff image_iff)
  have "has_key k (e # es) w \<longleftrightarrow> acl_key e = k \<and> acl_read e \<and> (w \<longrightarrow> acl_write e) \<or> has_key k es w"
    by (simp add: has_key_def)
  then show ?case using nk Cons by auto
qed

section \<open>Well-formed blocks\<close>

text \<open>
  Keys occur once in each list, the owner has no entry and every group entry has a
  key index.
\<close>

definition acb_wf :: "('k, 's, 'z) acb_scheme \<Rightarrow> bool" where
  "acb_wf b \<longleftrightarrow>
     distinct (map acl_key (acb_acl_entries b)) \<and>
     okb_owner_key b \<notin> acl_key ` set (acb_acl_entries b) \<and>
     distinct (map acl_key (acb_acl_group_entries b)) \<and>
     length (acb_group_version b) = length (acb_acl_group_entries b)"

lemma acb_wf_new [simp]: "acb_wf (acb_new ci d dat salt keys)"
  by (simp add: acb_wf_def acb_new_def okb.defs acb.defs)

text \<open>What setting a permission does to a map of permissions.\<close>

definition perm_set :: "'k \<Rightarrow> bool \<Rightarrow> bool \<Rightarrow> ('k \<rightharpoonup> bool \<times> bool) \<Rightarrow> 'k \<rightharpoonup> bool \<times> bool" where
  "perm_set k rd wr m = (if \<not> rd \<and> \<not> wr then m(k := None) else m(k \<mapsto> (rd, wr)))"

text \<open>A change of the user entries that is recorded when it changes a permission.\<close>

definition acl_only :: "('k, 's, 'z) acb_scheme \<Rightarrow> ('k, 's, 'z) acb_scheme \<Rightarrow> bool" where
  "acl_only b b' \<longleftrightarrow>
     (\<exists>es ch. b' = b\<lparr>acb_acl_entries := es, acb_acl_changed := ch\<rparr> \<and> (acb_acl_changed b \<longrightarrow> ch) \<and>
        (\<not> ch \<longrightarrow> es = acb_acl_entries b))"

lemma acl_onlyI:
  "b' = b\<lparr>acb_acl_entries := es, acb_acl_changed := ch\<rparr> \<Longrightarrow> (acb_acl_changed b \<Longrightarrow> ch) \<Longrightarrow>
     (\<not> ch \<Longrightarrow> es = acb_acl_entries b) \<Longrightarrow> acl_only b b'"
  unfolding acl_only_def by blast

lemma acl_only_refl: "acl_only b b"
  by (rule acl_onlyI [where es = "acb_acl_entries b" and ch = "acb_acl_changed b"]) simp_all

lemma set_permissions_effect:
  assumes "set_permissions ci key rd wr b = (Inr (), b')" and "acb_wf b"
  shows "acb_wf b' \<and> key \<noteq> okb_owner_key b \<and>
    acl_perm (acb_acl_entries b') = perm_set key rd wr (acl_perm (acb_acl_entries b)) \<and>
    acl_only b b'"
proof (cases "acl_index key (acb_acl_entries b)")
  case None
  have fresh: "key \<notin> acl_key ` set (acb_acl_entries b)" using None by (simp add: acl_index_None)
  then have nop: "acl_perm (acb_acl_entries b) key = None" by (simp add: acl_perm_None)
  show ?thesis
  proof (cases "\<not> rd \<and> \<not> wr")
    case True
    have "b' = b" using assms(1) None True by (simp add: set_permissions_def split: if_splits)
    moreover have "key \<noteq> okb_owner_key b" using assms(1) by (auto simp: set_permissions_def split: if_splits)
    ultimately show ?thesis using assms(2) nop True acl_only_refl by (metis perm_set_def fun_upd_triv)
  next
    case False
    then obtain tok where b': "b' = b\<lparr>acb_acl_entries := acb_acl_entries b @
          [\<lparr>acl_key = key, acl_read = rd, acl_write = wr, acl_token = tok\<rparr>], acb_acl_changed := True\<rparr>"
      and ok: "key \<noteq> okb_owner_key b"
      using assms(1) None by (auto simp: set_permissions_def split: if_splits sum.splits option.splits)
    have "acl_perm (acb_acl_entries b') = perm_set key rd wr (acl_perm (acb_acl_entries b))"
      using False nop by (auto simp: b' acl_perm_append perm_set_def fun_eq_iff split: option.splits)
    moreover have "acl_only b b'" by (rule acl_onlyI [OF b']) simp_all
    ultimately show ?thesis using assms(2) fresh ok by (auto simp: b' acb_wf_def)
  qed
next
  case (Some i)
  note ix = acl_index_Some [OF Some]
  have ok: "key \<noteq> okb_owner_key b" using assms(1) by (auto simp: set_permissions_def split: if_splits)
  have dist: "distinct (map acl_key (acb_acl_entries b))" using assms(2) by (simp add: acb_wf_def)
  show ?thesis
  proof (cases "\<not> rd \<and> \<not> wr")
    case True
    have b': "b' = b\<lparr>acb_acl_entries := erase_at i (acb_acl_entries b), acb_acl_changed := True\<rparr>"
      using assms(1) Some True ok by (auto simp: set_permissions_def)
    have "distinct (map acl_key (erase_at i (acb_acl_entries b)))"
      using distinct_erase_at [OF dist, of i] ix by (simp add: map_erase_at)
    moreover have "okb_owner_key b \<notin> acl_key ` set (erase_at i (acb_acl_entries b))"
      using assms(2) set_erase_at [of i "acb_acl_entries b"] by (auto simp: acb_wf_def)
    moreover have "acl_only b b'" by (rule acl_onlyI [OF b']) simp_all
    ultimately show ?thesis using assms(2) ok True acl_perm_erase [OF dist Some]
      by (auto simp: b' acb_wf_def perm_set_def)
  next
    case False
    let ?e = "acb_acl_entries b ! i"
    have b': "b' = b\<lparr>acb_acl_entries := (acb_acl_entries b)[i := acl_edit rd wr ?e],
        acb_acl_changed := (acb_acl_changed b \<or> acl_read ?e \<noteq> rd \<or> acl_write ?e \<noteq> wr)\<rparr>"
      using assms(1) Some False ok by (auto simp: set_permissions_def Let_def)
    have keys: "map acl_key ((acb_acl_entries b)[i := acl_edit rd wr ?e]) = map acl_key (acb_acl_entries b)"
      using ix by (intro keys_upd) (auto simp: acl_edit_def)
    have pm: "acl_perm ((acb_acl_entries b)[i := acl_edit rd wr ?e]) =
        (acl_perm (acb_acl_entries b))(key \<mapsto> (rd, wr))"
      using acl_index_upd [OF Some, of "acl_edit rd wr ?e"] ix by (simp add: acl_edit_def)
    have same: "acl_read ?e = rd \<Longrightarrow> acl_write ?e = wr \<Longrightarrow>
        (acb_acl_entries b)[i := acl_edit rd wr ?e] = acb_acl_entries b"
      using acl_edit_id [of ?e] by simp
    have "acl_key ` set ((acb_acl_entries b)[i := acl_edit rd wr ?e]) = acl_key ` set (acb_acl_entries b)"
      by (metis keys list.set_map)
    then have "acb_wf b'" using assms(2) keys by (simp add: b' acb_wf_def)
    moreover have "acl_only b b'" by (rule acl_onlyI [OF b']) (use same in auto)
    moreover have "acl_perm (acb_acl_entries b') = perm_set key rd wr (acl_perm (acb_acl_entries b))"
      using pm False unfolding b' perm_set_def by auto
    ultimately show ?thesis using ok by blast
  qed
qed

text \<open>The same for groups.\<close>

definition group_only :: "('k, 's, 'z) acb_scheme \<Rightarrow> ('k, 's, 'z) acb_scheme \<Rightarrow> bool" where
  "group_only b b' \<longleftrightarrow>
     (\<exists>es gv ch. b' = b\<lparr>acb_acl_group_entries := es, acb_group_version := gv, acb_acl_changed := ch\<rparr> \<and>
        (acb_acl_changed b \<longrightarrow> ch) \<and>
        (\<not> ch \<longrightarrow> es = acb_acl_group_entries b \<and> gv = acb_group_version b))"

lemma group_onlyI:
  "b' = b\<lparr>acb_acl_group_entries := es, acb_group_version := gv, acb_acl_changed := ch\<rparr> \<Longrightarrow>
     (acb_acl_changed b \<Longrightarrow> ch) \<Longrightarrow>
     (\<not> ch \<Longrightarrow> es = acb_acl_group_entries b \<and> gv = acb_group_version b) \<Longrightarrow> group_only b b'"
  unfolding group_only_def by blast

lemma group_only_refl: "group_only b b"
  by (rule group_onlyI [where es = "acb_acl_group_entries b" and gv = "acb_group_version b"
        and ch = "acb_acl_changed b"]) simp_all

lemma set_group_new:
  assumes "set_group_permissions ci d key rd wr b = (Inr (), b')"
    and "acl_index key (acb_acl_group_entries b) = None" and "rd \<or> wr"
  shows "\<exists>tok v. b' = add_group_version v (add_group_entry key rd wr tok b)"
  using assms
  by (auto simp: set_group_permissions_def Let_def split: if_splits sum.splits option.splits prod.splits)

lemma set_group_permissions_effect:
  assumes "set_group_permissions ci d key rd wr b = (Inr (), b')" and "acb_wf b"
  shows "acb_wf b' \<and> group_only b b' \<and>
    acl_perm (acb_acl_group_entries b') = perm_set key rd wr (acl_perm (acb_acl_group_entries b))"
proof (cases "acl_index key (acb_acl_group_entries b)")
  case None
  have fresh: "key \<notin> acl_key ` set (acb_acl_group_entries b)" using None by (simp add: acl_index_None)
  then have nop: "acl_perm (acb_acl_group_entries b) key = None" by (simp add: acl_perm_None)
  show ?thesis
  proof (cases "\<not> rd \<and> \<not> wr")
    case True
    have "b' = b" using assms(1) None True by (simp add: set_group_permissions_def)
    then show ?thesis using assms(2) nop True group_only_refl by (metis perm_set_def fun_upd_triv)
  next
    case False
    then obtain tok v where b'0: "b' = add_group_version v (add_group_entry key rd wr tok b)"
      using set_group_new [OF assms(1) None] by blast
    then have b': "b' = b\<lparr>acb_acl_group_entries := acb_acl_group_entries b @
       [\<lparr>acl_key = key, acl_read = rd, acl_write = wr, acl_token = tok\<rparr>],
       acb_group_version := acb_group_version b @ [v], acb_acl_changed := True\<rparr>"
      by (simp add: add_group_version_def add_group_entry_def)
    have "acl_perm (acb_acl_group_entries b') = perm_set key rd wr (acl_perm (acb_acl_group_entries b))"
      using False nop by (auto simp: b' acl_perm_append perm_set_def fun_eq_iff split: option.splits)
    moreover have "group_only b b'" by (rule group_onlyI [OF b']) simp_all
    ultimately show ?thesis using assms(2) fresh by (auto simp: b' acb_wf_def)
  qed
next
  case (Some i)
  note ix = acl_index_Some [OF Some]
  have dist: "distinct (map acl_key (acb_acl_group_entries b))" using assms(2) by (simp add: acb_wf_def)
  have len: "i < length (acb_group_version b)" using assms(2) ix by (simp add: acb_wf_def)
  show ?thesis
  proof (cases "\<not> rd \<and> \<not> wr")
    case True
    have b': "b' = b\<lparr>acb_acl_group_entries := erase_at i (acb_acl_group_entries b),
        acb_group_version := erase_at i (acb_group_version b), acb_acl_changed := True\<rparr>"
      using assms(1) Some True len by (auto simp: set_group_permissions_def)
    have "distinct (map acl_key (erase_at i (acb_acl_group_entries b)))"
      using distinct_erase_at [OF dist, of i] ix by (simp add: map_erase_at)
    moreover have "group_only b b'" by (rule group_onlyI [OF b']) simp_all
    ultimately show ?thesis using assms(2) ix len True acl_perm_erase [OF dist Some]
      by (simp add: b' acb_wf_def perm_set_def length_erase_at)
  next
    case False
    let ?e = "acb_acl_group_entries b ! i"
    let ?es = "(acb_acl_group_entries b)[i := acl_edit rd wr ?e]"
    have b'0: "b' = b\<lparr>acb_acl_group_entries := ?es,
        acb_acl_changed := (acb_acl_changed b \<or> acl_read ?e \<noteq> rd \<or> acl_write ?e \<noteq> wr)\<rparr>"
      using assms(1) Some False by (auto simp: set_group_permissions_def Let_def)
    then have b': "b' = b\<lparr>acb_acl_group_entries := ?es, acb_group_version := acb_group_version b,
        acb_acl_changed := (acb_acl_changed b \<or> acl_read ?e \<noteq> rd \<or> acl_write ?e \<noteq> wr)\<rparr>" by simp
    have keys: "map acl_key ?es = map acl_key (acb_acl_group_entries b)"
      using ix by (intro keys_upd) (auto simp: acl_edit_def)
    have pm: "acl_perm ?es = (acl_perm (acb_acl_group_entries b))(key \<mapsto> (rd, wr))"
      using acl_index_upd [OF Some, of "acl_edit rd wr ?e"] ix by (simp add: acl_edit_def)
    have same: "acl_read ?e = rd \<Longrightarrow> acl_write ?e = wr \<Longrightarrow> ?es = acb_acl_group_entries b"
      using acl_edit_id [of ?e] by simp
    have "acb_wf b'" using assms(2) keys by (simp add: b' acb_wf_def)
    moreover have "group_only b b'" by (rule group_onlyI [OF b']) (use same in auto)
    moreover have "acl_perm (acb_acl_group_entries b') = perm_set key rd wr (acl_perm (acb_acl_group_entries b))"
      using pm False unfolding b' perm_set_def by auto
    ultimately show ?thesis by blast
  qed
qed

section \<open>Who may write\<close>

text \<open>
  The keys that may sign the data of a block: the owner's, that of a user entry with
  write permission, and for a group entry with write permission the key of the group
  at the recorded index.
\<close>

definition may_write :: "('k, 's) crypto \<Rightarrow> ('k, 's) doughnut \<Rightarrow> ('k, 's, 'z) acb_scheme \<Rightarrow> 'k \<Rightarrow> bool" where
  "may_write ci d b key \<longleftrightarrow>
     key = okb_owner_key b \<or>
     (\<exists>e\<in>set (acb_acl_entries b). acl_key e = key \<and> acl_write e) \<or>
     (\<exists>i pks. i < length (acb_acl_group_entries b) \<and> acl_write (acb_acl_group_entries b ! i) \<and>
        group_public_keys ci d (acl_key (acb_acl_group_entries b ! i)) = Inr pks \<and>
        i < length (acb_group_version b) \<and> 0 \<le> acb_group_version b ! i \<and>
        nat (acb_group_version b ! i) < length pks \<and> pks ! nat (acb_group_version b ! i) = key)"

lemma author_entry_sound:
  "author_entry b = Inr a \<Longrightarrow>
     (case a of ByOwner \<Rightarrow> acb_editor b = -1
      | ByUser e \<Rightarrow> e \<in> set (acb_acl_entries b) \<and> acl_write e
      | ByGroup e i \<Rightarrow> i < length (acb_acl_group_entries b) \<and> e = acb_acl_group_entries b ! i \<and> acl_write e)"
  by (auto simp: author_entry_def Let_def split: if_splits)

lemma validate_group_author_sound:
  assumes "validate_group_author ci d dobj e i b = Inr r" and "vr_success r"
  shows "\<exists>pks key sg. group_public_keys ci d (acl_key e) = Inr pks \<and> i < length (acb_group_version b) \<and>
    0 \<le> acb_group_version b ! i \<and> nat (acb_group_version b ! i) < length pks \<and>
    pks ! nat (acb_group_version b ! i) = key \<and>
    acb_data_signature b = Some sg \<and> verify_object ci key sg (dobj b)"
  using assms
  by (auto simp: validate_group_author_def verify_data_def Let_def bind_res_def
      split: if_splits sum.splits option.splits)

lemma validate_author_sound:
  assumes "author_entry b = Inr a" and "validate_author ci d dobj a b = Inr r" and "vr_success r"
  shows "\<exists>key sg. acb_data_signature b = Some sg \<and> verify_object ci key sg (dobj b) \<and>
    may_write ci d b key"
proof (cases a)
  case ByOwner
  then show ?thesis using assms(2,3)
    by (auto simp: validate_author_def verify_data_def may_write_def split: if_splits option.splits)
next
  case (ByUser e)
  have "e \<in> set (acb_acl_entries b) \<and> acl_write e" using author_entry_sound [OF assms(1)] ByUser by simp
  then show ?thesis using assms(2,3) ByUser
    by (auto simp: validate_author_def verify_data_def may_write_def split: if_splits option.splits)
next
  case (ByGroup e i)
  have e: "i < length (acb_acl_group_entries b) \<and> e = acb_acl_group_entries b ! i \<and> acl_write e"
    using author_entry_sound [OF assms(1)] unfolding ByGroup author.case .
  have "validate_group_author ci d dobj e i b = Inr r" using assms(2) ByGroup by (simp add: validate_author_def)
  from validate_group_author_sound [OF this assms(3)] e show ?thesis
    unfolding may_write_def by blast
qed

lemma okb_validate_sound:
  assumes "okb_validate ci d body b = Inr r" and "vr_success r"
  shows "equal_unflagged (blk_address b) (okb_hash_address ci (okb_owner_key b) (okb_salt b) (dn_version d)) \<and>
    (dn_validate_signatures d \<longrightarrow>
       (\<exists>sg. okb_signature b = Some sg \<and> verify_object ci (okb_owner_key b) sg (owner_object body b)))"
  using assms
  by (auto simp: okb_validate_def okb_header_validate_def Let_def vr_then_def split: if_splits option.splits)

lemma validate_admin_keys_sound:
  "vr_success (validate_admin_keys d b) \<longleftrightarrow>
     (\<forall>k. k \<noteq> okb_owner_key b \<longrightarrow>
        (k \<in> set (ak_r (dn_admin_keys d)) \<longrightarrow> has_key k (acb_acl_entries b) False) \<and>
        (k \<in> set (ak_w (dn_admin_keys d)) \<longrightarrow> has_key k (acb_acl_entries b) True) \<and>
        (k \<in> set (ak_group_r (dn_admin_keys d)) \<longrightarrow> has_key k (acb_acl_group_entries b) False) \<and>
        (k \<in> set (ak_group_w (dn_admin_keys d)) \<longrightarrow> has_key k (acb_acl_group_entries b) True))"
  by (auto simp: validate_admin_keys_def missing_admin_def Let_def list_ex_iff)

lemma acb_validate_with_sound:
  assumes "acb_validate_with ci d body dobj writing b = Inr r" and "vr_success r"
    and "dn_validate_signatures d" and "\<not> acb_world_writable b"
  shows "(\<exists>sg. okb_signature b = Some sg \<and> verify_object ci (okb_owner_key b) sg (owner_object body b)) \<and>
    (\<exists>key sg. acb_data_signature b = Some sg \<and> verify_object ci key sg (dobj b) \<and> may_write ci d b key) \<and>
    (writing \<longrightarrow> vr_success (validate_admin_keys d b))"
proof -
  obtain v where v: "okb_validate ci d body b = Inr v" "vr_success v"
    and r: "(case author_entry b of Inl reason \<Rightarrow> Inr (vr_failure reason)
            | Inr a \<Rightarrow> vr_then (if dn_validate_signatures d then validate_author ci d dobj a b else Inr vr_ok)
                (\<lambda>_. if writing then Inr (validate_admin_keys d b) else Inr vr_ok)) = Inr r"
    using vr_then_success_dest [OF assms(1) [unfolded acb_validate_with_def] assms(2)] assms(4) by auto
  obtain a where a: "author_entry b = Inr a"
    and va: "vr_then (validate_author ci d dobj a b)
        (\<lambda>_. if writing then Inr (validate_admin_keys d b) else Inr vr_ok) = Inr r"
    using r assms(2,3) by (auto split: sum.splits)
  obtain u where "validate_author ci d dobj a b = Inr u" "vr_success u"
    "(if writing then Inr (validate_admin_keys d b) else Inr vr_ok) = (Inr r :: blk_error + _)"
    using vr_then_success_dest [OF va assms(2)] by auto
  then show ?thesis using validate_author_sound [OF a] okb_validate_sound [OF v] assms(2,3)
    by (auto split: if_splits)
qed

section \<open>What sealing leaves alone\<close>

definition same_block :: "('k, 's, 'z) acb_scheme \<Rightarrow> ('k, 's, 'z) acb_scheme \<Rightarrow> bool" where
  "same_block b b' \<longleftrightarrow>
     blk_address b' = blk_address b \<and> okb_salt b' = okb_salt b \<and>
     okb_owner_key b' = okb_owner_key b \<and> okb_owner_private_key b' = okb_owner_private_key b \<and>
     okb_data_plain b' = okb_data_plain b \<and> acb_world_readable b' = acb_world_readable b \<and>
     acb_world_writable b' = acb_world_writable b \<and> acb_deleted b' = acb_deleted b \<and>
     acb.more b' = acb.more b"

lemma same_block_refl [simp]: "same_block b b"
  by (simp add: same_block_def)

lemma same_block_trans: "same_block b c \<Longrightarrow> same_block c e \<Longrightarrow> same_block b e"
  by (simp add: same_block_def)

text \<open>
  A step that changes entries and nothing else, and that records it: \<open>acl_step\<close> also
  keeps the versions, the data and the signatures.
\<close>

definition acl_step :: "('k, 's, 'z) acb_scheme \<Rightarrow> ('k, 's, 'z) acb_scheme \<Rightarrow> bool" where
  "acl_step b b' \<longleftrightarrow> same_block b b' \<and>
     okb_version b' = okb_version b \<and> okb_signature b' = okb_signature b \<and>
     mb_data_changed b' = mb_data_changed b \<and> acb_data_version b' = acb_data_version b \<and>
     acb_editor b' = acb_editor b \<and> mb_seal_version b' = mb_seal_version b \<and>
     (acb_acl_changed b \<longrightarrow> acb_acl_changed b') \<and>
     (\<not> acb_acl_changed b' \<longrightarrow> acb_acl_entries b' = acb_acl_entries b \<and>
        acb_acl_group_entries b' = acb_acl_group_entries b \<and> acb_group_version b' = acb_group_version b)"

lemma acl_step_refl [simp]: "acl_step b b"
  by (simp add: acl_step_def)

lemma acl_step_trans: "acl_step b c \<Longrightarrow> acl_step c e \<Longrightarrow> acl_step b e"
  unfolding acl_step_def using same_block_trans by (smt (verit))

lemma acl_only_step: "acl_only b b' \<Longrightarrow> acl_step b b'"
  by (auto simp: acl_only_def acl_step_def same_block_def)

lemma group_only_step: "group_only b b' \<Longrightarrow> acl_step b b'"
  by (auto simp: group_only_def acl_step_def same_block_def)

lemma group_only_keeps: "group_only b b' \<Longrightarrow> acb_acl_entries b' = acb_acl_entries b"
  by (auto simp: group_only_def)

lemma acl_only_keeps: "acl_only b b' \<Longrightarrow> acb_acl_group_entries b' = acb_acl_group_entries b"
  by (auto simp: acl_only_def)

section \<open>Administrators are enforced\<close>

lemma enforce_users:
  assumes "for_run (\<lambda>k b. if k \<noteq> okb_owner_key b then set_permissions ci k True wr b else (Inr (), b)) ks b
      = (Inr (), b')" and "acb_wf b"
  shows "acb_wf b' \<and> acl_step b b' \<and> acb_acl_group_entries b' = acb_acl_group_entries b \<and>
    (\<forall>k. acl_perm (acb_acl_entries b') k =
       (if k \<in> set ks \<and> k \<noteq> okb_owner_key b then Some (True, wr) else acl_perm (acb_acl_entries b) k))"
  using assms
proof (induction ks arbitrary: b)
  case (Cons k ks)
  then obtain c where c: "(if k \<noteq> okb_owner_key b then set_permissions ci k True wr b else (Inr (), b)) = (Inr (), c)"
    and rest: "for_run (\<lambda>k b. if k \<noteq> okb_owner_key b then set_permissions ci k True wr b else (Inr (), b)) ks c
      = (Inr (), b')" by (auto simp: bind_run_eq_Inr)
  have step: "acb_wf c \<and> acl_step b c \<and> acb_acl_group_entries c = acb_acl_group_entries b \<and>
      (\<forall>j. acl_perm (acb_acl_entries c) j =
        (if j = k \<and> k \<noteq> okb_owner_key b then Some (True, wr) else acl_perm (acb_acl_entries b) j))"
  proof (cases "k = okb_owner_key b")
    case False
    then have "set_permissions ci k True wr b = (Inr (), c)" using c by simp
    from set_permissions_effect [OF this Cons.prems(2)] show ?thesis
      using acl_only_step acl_only_keeps False by (auto simp: perm_set_def)
  qed (use c Cons.prems(2) in simp)
  then have ow: "okb_owner_key c = okb_owner_key b" by (simp add: acl_step_def same_block_def)
  show ?case using Cons.IH [OF rest] step ow acl_step_trans [of b c b'] by auto
qed simp

lemma enforce_groups:
  assumes "for_run (\<lambda>k b. if k \<noteq> okb_owner_key b then set_group_permissions ci d k True wr b else (Inr (), b)) ks b
      = (Inr (), b')" and "acb_wf b"
  shows "acb_wf b' \<and> acl_step b b' \<and> acb_acl_entries b' = acb_acl_entries b \<and>
    (\<forall>k. acl_perm (acb_acl_group_entries b') k =
       (if k \<in> set ks \<and> k \<noteq> okb_owner_key b then Some (True, wr) else acl_perm (acb_acl_group_entries b) k))"
  using assms
proof (induction ks arbitrary: b)
  case (Cons k ks)
  then obtain c where c: "(if k \<noteq> okb_owner_key b then set_group_permissions ci d k True wr b else (Inr (), b)) = (Inr (), c)"
    and rest: "for_run (\<lambda>k b. if k \<noteq> okb_owner_key b then set_group_permissions ci d k True wr b else (Inr (), b)) ks c
      = (Inr (), b')" by (auto simp: bind_run_eq_Inr)
  have step: "acb_wf c \<and> acl_step b c \<and> acb_acl_entries c = acb_acl_entries b \<and>
      (\<forall>j. acl_perm (acb_acl_group_entries c) j =
        (if j = k \<and> k \<noteq> okb_owner_key b then Some (True, wr) else acl_perm (acb_acl_group_entries b) j))"
  proof (cases "k = okb_owner_key b")
    case False
    then have "set_group_permissions ci d k True wr b = (Inr (), c)" using c by simp
    from set_group_permissions_effect [OF this Cons.prems(2)] show ?thesis
      using group_only_step group_only_keeps False by (auto simp: perm_set_def)
  qed (use c Cons.prems(2) in simp)
  then have ow: "okb_owner_key c = okb_owner_key b" by (simp add: acl_step_def same_block_def)
  show ?case using Cons.IH [OF rest] step ow acl_step_trans [of b c b'] by auto
qed simp

lemma validate_admin_keys_perm:
  assumes "acb_wf b"
  shows "vr_success (validate_admin_keys d b) \<longleftrightarrow>
     (\<forall>k. k \<noteq> okb_owner_key b \<longrightarrow>
        (k \<in> set (ak_r (dn_admin_keys d)) \<longrightarrow> (\<exists>wr. acl_perm (acb_acl_entries b) k = Some (True, wr))) \<and>
        (k \<in> set (ak_w (dn_admin_keys d)) \<longrightarrow> acl_perm (acb_acl_entries b) k = Some (True, True)) \<and>
        (k \<in> set (ak_group_r (dn_admin_keys d)) \<longrightarrow> (\<exists>wr. acl_perm (acb_acl_group_entries b) k = Some (True, wr))) \<and>
        (k \<in> set (ak_group_w (dn_admin_keys d)) \<longrightarrow> acl_perm (acb_acl_group_entries b) k = Some (True, True)))"
  using assms by (simp add: validate_admin_keys_sound has_key_perm acb_wf_def ex_bool_eq)

lemma enforce_admins_effect:
  assumes "enforce_admins ci d b = (Inr (), b')" and "acb_wf b"
  shows "acb_wf b' \<and> acl_step b b' \<and> vr_success (validate_admin_keys d b') \<and>
    (\<forall>k. \<not> admin_user d k \<longrightarrow> acl_perm (acb_acl_entries b') k = acl_perm (acb_acl_entries b) k)"
proof -
  obtain b1 b2 b3 where
    r: "for_run (\<lambda>k b. if k \<noteq> okb_owner_key b then set_permissions ci k True False b else (Inr (), b))
          (ak_r (dn_admin_keys d)) b = (Inr (), b1)"
    and w: "for_run (\<lambda>k b. if k \<noteq> okb_owner_key b then set_permissions ci k True True b else (Inr (), b))
          (ak_w (dn_admin_keys d)) b1 = (Inr (), b2)"
    and gr: "for_run (\<lambda>k b. if k \<noteq> okb_owner_key b then set_group_permissions ci d k True False b else (Inr (), b))
          (ak_group_r (dn_admin_keys d)) b2 = (Inr (), b3)"
    and gw: "for_run (\<lambda>k b. if k \<noteq> okb_owner_key b then set_group_permissions ci d k True True b else (Inr (), b))
          (ak_group_w (dn_admin_keys d)) b3 = (Inr (), b')"
    using assms(1) unfolding enforce_admins_def Let_def by (auto simp: bind_run_eq_Inr)
  note e1 = enforce_users [OF r assms(2)]
  note e2 = enforce_users [OF w conjunct1 [OF e1]]
  note e3 = enforce_groups [OF gr conjunct1 [OF e2]]
  note e4 = enforce_groups [OF gw conjunct1 [OF e3]]
  have step: "acl_step b b'" using e1 e2 e3 e4 acl_step_trans by metis
  have ow: "okb_owner_key b1 = okb_owner_key b" "okb_owner_key b2 = okb_owner_key b"
    "okb_owner_key b3 = okb_owner_key b" "okb_owner_key b' = okb_owner_key b"
    using e1 e2 e3 e4 by (simp_all add: acl_step_def same_block_def)
  have "vr_success (validate_admin_keys d b')"
    using e1 e2 e3 e4 ow by (subst validate_admin_keys_perm) (simp_all add: ex_bool_eq)
  moreover have "\<forall>k. \<not> admin_user d k \<longrightarrow> acl_perm (acb_acl_entries b') k = acl_perm (acb_acl_entries b) k"
    using e1 e2 e3 e4 by (simp add: admin_user_def)
  ultimately show ?thesis using e4 step by blast
qed

section \<open>The parts of sealing\<close>

lemma permissions_of_keys: "map acl_key es = map fst (permissions_of es)"
  by (simp add: permissions_of_def)

lemma permissions_of_perm: "permissions_of es = permissions_of fs \<Longrightarrow> acl_perm es = acl_perm fs"
proof (induction es arbitrary: fs)
  case (Cons e es)
  then obtain f fs' where "fs = f # fs'" by (cases fs) (auto simp: permissions_of_def)
  then show ?case using Cons by (auto simp: permissions_of_def fun_eq_iff)
qed (auto simp: permissions_of_def)

definition same_perms :: "('k, 's, 'z) acb_scheme \<Rightarrow> ('k, 's, 'z) acb_scheme \<Rightarrow> bool" where
  "same_perms b b' \<longleftrightarrow>
     permissions_of (acb_acl_entries b') = permissions_of (acb_acl_entries b) \<and>
     permissions_of (acb_acl_group_entries b') = permissions_of (acb_acl_group_entries b) \<and>
     length (acb_group_version b') = length (acb_group_version b)"

lemma same_perms_refl [simp]: "same_perms b b"
  by (simp add: same_perms_def)

lemma same_perms_trans: "same_perms b c \<Longrightarrow> same_perms c e \<Longrightarrow> same_perms b e"
  by (simp add: same_perms_def)

lemma same_perms_wf:
  assumes "same_perms b b'" and "same_block b b'" and "acb_wf b"
  shows "acb_wf b'"
proof -
  have "map acl_key (acb_acl_entries b') = map acl_key (acb_acl_entries b)"
    "map acl_key (acb_acl_group_entries b') = map acl_key (acb_acl_group_entries b)"
    using assms(1) by (simp_all only: same_perms_def permissions_of_keys)
  moreover have "acl_key ` set (acb_acl_entries b') = acl_key ` set (acb_acl_entries b)"
    using calculation(1) by (metis list.set_map)
  moreover have "length (acb_acl_group_entries b') = length (acb_acl_group_entries b)"
    using calculation(2) by (metis length_map)
  ultimately show ?thesis using assms by (simp add: acb_wf_def same_block_def same_perms_def)
qed

lemma same_perms_admins:
  assumes "same_perms b b'" and "same_block b b'" and "acb_wf b"
  shows "vr_success (validate_admin_keys d b') = vr_success (validate_admin_keys d b)"
proof -
  have "acl_perm (acb_acl_entries b') = acl_perm (acb_acl_entries b)"
    "acl_perm (acb_acl_group_entries b') = acl_perm (acb_acl_group_entries b)"
    using assms(1) permissions_of_perm by (auto simp: same_perms_def)
  then show ?thesis using assms same_perms_wf [OF assms]
    by (simp add: validate_admin_keys_perm same_block_def)
qed

text \<open>The tokens a seal gives to the readers.\<close>

definition give_token :: "('k, 's) crypto \<Rightarrow> bool \<Rightarrow> buffer \<Rightarrow> 'k acl_entry \<Rightarrow> 'k acl_entry" where
  "give_token ci use_encrypt secret e =
     (if acl_read e then e\<lparr>acl_token := make_token ci use_encrypt (acl_key e) secret\<rparr> else e)"

lemma seal_entries_tokens:
  "fst (seal_entries ci d ue secret es idx sk ed) = map (give_token ci ue secret) es"
  by (induction es arbitrary: idx sk ed) (simp_all add: give_token_def Let_def case_prod_beta)

lemma seal_entries_signer:
  "snd (seal_entries ci d ue secret es idx (Some k) ed) = (Some k, ed)"
  by (induction es arbitrary: idx ed) (simp_all add: Let_def case_prod_beta)

lemma permissions_give_token [simp]:
  "permissions_of (map (give_token ci ue secret) es) = permissions_of es"
  by (simp add: permissions_of_def give_token_def comp_def if_distrib cong: if_cong)

lemma seal_group_keeps:
  assumes "seal_group n ci d ue secret base e i gv sk ed = Inr (e', gv', sk', ed')"
  shows "(acl_key e', acl_read e', acl_write e') = (acl_key e, acl_read e, acl_write e) \<and>
    length gv' = length gv \<and> (sk \<noteq> None \<longrightarrow> sk' = sk \<and> ed' = ed)"
  using assms
  by (auto simp: seal_group_def bind_res_def split: if_splits sum.splits prod.splits)

lemma seal_groups_keeps:
  assumes "seal_groups n ci d ue secret base es i gv sk ed = Inr (es', gv', sk', ed')"
  shows "permissions_of es' = permissions_of es \<and> length gv' = length gv \<and>
    (sk \<noteq> None \<longrightarrow> sk' = sk \<and> ed' = ed)"
  using assms
proof (induction es arbitrary: i gv sk ed es')
  case (Cons e es)
  from Cons.prems obtain e1 gv1 sk1 ed1 es2 where
    1: "seal_group n ci d ue secret base e i gv sk ed = Inr (e1, gv1, sk1, ed1)"
    and 2: "seal_groups n ci d ue secret base es (Suc i) gv1 sk1 ed1 = Inr (es2, gv', sk', ed')"
    and es': "es' = e1 # es2"
    by (auto simp: bind_res_eq_Inr split: prod.splits)
  from seal_group_keeps [OF 1] Cons.IH [OF 2] show ?case
    by (auto simp: es' permissions_of_def)
qed (simp add: permissions_of_def)

text \<open>Sealing changed data as the owner.\<close>

lemma seal_data_owner:
  assumes "seal_data n ci d key sk0 b = (Inr sk, b')" and "okb_owner_private_key b = Some k"
  shows "same_block b b' \<and> same_perms b b' \<and> sk = Some k \<and> acb_editor b' = -1 \<and>
    okb_version b' = okb_version b \<and> okb_signature b' = okb_signature b \<and>
    acb_data_version b' = acb_data_version b + 1 \<and> \<not> mb_data_changed b'"
proof -
  let ?ue = "Version 0 7 0 \<le> dn_version d"
  let ?secret = "if dn_version d < Version 0 7 0 then ci_secret_pack ci key else key"
  obtain es sk2 ed2 where se: "seal_entries ci d ?ue ?secret (acb_acl_entries b) 0 (Some k) (-1) = (es, sk2, ed2)"
    by (metis surj_pair)
  have es: "es = map (give_token ci ?ue ?secret) (acb_acl_entries b)" "sk2 = Some k" "ed2 = -1"
    using seal_entries_tokens [of ci d ?ue ?secret "acb_acl_entries b" 0 "Some k" "-1"]
      seal_entries_signer [of ci d ?ue ?secret "acb_acl_entries b" 0 k "-1"] se by auto
  obtain gs gv sk3 ed3 where sg: "seal_groups n ci d ?ue ?secret (int (length es)) (acb_acl_group_entries b) 0
      (acb_group_version b) sk2 ed2 = Inr (gs, gv, sk3, ed3)"
    using assms(1) se by (auto simp: seal_data_def Let_def assms(2) split: sum.splits)
  note keep = seal_groups_keeps [OF sg]
  show ?thesis using assms(1) se sg keep es
    by (auto simp: seal_data_def Let_def assms(2) same_block_def same_perms_def mblock_set_data_def)
qed

section \<open>What a block class must sign\<close>

text \<open>
  The two signed objects of a class of access-controlled blocks: the owner's object
  depends on the permissions and on what sealing leaves alone, and the author's does
  not include the signatures themselves.
\<close>

locale acb_class =
  fixes body :: "('k, 's, 'z) acb_scheme \<Rightarrow> version \<Rightarrow> 'k owner_body"
    and dobj :: "('k, 's, 'z) acb_scheme \<Rightarrow> version \<Rightarrow> 'k payload"
  assumes body_cong: "same_block b b' \<Longrightarrow> same_perms b b' \<Longrightarrow> body b' = body b"
    and dobj_signatures: "dobj (b\<lparr>acb_data_signature := g\<rparr>) = dobj b"
      "dobj (b\<lparr>acb_sign_key := k\<rparr>) = dobj b"
      "dobj (b\<lparr>okb_version := v\<rparr>) = dobj b"
      "dobj (b\<lparr>okb_signature := h\<rparr>) = dobj b"
begin

lemma owner_object_cong:
  "same_block b b' \<Longrightarrow> same_perms b b' \<Longrightarrow> okb_version b' = okb_version b \<Longrightarrow>
     owner_object body b' = owner_object body b"
  using body_cong [of b b'] by (auto simp: owner_object_def fun_eq_iff same_block_def)

definition owner_signed :: "('k, 's) crypto \<Rightarrow> ('k, 's, 'z) acb_scheme \<Rightarrow> bool" where
  "owner_signed ci b \<longleftrightarrow>
     (\<exists>sg. okb_signature b = Some sg \<and> verify_object ci (okb_owner_key b) sg (owner_object body b))"

definition author_signed :: "('k, 's) crypto \<Rightarrow> ('k, 's, 'z) acb_scheme \<Rightarrow> bool" where
  "author_signed ci b \<longleftrightarrow>
     (\<exists>sg. acb_data_signature b = Some sg \<and> verify_object ci (okb_owner_key b) sg (dobj b))"

lemma seal_okb_owner:
  assumes "okb_seal_okb ci d body ver bump b = (Inr (), b')"
    and "okb_owner_private_key b = Some k" and "key_pair ci (okb_owner_key b) k"
  shows "same_block b b' \<and> same_perms b b' \<and> acb_editor b' = acb_editor b \<and> dobj b' = dobj b \<and>
    acb_data_version b' = acb_data_version b \<and> acb_data_signature b' = acb_data_signature b \<and>
    mb_data_changed b' = mb_data_changed b \<and> acb_acl_changed b' = acb_acl_changed b \<and>
    (dn_validate_signatures d \<longrightarrow> owner_signed ci b')"
proof -
  define v where "v = (case ver of Some v \<Rightarrow> v | None \<Rightarrow> if bump then okb_version b + 1 else okb_version b)"
  define c where "c = b\<lparr>okb_version := v\<rparr>"
  have b': "b' = (if dn_validate_signatures d
      then c\<lparr>okb_signature := Some (sign_object ci k (owner_object body c) (dn_version d))\<rparr> else c)"
    using assms(1,2) by (auto simp: okb_seal_okb_def Let_def c_def v_def)
  have sb: "same_block c b'" "same_perms c b'" "okb_version b' = okb_version c"
    by (simp_all add: b' same_block_def same_perms_def)
  have "same_block b b'" "same_perms b b'" using sb by (simp_all add: c_def same_block_def same_perms_def)
  moreover have "dobj b' = dobj b" by (simp add: b' c_def dobj_signatures)
  moreover have "dn_validate_signatures d \<longrightarrow> owner_signed ci b'"
    using owner_object_cong [OF sb] verify_sign_object [OF assms(3)]
    by (auto simp: owner_signed_def b' c_def)
  ultimately show ?thesis by (simp add: b' c_def)
qed

lemma seal_sign_owner:
  assumes "seal_sign n ci d dobj ver sk b = (Inr (), b')"
    and "okb_owner_private_key b = Some k" and "key_pair ci (okb_owner_key b) k"
    and "sk = Some k \<and> acb_editor b = -1 \<or> sk = None"
  shows "same_block b b' \<and> same_perms b b' \<and> okb_version b' = okb_version b \<and>
    okb_signature b' = okb_signature b \<and> acb_editor b' = -1 \<and>
    acb_data_version b' = (case ver of Some v \<Rightarrow> v | None \<Rightarrow> acb_data_version b) \<and>
    (dn_validate_signatures d \<longrightarrow> author_signed ci b')"
proof -
  define c where "c = (case ver of Some v \<Rightarrow> b\<lparr>acb_data_version := v\<rparr> | None \<Rightarrow> b)"
  have c: "same_block b c" "same_perms b c" "okb_version c = okb_version b" "okb_signature c = okb_signature b"
    "acb_editor c = acb_editor b" "acb_data_version c = (case ver of Some v \<Rightarrow> v | None \<Rightarrow> acb_data_version b)"
    "okb_owner_private_key c = Some k" "okb_owner_key c = okb_owner_key b"
    using assms(2) by (auto simp: c_def same_block_def same_perms_def split: option.splits)
  have le: "late_editor n ci d sk c = Inr (Some k, -1)"
    using assms(4) c by (auto simp: late_editor_def)
  define e where "e = c\<lparr>acb_editor := -1\<rparr>"
  have b': "b' = (sign_data ci d dobj k e)\<lparr>acb_sign_key := Some k\<rparr>"
    using assms(1) le by (simp add: seal_sign_def Let_def flip: c_def e_def)
  have "dn_validate_signatures d \<longrightarrow> author_signed ci b'"
    using verify_sign_object [OF assms(3)] c(8)
    by (auto simp: author_signed_def b' sign_data_def dobj_signatures e_def)
  then show ?thesis using c by (simp add: b' sign_data_def e_def same_block_def same_perms_def)
qed

lemma seal_restart_owner:
  assumes "seal_restart ci d body dobj b = (Inr (), b')"
    and "okb_owner_private_key b = Some k" and "key_pair ci (okb_owner_key b) k"
    and "dn_validate_signatures d \<longrightarrow> author_signed ci b"
    and "\<forall>sg. okb_signature b = Some sg \<longrightarrow> dn_validate_signatures d \<longrightarrow> owner_signed ci b"
  shows "same_block b b' \<and> same_perms b b' \<and> acb_editor b' = acb_editor b \<and>
    acb_data_version b' = acb_data_version b \<and>
    (dn_validate_signatures d \<longrightarrow> author_signed ci b' \<and> owner_signed ci b')"
proof (cases "dn_validate_signatures d \<and> okb_signature b = None")
  case True
  then have ds: "acb_data_signature b \<noteq> None" using assms(4) by (auto simp: author_signed_def)
  then have "okb_seal_okb ci d body None False b = (Inr (), b')"
    using assms(1) True by (auto simp: seal_restart_def)
  from seal_okb_owner [OF this assms(2,3)] True assms(4) show ?thesis
    by (auto simp: author_signed_def same_block_def)
next
  case False
  then have "b' = b" using assms(1,4) by (auto simp: seal_restart_def author_signed_def split: if_splits)
  then show ?thesis using assms(4,5) False by auto
qed

lemma seal_acl_owner:
  assumes "seal_acl ci d body b = (Inr sk, b')"
    and "okb_owner_private_key b = Some k" and "key_pair ci (okb_owner_key b) k"
  shows "same_block b b' \<and> same_perms b b' \<and>
    (if acb_acl_changed b then sk = Some k \<and> acb_editor b' = -1 \<and> (dn_validate_signatures d \<longrightarrow> owner_signed ci b')
     else sk = None \<and> b' = b) \<and>
    acb_data_version b' =
      (if acb_acl_changed b \<and> \<not> mb_data_changed b then acb_data_version b + 1 else acb_data_version b)"
proof (cases "acb_acl_changed b")
  case True
  define c where "c = b\<lparr>acb_acl_changed := False, acb_editor := -1\<rparr>"
  obtain e where e: "okb_seal_okb ci d body None True c = (Inr (), e)"
    and b': "b' = (if mb_data_changed b then e else e\<lparr>acb_data_version := acb_data_version e + 1\<rparr>)"
    and sk: "sk = Some k"
    using assms(1,2) True by (auto simp: seal_acl_def Let_def c_def bind_run_eq_Inr)
  have "okb_owner_private_key c = Some k" "key_pair ci (okb_owner_key c) k" using assms(2,3) by (simp_all add: c_def)
  note eo = seal_okb_owner [OF e this]
  have eb: "same_block e b'" "same_perms e b'" "okb_version b' = okb_version e"
    "okb_signature b' = okb_signature e" "okb_owner_key b' = okb_owner_key e"
    by (simp_all add: b' same_block_def same_perms_def)
  have "same_block b c" "same_perms b c" by (simp_all add: c_def same_block_def same_perms_def)
  then have "same_block b b'" "same_perms b b'" using eo eb same_block_trans same_perms_trans by blast+
  moreover have "dn_validate_signatures d \<longrightarrow> owner_signed ci b'"
    using eo eb owner_object_cong [OF eb(1-3)] by (auto simp: owner_signed_def)
  ultimately show ?thesis using True sk eo by (simp add: b' c_def)
qed (use assms in \<open>simp add: seal_acl_def\<close>)

lemma seal_owner:
  assumes seal: "acb_seal_with n ci d body dobj ver key b = (Inr (), b')"
    and wf: "acb_wf b" and priv: "okb_owner_private_key b = Some k"
    and kp: "key_pair ci (okb_owner_key b) k" and nsv: "mb_seal_version b = None"
    and changed: "acb_acl_changed b \<or> mb_data_changed b \<or> ver \<noteq> None"
    and old: "okb_signature b \<noteq> None \<longrightarrow> dn_validate_signatures d \<longrightarrow> acb_acl_changed b \<or> owner_signed ci b"
  shows "same_block b b' \<and> acb_wf b' \<and> acb_editor b' = -1 \<and> vr_success (validate_admin_keys d b') \<and>
    (dn_validate_signatures d \<longrightarrow> owner_signed ci b' \<and> author_signed ci b') \<and>
    acb_data_version b' = (case ver of Some v \<Rightarrow> v | None \<Rightarrow> acb_data_version b + 1) \<and>
    (\<forall>k. \<not> admin_user d k \<longrightarrow> acl_perm (acb_acl_entries b') k = acl_perm (acb_acl_entries b) k)"
proof -
  have nv: "next_seal_version ver b = (ver, b)" using nsv by (simp add: next_seal_version_def)
  obtain b1 b2 b3 b4 sk sk' where
    s1: "enforce_admins ci d b = (Inr (), b1)" and s2: "seal_acl ci d body b1 = (Inr sk, b2)"
    and s3: "(if mb_data_changed b1 then seal_data n ci d key sk b2 else (Inr sk, b2)) = (Inr sk', b3)"
    and s4: "(if acb_acl_changed b1 \<or> mb_data_changed b1 \<or> ver \<noteq> None
              then seal_sign n ci d dobj ver sk' b3 else (Inr (), b3)) = (Inr (), b4)"
    and s5: "seal_restart ci d body dobj b4 = (Inr (), b')"
    using seal unfolding acb_seal_with_def nv by (auto simp: bind_run_eq_Inr)
  note e1 = enforce_admins_effect [OF s1 wf]
  have ch: "acb_acl_changed b1 \<or> mb_data_changed b1 \<or> ver \<noteq> None" and sb1: "same_block b b1"
    and dv1: "acb_data_version b1 = acb_data_version b"
    using e1 changed by (auto simp: acl_step_def)
  have p1: "okb_owner_private_key b1 = Some k" "key_pair ci (okb_owner_key b1) k"
    using sb1 priv kp by (simp_all add: same_block_def)
  note e2 = seal_acl_owner [OF s2 p1]
  have p2: "okb_owner_private_key b2 = Some k" "okb_owner_key b2 = okb_owner_key b1"
    using e2 p1 by (simp_all add: same_block_def)
  have e3: "same_block b2 b3 \<and> same_perms b2 b3 \<and> okb_version b3 = okb_version b2 \<and>
      okb_signature b3 = okb_signature b2 \<and> (sk' = Some k \<and> acb_editor b3 = -1 \<or> sk' = None) \<and>
      acb_data_version b3 = (if mb_data_changed b1 then acb_data_version b2 + 1 else acb_data_version b2)"
  proof (cases "mb_data_changed b1")
    case True
    then have "seal_data n ci d key sk b2 = (Inr sk', b3)" using s3 by simp
    from seal_data_owner [OF this p2(1)] True show ?thesis by simp
  next
    case False
    then have "sk' = sk" "b3 = b2" using s3 by auto
    then show ?thesis using False e2 by (cases "acb_acl_changed b1") simp_all
  qed
  have p3: "okb_owner_private_key b3 = Some k" "key_pair ci (okb_owner_key b3) k"
    using e3 p2 p1 by (simp_all add: same_block_def)
  have "seal_sign n ci d dobj ver sk' b3 = (Inr (), b4)" using s4 ch by simp
  note e4 = seal_sign_owner [OF this p3] e3
  have e4: "same_block b3 b4 \<and> same_perms b3 b4 \<and> okb_version b4 = okb_version b3 \<and>
    okb_signature b4 = okb_signature b3 \<and> acb_editor b4 = -1 \<and>
    acb_data_version b4 = (case ver of Some v \<Rightarrow> v | None \<Rightarrow> acb_data_version b3) \<and>
    (dn_validate_signatures d \<longrightarrow> author_signed ci b4)" using e4 by blast
  have sb: "same_block b1 b4" "same_perms b1 b4" "same_block b2 b4" "same_perms b2 b4"
    using e2 e3 e4 same_block_trans same_perms_trans by blast+
  have os: "okb_signature b4 = Some sg \<Longrightarrow> dn_validate_signatures d \<Longrightarrow> owner_signed ci b4" for sg
  proof -
    assume sg: "okb_signature b4 = Some sg" and vs: "dn_validate_signatures d"
    have "owner_signed ci b2"
    proof (cases "acb_acl_changed b1")
      case False
      then have "\<not> acb_acl_changed b" "okb_signature b1 = okb_signature b" "same_perms b b1"
        "okb_version b1 = okb_version b" "b2 = b1"
        using e1 e2 by (auto simp: acl_step_def same_perms_def)
      then show ?thesis using old sg vs e3 e4 owner_object_cong [OF sb1]
        by (auto simp: owner_signed_def sb1 [unfolded same_block_def])
    qed (use e2 vs in simp)
    then show ?thesis using owner_object_cong [OF sb(3,4)] e3 e4 sb(3)
      by (auto simp: owner_signed_def same_block_def)
  qed
  have p4: "okb_owner_private_key b4 = Some k" "key_pair ci (okb_owner_key b4) k"
    using e4 p3 by (simp_all add: same_block_def)
  have "\<forall>sg. okb_signature b4 = Some sg \<longrightarrow> dn_validate_signatures d \<longrightarrow> owner_signed ci b4" using os by blast
  with s5 p4 e4 have e5: "same_block b4 b' \<and> same_perms b4 b' \<and> acb_editor b' = acb_editor b4 \<and>
      acb_data_version b' = acb_data_version b4 \<and>
      (dn_validate_signatures d \<longrightarrow> author_signed ci b' \<and> owner_signed ci b')"
    by (intro seal_restart_owner [of ci d b4 b' k]) auto
  have fin: "same_block b1 b'" "same_perms b1 b'" using sb e5 same_block_trans same_perms_trans by blast+
  have dv: "acb_data_version b' = (case ver of Some v \<Rightarrow> v | None \<Rightarrow> acb_data_version b + 1)"
    using e5 e4 e3 e2 dv1 ch by (auto split: option.splits)
  have "acl_perm (acb_acl_entries b') = acl_perm (acb_acl_entries b1)"
    using fin(2) permissions_of_perm by (auto simp: same_perms_def)
  then show ?thesis using e1 e4 e5 dv fin same_perms_wf [OF fin(2,1)] same_perms_admins [OF fin(2,1)]
      same_block_trans [OF sb1 fin(1)] by simp
qed

end

interpretation acbc: acb_class acb_body acb_data_object
  by unfold_locales
    (auto simp: acb_body_def acb_data_object_def same_block_def same_perms_def fun_eq_iff)

lemma memcmp_refl [simp]: "memcmp xs xs n = 0"
proof (induction n arbitrary: xs)
  case (Suc n)
  then show ?case by (cases xs) simp_all
qed simp

lemma equal_unflagged_refl [simp]: "equal_unflagged a a"
  by (simp add: equal_unflagged_def)

lemma acb_seal_then_validate:
  assumes "acb_seal n ci d ver key b = (Inr (), b')"
    and "acb_wf b" and "okb_owner_private_key b = Some k"
    and "key_pair ci (okb_owner_key b) k" and "mb_seal_version b = None"
    and "acb_acl_changed b \<or> mb_data_changed b \<or> ver \<noteq> None"
    and "okb_signature b \<noteq> None \<longrightarrow> acb_acl_changed b \<or>
       verify_object ci (okb_owner_key b) (the (okb_signature b)) (owner_object acb_body b)"
    and "equal_unflagged (blk_address b) (okb_hash_address ci (okb_owner_key b) (okb_salt b) (dn_version d))"
  shows "acb_validate ci d writing b' = Inr vr_ok \<and> acb_wf b' \<and> acb_editor b' = -1 \<and>
    okb_data_plain b' = okb_data_plain b \<and>
    acb_data_version b' = (case ver of Some v \<Rightarrow> v | None \<Rightarrow> acb_data_version b + 1)"
proof -
  have "okb_signature b \<noteq> None \<longrightarrow> dn_validate_signatures d \<longrightarrow> acb_acl_changed b \<or> acbc.owner_signed ci b"
    using assms(7) by (auto simp: acbc.owner_signed_def)
  note so = acbc.seal_owner [OF assms(1) [unfolded acb_seal_def] assms(2-6) this]
  have hv: "okb_header_validate ci d (blk_address b') b' = vr_ok"
    using so assms(8) by (simp add: okb_header_validate_def same_block_def)
  have ov: "okb_validate ci d acb_body b' = Inr vr_ok"
    using so hv by (auto simp: okb_validate_def acbc.owner_signed_def)
  have ae: "author_entry b' = Inr ByOwner" using so by (simp add: author_entry_def)
  have va: "dn_validate_signatures d \<longrightarrow> validate_author ci d acb_data_object ByOwner b' = Inr vr_ok"
    using so by (auto simp: validate_author_def verify_data_def acbc.author_signed_def)
  have adm: "validate_admin_keys d b' = vr_ok"
    using so by (auto simp: validate_admin_keys_def Let_def split: if_splits)
  have "acb_validate ci d writing b' = Inr vr_ok"
    using ov ae va adm by (auto simp: acb_validate_def acb_validate_with_def)
  then show ?thesis using so by (simp add: same_block_def)
qed

text \<open>What a node has to share with another for both to accept what an owner signed.\<close>

definition same_rules :: "('k, 's) doughnut \<Rightarrow> ('k, 's) doughnut \<Rightarrow> bool" where
  "same_rules d d' \<longleftrightarrow> dn_version d' = dn_version d \<and> dn_admin_keys d' = dn_admin_keys d \<and>
     (dn_validate_signatures d' \<longrightarrow> dn_validate_signatures d)"

lemma acb_validate_elsewhere:
  assumes "acb_validate ci d writing b = Inr vr_ok" and "acb_editor b = -1" and "same_rules d d'"
  shows "acb_validate ci d' writing b = Inr vr_ok"
proof -
  have "validate_admin_keys d' b = validate_admin_keys d b" "okb_header_validate ci d' (blk_address b) b = okb_header_validate ci d (blk_address b) b"
    using assms(3) by (simp_all add: validate_admin_keys_def okb_header_validate_def same_rules_def)
  moreover have "validate_author ci d' acb_data_object ByOwner b = validate_author ci d acb_data_object ByOwner b"
    by (simp add: validate_author_def)
  moreover have "vr_failure x \<noteq> vr_ok" for x by (simp add: vr_failure_def vr_ok_def)
  ultimately show ?thesis using assms
    by (auto simp: acb_validate_def acb_validate_with_def okb_validate_def author_entry_def vr_then_def same_rules_def bind_res_eq_Inr
        split: option.splits if_splits sum.splits)
qed

section \<open>An owner can always seal\<close>

definition token_opens :: "('k, 's) crypto \<Rightarrow> 's \<Rightarrow> ('k, 's, 'z) acb_scheme \<Rightarrow> bool" where
  "token_opens ci k b \<longleftrightarrow> acb_owner_token b = [] \<or>
     (\<exists>s. open_token ci (Version 0 7 0 \<le> acb_seal_version b) k (acb_owner_token b) = Inr s)"

lemma acl_only_token:
  "acl_only b b' \<Longrightarrow> token_opens ci k b' = token_opens ci k b \<and>
     okb_owner_private_key b' = okb_owner_private_key b \<and>
     acb_acl_group_entries b' = acb_acl_group_entries b"
  by (auto simp: acl_only_def token_opens_def)

lemma set_permissions_succeeds:
  assumes "okb_owner_private_key b = Some k" and "key \<noteq> okb_owner_key b" and "token_opens ci k b"
  shows "\<exists>c. set_permissions ci key rd wr b = (Inr (), c)"
proof -
  have "\<exists>tok. (if acb_owner_token b = [] then Inr []
      else case okb_owner_private_key b of None \<Rightarrow> Inl (ElleErr ''Owner key unavailable'')
           | Some okey \<Rightarrow> new_token ci key okey b) = Inr tok"
    using assms(1,3) by (auto simp: new_token_def Let_def token_opens_def)
  then show ?thesis using assms(2) by (auto simp: set_permissions_def Let_def split: option.splits)
qed

lemma enforce_users_succeeds:
  assumes "okb_owner_private_key b = Some k" and "token_opens ci k b" and "acb_wf b"
  shows "\<exists>c. for_run (\<lambda>k b. if k \<noteq> okb_owner_key b then set_permissions ci k True wr b else (Inr (), b)) ks b
      = (Inr (), c) \<and> token_opens ci k c \<and> acb_wf c \<and> okb_owner_private_key c = Some k \<and>
      acb_acl_group_entries c = acb_acl_group_entries b"
  using assms
proof (induction ks arbitrary: b)
  case (Cons key ks)
  have "\<exists>c. (if key \<noteq> okb_owner_key b then set_permissions ci key True wr b else (Inr (), b)) = (Inr (), c) \<and>
      acb_wf c \<and> acl_only b c"
  proof (cases "key = okb_owner_key b")
    case False
    then obtain c where c: "set_permissions ci key True wr b = (Inr (), c)"
      using set_permissions_succeeds [OF Cons.prems(1) _ Cons.prems(2)] by blast
    then show ?thesis using set_permissions_effect [OF c Cons.prems(3)] False by auto
  qed (use Cons.prems acl_only_refl in auto)
  then obtain c where c: "(if key \<noteq> okb_owner_key b then set_permissions ci key True wr b else (Inr (), b)) = (Inr (), c)"
    and wf: "acb_wf c" and ao: "acl_only b c" by blast
  have "okb_owner_private_key c = Some k" "token_opens ci k c"
    using acl_only_token [OF ao] Cons.prems by auto
  from Cons.IH [OF this wf] acl_only_token [OF ao, of ci k] c show ?case by auto
qed simp

lemma seal_data_succeeds:
  assumes "acb_acl_group_entries b = []"
  shows "\<exists>sk c. seal_data n ci d key sk0 b = (Inr sk, c)"
  using assms by (auto simp: seal_data_def Let_def case_prod_beta)

lemma seal_acl_succeeds:
  assumes "okb_owner_private_key b = Some k"
  shows "\<exists>sk c. seal_acl ci d body b = (Inr sk, c) \<and> okb_owner_private_key c = Some k \<and>
    acb_acl_group_entries c = acb_acl_group_entries b"
  using assms by (cases "acb_acl_changed b") (simp_all add: seal_acl_def okb_seal_okb_def Let_def)

lemma seal_sign_succeeds:
  assumes "okb_owner_private_key b = Some k"
  shows "\<exists>c. seal_sign n ci d dobj ver sk b = (Inr (), c) \<and> okb_owner_private_key c = Some k \<and>
    (dn_validate_signatures d \<longrightarrow> acb_data_signature c \<noteq> None)"
  using assms
  by (cases sk; cases ver) (simp_all add: seal_sign_def late_editor_def sign_data_def Let_def)

lemma seal_restart_succeeds:
  assumes "okb_owner_private_key b = Some k" and "dn_validate_signatures d \<longrightarrow> acb_data_signature b \<noteq> None"
  shows "\<exists>c. seal_restart ci d body dobj b = (Inr (), c)"
  using assms by (auto simp: seal_restart_def okb_seal_okb_def Let_def)

lemma enforce_admins_succeeds:
  assumes "acb_wf b" and "okb_owner_private_key b = Some k" and "token_opens ci k b"
    and "ak_group_r (dn_admin_keys d) = []" and "ak_group_w (dn_admin_keys d) = []"
  shows "\<exists>c. enforce_admins ci d b = (Inr (), c) \<and> okb_owner_private_key c = Some k \<and>
    acb_acl_group_entries c = acb_acl_group_entries b"
  using enforce_users_succeeds [OF assms(2,3,1), of False "ak_r (dn_admin_keys d)"]
    enforce_users_succeeds [of _ k ci True "ak_w (dn_admin_keys d)"] assms(4,5)
  by (fastforce simp: enforce_admins_def Let_def)

lemma acb_seal_succeeds:
  assumes "acb_wf b" and "okb_owner_private_key b = Some k" and "token_opens ci k b"
    and "ak_group_r (dn_admin_keys d) = []" and "ak_group_w (dn_admin_keys d) = []"
    and "acb_acl_group_entries b = []" and "mb_seal_version b = None"
    and "acb_acl_changed b \<or> mb_data_changed b \<or> ver \<noteq> None"
  shows "\<exists>b'. acb_seal n ci d ver key b = (Inr (), b')"
proof -
  obtain b1 where b1: "enforce_admins ci d b = (Inr (), b1)" "okb_owner_private_key b1 = Some k"
    "acb_acl_group_entries b1 = []"
    using enforce_admins_succeeds [OF assms(1-5)] assms(6) by auto
  have ch: "acb_acl_changed b1 \<or> mb_data_changed b1 \<or> ver \<noteq> None"
    using enforce_admins_effect [OF b1(1) assms(1)] assms(8) by (auto simp: acl_step_def)
  obtain sk b2 where b2: "seal_acl ci d acb_body b1 = (Inr sk, b2)" "okb_owner_private_key b2 = Some k"
    "acb_acl_group_entries b2 = []"
    using seal_acl_succeeds [OF b1(2), of ci d acb_body] b1(3) by auto
  have "\<exists>sk' b3. (if mb_data_changed b1 then seal_data n ci d key sk b2 else (Inr sk, b2)) = (Inr sk', b3) \<and>
      okb_owner_private_key b3 = Some k"
    using seal_data_succeeds [OF b2(3), of n ci d key sk] seal_data_owner [OF _ b2(2)] b2(2)
    by (cases "mb_data_changed b1") (fastforce simp: same_block_def)+
  then obtain sk' b3 where
    b3: "(if mb_data_changed b1 then seal_data n ci d key sk b2 else (Inr sk, b2)) = (Inr sk', b3)"
    and p3: "okb_owner_private_key b3 = Some k" by blast
  obtain b4 where b4: "seal_sign n ci d acb_data_object ver sk' b3 = (Inr (), b4)" "okb_owner_private_key b4 = Some k"
    "dn_validate_signatures d \<longrightarrow> acb_data_signature b4 \<noteq> None"
    using seal_sign_succeeds [OF p3, of n ci d acb_data_object ver sk'] by auto
  obtain b5 where "seal_restart ci d acb_body acb_data_object b4 = (Inr (), b5)"
    using seal_restart_succeeds [OF b4(2,3)] by blast
  then show ?thesis using b1 b2 b3 b4 ch assms(7)
    by (auto simp: acb_seal_def acb_seal_with_def next_seal_version_def)
qed

section \<open>Readers can read what was sealed\<close>

definition acb_content :: "('k, 's, 'z) acb_scheme \<Rightarrow> buffer \<times> buffer \<times> 'k acl_entry list \<times> version \<times> bool" where
  "acb_content b = (blk_data b, acb_owner_token b, acb_acl_entries b, acb_seal_version b, acb_world_readable b)"

lemma seal_sign_content: "seal_sign n ci d dobj ver sk b = (Inr (), c) \<Longrightarrow> acb_content c = acb_content b"
  by (auto simp: seal_sign_def sign_data_def acb_content_def Let_def split: sum.splits option.splits if_splits)

lemma seal_restart_content: "seal_restart ci d body dobj b = (Inr (), c) \<Longrightarrow> acb_content c = acb_content b"
  by (auto simp: seal_restart_def sign_data_def okb_seal_okb_def acb_content_def Let_def bind_run_eq_Inr
      split: option.splits if_splits)

lemma seal_data_content:
  assumes "seal_data n ci d key sk0 b = (Inr sk, c)"
  shows "acb_content c =
     (if acb_world_readable b then okb_data_plain b else ci_encipher ci key (okb_data_plain b),
      make_token ci (Version 0 7 0 \<le> dn_version d) (okb_owner_key b)
        (if dn_version d < Version 0 7 0 then ci_secret_pack ci key else key),
      map (give_token ci (Version 0 7 0 \<le> dn_version d)
             (if dn_version d < Version 0 7 0 then ci_secret_pack ci key else key)) (acb_acl_entries b),
      dn_version d, acb_world_readable b)"
  using assms seal_entries_tokens
  by (auto simp: seal_data_def acb_content_def Let_def mblock_set_data_def case_prod_beta split: sum.splits)

text \<open>The secret is found again with the owner's key and with the key of a reader.\<close>

lemma open_make_token:
  "key_pair ci K k \<Longrightarrow> open_token ci ue k (make_token ci ue K s) = Inr s"
  by (simp add: key_pair_def open_token_def make_token_def)

lemma entry_secret_none: "dn_K d \<notin> acl_key ` set es \<Longrightarrow> entry_secret ci d ue es s = Inr s"
  by (induction es arbitrary: s) auto

lemma entry_secret_reader:
  assumes "distinct (map acl_key es)" and "acl_perm es (dn_K d) = Some (True, wr)"
    and "key_pair ci (dn_K d) (dn_k d)"
  shows "entry_secret ci d ue (map (give_token ci ue secret) es) s0 = Inr secret"
  using assms(1,2)
proof (induction es arbitrary: s0)
  case (Cons e es)
  show ?case
  proof (cases "acl_key e = dn_K d")
    case True
    then have "dn_K d \<notin> acl_key ` set (map (give_token ci ue secret) es)"
      using Cons.prems(1) by (auto simp: give_token_def)
    then have "entry_secret ci d ue (map (give_token ci ue secret) es) secret = Inr secret"
      by (rule entry_secret_none)
    moreover have "give_token ci ue secret e = e\<lparr>acl_token := make_token ci ue (dn_K d) secret\<rparr>"
      using True Cons.prems(2) by (simp add: give_token_def)
    ultimately show ?thesis using True open_make_token [OF assms(3)] by simp
  next
    case False
    then show ?thesis using Cons by (simp add: give_token_def)
  qed
qed simp

definition can_read :: "('k, 's) crypto \<Rightarrow> ('k, 's) doughnut \<Rightarrow> ('k, 's, 'z) acb_scheme \<Rightarrow> bool" where
  "can_read ci d b \<longleftrightarrow>
     (case okb_owner_private_key b of
        Some k \<Rightarrow> key_pair ci (okb_owner_key b) k
      | None \<Rightarrow> key_pair ci (dn_K d) (dn_k d) \<and> (\<exists>wr. acl_perm (acb_acl_entries b) (dn_K d) = Some (True, wr)))"

lemma decrypt_content:
  assumes "acb_content c =
     (if acb_world_readable b then p else ci_encipher ci key p,
      make_token ci (Version 0 7 0 \<le> v) (okb_owner_key c) (if v < Version 0 7 0 then ci_secret_pack ci key else key),
      map (give_token ci (Version 0 7 0 \<le> v) (if v < Version 0 7 0 then ci_secret_pack ci key else key)) es,
      v, acb_world_readable b)"
    and "distinct (map acl_key es)" and "can_read ci d c"
    and "key \<noteq> []" and "ci_secret_pack ci key \<noteq> []" and "ci_secret_unpack ci (ci_secret_pack ci key) = Some key"
    and "ci_decipher ci key (ci_encipher ci key p) = Some p"
  shows "acb_decrypt_data n ci d c = Inr p"
proof -
  let ?ue = "Version 0 7 0 \<le> v"
  let ?secret = "if v < Version 0 7 0 then ci_secret_pack ci key else key"
  have c: "blk_data c = (if acb_world_readable b then p else ci_encipher ci key p)"
    "acb_owner_token c = make_token ci ?ue (okb_owner_key c) ?secret"
    "acb_acl_entries c = map (give_token ci ?ue ?secret) es" "acb_seal_version c = v"
    "acb_world_readable c = acb_world_readable b"
    using assms(1) by (simp_all add: acb_content_def)
  have pe: "acl_perm (map (give_token ci ?ue ?secret) es) = acl_perm es"
    by (rule permissions_of_perm) simp
  have sec: "(case okb_owner_private_key c of
       Some k \<Rightarrow> open_token ci ?ue k (acb_owner_token c)
     | None \<Rightarrow> entry_secret ci d ?ue (acb_acl_entries c) []) = Inr ?secret"
  proof (cases "okb_owner_private_key c")
    case (Some k)
    then show ?thesis using assms(3) open_make_token [of ci "okb_owner_key c" k] by (simp add: can_read_def c(2))
  next
    case None
    then obtain wr where kp: "key_pair ci (dn_K d) (dn_k d)" and "acl_perm es (dn_K d) = Some (True, wr)"
      using assms(3) pe by (auto simp: can_read_def c(3))
    then show ?thesis using entry_secret_reader [OF assms(2) _ kp, of wr ?ue ?secret "[]"] None
      by (simp only: c(3) option.case)
  qed
  have "acb_decrypt_with gk ci d c = Inr p" for gk
  proof (cases "acb_world_readable b")
    case False
    then show ?thesis using sec assms(4-7)
      by (auto simp: acb_decrypt_with_def Let_def c(1,4,5) not_le)
  qed (simp add: acb_decrypt_with_def c(1,5))
  then show ?thesis by (cases n) simp_all
qed

text \<open>
  The block as another node reads it, when its data is not empty: the clear data is
  gone, nothing counts as changed, and the private key is known to the owner only.
\<close>

definition acb_received :: "('k, 's) doughnut \<Rightarrow> ('k, 's, 'z) acb_scheme \<Rightarrow> ('k, 's, 'z) acb_scheme" where
  "acb_received d b =
     b\<lparr>okb_owner_private_key := (if okb_owner_key b = dn_K d then Some (dn_k d) else None),
       okb_data_plain := [], okb_data_decrypted := False, blk_validated := False,
       mb_data_changed := False, acb_acl_changed := False, acb_sign_key := None\<rparr>"

text \<open>The whole of \<^verbatim>\<open>_seal\<close>, for changed data.\<close>

lemma seal_content:
  assumes seal: "acb_seal_with n ci d body dobj ver key b = (Inr (), b')"
    and wf: "acb_wf b" and priv: "okb_owner_private_key b = Some k"
    and nsv: "mb_seal_version b = None" and dc: "mb_data_changed b"
  shows "\<exists>es. distinct (map acl_key es) \<and> okb_owner_key b' = okb_owner_key b \<and> acb_content b' =
     (if acb_world_readable b then okb_data_plain b else ci_encipher ci key (okb_data_plain b),
      make_token ci (Version 0 7 0 \<le> dn_version d) (okb_owner_key b)
        (if dn_version d < Version 0 7 0 then ci_secret_pack ci key else key),
      map (give_token ci (Version 0 7 0 \<le> dn_version d)
             (if dn_version d < Version 0 7 0 then ci_secret_pack ci key else key)) es,
      dn_version d, acb_world_readable b)"
proof -
  have nv: "next_seal_version ver b = (ver, b)" using nsv by (simp add: next_seal_version_def)
  obtain b1 b2 b3 b4 sk sk' where
    s1: "enforce_admins ci d b = (Inr (), b1)" and s2: "seal_acl ci d body b1 = (Inr sk, b2)"
    and s3: "(if mb_data_changed b1 then seal_data n ci d key sk b2 else (Inr sk, b2)) = (Inr sk', b3)"
    and s4: "(if acb_acl_changed b1 \<or> mb_data_changed b1 \<or> ver \<noteq> None
              then seal_sign n ci d dobj ver sk' b3 else (Inr (), b3)) = (Inr (), b4)"
    and s5: "seal_restart ci d body dobj b4 = (Inr (), b')"
    using seal unfolding acb_seal_with_def nv by (auto simp: bind_run_eq_Inr)
  note e1 = enforce_admins_effect [OF s1 wf]
  have b1: "acb_wf b1" "mb_data_changed b1" "okb_data_plain b1 = okb_data_plain b"
    "okb_owner_key b1 = okb_owner_key b" "acb_world_readable b1 = acb_world_readable b"
    using e1 dc by (simp_all add: acl_step_def same_block_def)
  have b2: "acb_acl_entries b2 = acb_acl_entries b1" "okb_data_plain b2 = okb_data_plain b1"
    "okb_owner_key b2 = okb_owner_key b1" "okb_owner_private_key b2 = Some k"
    "acb_world_readable b2 = acb_world_readable b1"
    using s2 e1 priv by (auto simp: seal_acl_def okb_seal_okb_def Let_def acl_step_def same_block_def
        bind_run_eq_Inr split: if_splits option.splits)
  have s3': "seal_data n ci d key sk b2 = (Inr sk', b3)" using s3 b1(2) by simp
  have s4': "seal_sign n ci d dobj ver sk' b3 = (Inr (), b4)" using s4 b1(2) by simp
  have "acb_content b' = acb_content b3" using seal_restart_content [OF s5] seal_sign_content [OF s4'] by simp
  moreover have "okb_owner_key b4 = okb_owner_key b3" "okb_owner_key b' = okb_owner_key b4"
    using s4' s5 by (auto simp: seal_sign_def seal_restart_def sign_data_def okb_seal_okb_def Let_def
        bind_run_eq_Inr split: sum.splits option.splits if_splits)
  moreover have "okb_owner_key b3 = okb_owner_key b2"
    using seal_data_owner [OF s3' b2(4)] by (simp add: same_block_def)
  ultimately show ?thesis using seal_data_content [OF s3'] b1 b2
    by (intro exI [of _ "acb_acl_entries b1"]) (simp add: acb_wf_def)
qed

lemma acb_seal_then_decrypt:
  assumes seal: "acb_seal_with n ci d body dobj ver key b = (Inr (), b')"
    and "acb_wf b" and "okb_owner_private_key b = Some k"
    and "mb_seal_version b = None" and "mb_data_changed b"
    and can: "can_read ci d' c" and c: "acb_content c = acb_content b'" "okb_owner_key c = okb_owner_key b'"
    and key: "key \<noteq> []" "ci_secret_pack ci key \<noteq> []" "ci_secret_unpack ci (ci_secret_pack ci key) = Some key"
      "ci_decipher ci key (ci_encipher ci key (okb_data_plain b)) = Some (okb_data_plain b)"
  shows "acb_decrypt_data m ci d' c = Inr (okb_data_plain b)"
proof -
  obtain es where "distinct (map acl_key es)" and ow: "okb_owner_key b' = okb_owner_key b" and "acb_content b' =
     (if acb_world_readable b then okb_data_plain b else ci_encipher ci key (okb_data_plain b),
      make_token ci (Version 0 7 0 \<le> dn_version d) (okb_owner_key b)
        (if dn_version d < Version 0 7 0 then ci_secret_pack ci key else key),
      map (give_token ci (Version 0 7 0 \<le> dn_version d)
             (if dn_version d < Version 0 7 0 then ci_secret_pack ci key else key)) es,
      dn_version d, acb_world_readable b)"
    using seal_content [OF assms(1-5)] by blast
  note es = this(1) this(3) [folded c(1) ow, folded c(2)]
  show ?thesis by (rule decrypt_content [OF es(2,1) can key])
qed

lemma acb_received_content [simp]:
  "acb_content (acb_received d b) = acb_content b" "okb_owner_key (acb_received d b) = okb_owner_key b"
  by (simp_all add: acb_content_def acb_received_def)

section \<open>Opening nested groups ends\<close>

lemma fetch_gb_stack: "fetch_gb (d\<lparr>dn_stack := st\<rparr>) a = fetch_gb d a"
  by (simp add: fetch_gb_def)

lemma group_block_stack [simp]: "group_block ci (d\<lparr>dn_stack := st\<rparr>) k = group_block ci d k"
  by (simp add: group_block_def fetch_gb_stack cong del: sum.case_cong_weak blk_error.case_cong_weak)

lemma umbrella_NoFuel [simp]: "umbrella r = Inl NoFuel \<longleftrightarrow> r = Inl NoFuel"
  by (cases r rule: umbrella.cases) auto

lemma group_secret_fuel:
  "(\<And>e. e \<in> set es \<Longrightarrow> gk (acl_key e) \<noteq> Inl NoFuel) \<Longrightarrow> group_secret ci gk ue gv es i s \<noteq> Inl NoFuel"
proof (induction es arbitrary: i s)
  case (Cons e es)
  have "gk (acl_key e) \<noteq> Inl NoFuel" using Cons.prems by simp
  moreover have "group_secret ci gk ue gv es j t \<noteq> Inl NoFuel" for j t using Cons by simp
  ultimately show ?case
    by (cases "gk (acl_key e)") (auto simp: open_token_def split: sum.splits option.splits)
qed simp

lemma acb_decrypt_with_fuel:
  "(\<And>k. gk k \<noteq> Inl NoFuel) \<Longrightarrow> acb_decrypt_with gk ci d b \<noteq> Inl NoFuel"
proof -
  assume gk: "\<And>k. gk k \<noteq> Inl NoFuel"
  have es: "entry_secret ci d ue es s \<noteq> Inl NoFuel" for ue es s
    by (induction es arbitrary: s) (auto simp: open_token_def bind_res_def split: sum.splits option.splits)
  have ot: "open_token ci ue k t \<noteq> Inl NoFuel" for ue k t
    by (auto simp: open_token_def split: option.splits)
  have gs: "group_secret ci gk ue gv es i s \<noteq> Inl NoFuel" for ue gv es i s
    using gk by (rule group_secret_fuel)
  have first: "(case okb_owner_private_key b of Some k \<Rightarrow> open_token ci ue k (acb_owner_token b)
      | None \<Rightarrow> entry_secret ci d ue (acb_acl_entries b) []) \<noteq> Inl NoFuel" for ue
    using es ot by (cases "okb_owner_private_key b") auto
  show ?thesis using gs first
    by (auto simp: acb_decrypt_with_def Let_def bind_res_eq_Inl split: option.split_asm if_split_asm)
qed

lemma gb_all_keys_cong:
  assumes "dec g = dec' g"
  shows "gb_all_keys ci dec g = gb_all_keys ci dec' g"
  using assms by (simp add: gb_all_keys_def gb_extract_keys_def okb_data_def okb_decrypt_data_def)

lemma gb_all_keys_fuel:
  assumes "dec g \<noteq> Inl NoFuel"
  shows "gb_all_keys ci dec g \<noteq> Inl NoFuel"
  using assms
  by (auto simp: gb_all_keys_def gb_extract_keys_def okb_data_def okb_decrypt_data_def
      split: sum.splits option.splits)

text \<open>
  \<open>groups_in d G\<close>: only the keys in \<open>G\<close> have a group block.
\<close>

definition groups_in :: "('k, 's) crypto \<Rightarrow> ('k, 's) doughnut \<Rightarrow> 'k set \<Rightarrow> bool" where
  "groups_in ci d G \<longleftrightarrow> finite G \<and>
     (\<forall>k. group_block ci d k \<noteq> Inl NoFuel \<and> (k \<notin> G \<longrightarrow> (\<exists>e. group_block ci d k = Inl e)))"

lemma groups_in_stack [simp]: "groups_in ci (d\<lparr>dn_stack := st\<rparr>) G = groups_in ci d G"
  by (simp add: groups_in_def)

lemma acb_decrypt_data_fuel:
  assumes "groups_in ci d G" and "card (G - set (dn_stack d)) < n"
  shows "acb_decrypt_data n ci d b \<noteq> Inl NoFuel \<and>
    acb_decrypt_data (Suc n) ci d b = acb_decrypt_data n ci d b"
  using assms
proof (induction n arbitrary: d b)
  case (Suc n)
  have gk: "group_keys (acb_decrypt_data n ci) ci d k \<noteq> Inl NoFuel \<and>
      group_keys (acb_decrypt_data (Suc n) ci) ci d k = group_keys (acb_decrypt_data n ci) ci d k" for k
  proof (cases "k \<in> set (dn_stack d)")
    case False
    define d' where "d' = d\<lparr>dn_stack := dn_stack d @ [k]\<rparr>"
    have push: "group_stack_push d k = Inr d'" using False by (simp add: group_stack_push_def d'_def)
    show ?thesis
    proof (cases "group_block ci d k")
      case (Inl e)
      then show ?thesis using Suc.prems(1) push by (auto simp: group_keys_def groups_in_def d'_def)
    next
      case (Inr g)
      then have "k \<in> G" using Suc.prems(1) by (auto simp: groups_in_def)
      then have "G - set (dn_stack d') \<subset> G - set (dn_stack d)" using False by (auto simp: d'_def)
      then have "card (G - set (dn_stack d')) < card (G - set (dn_stack d))"
        using Suc.prems(1) by (intro psubset_card_mono) (auto simp: groups_in_def)
      then have "card (G - set (dn_stack d')) < n" using Suc.prems(2) by simp
      moreover have "groups_in ci d' G" using Suc.prems(1) by (simp add: d'_def)
      ultimately have ih: "acb_decrypt_data n ci d' c \<noteq> Inl NoFuel"
        "acb_decrypt_data (Suc n) ci d' c = acb_decrypt_data n ci d' c" for c using Suc.IH by blast+
      show ?thesis using push Inr ih(1) gb_all_keys_fuel [of "\<lambda>g. acb_decrypt_data n ci d' (acb.truncate g)" g ci]
          gb_all_keys_cong [of "\<lambda>g. acb_decrypt_data (Suc n) ci d' (acb.truncate g)" g
            "\<lambda>g. acb_decrypt_data n ci d' (acb.truncate g)" ci, OF ih(2)]
        by (simp add: group_keys_def d'_def del: acb_decrypt_data.simps)
    qed
  qed (simp add: group_keys_def group_stack_push_def)
  have "group_keys (acb_decrypt_data (Suc n) ci) ci d = group_keys (acb_decrypt_data n ci) ci d"
    using gk by blast
  then have "acb_decrypt_data (Suc (Suc n)) ci d b = acb_decrypt_data (Suc n) ci d b"
    by (metis acb_decrypt_data.simps(2))
  moreover have "acb_decrypt_data (Suc n) ci d b \<noteq> Inl NoFuel"
    unfolding acb_decrypt_data.simps(2) by (rule acb_decrypt_with_fuel) (use gk in blast)
  ultimately show ?case by blast
qed simp

section \<open>Replacement and removal\<close>

lemma acb_validate_over_sound:
  assumes "acb_validate_over b new = Inr r" and "vr_success r"
    and "i < length (acb_acl_group_entries b)" and "i < length (acb_group_version b)"
    and "acl_index (acl_key (acb_acl_group_entries b ! i)) (acb_acl_group_entries new) = Some j"
  shows "addr_eq (blk_address b) (blk_address new) \<and> j < length (acb_group_version new) \<and>
    acb_group_version b ! i \<le> acb_group_version new ! j"
proof -
  have ok: "addr_eq (blk_address b) (blk_address new)"
    and len: "length (acb_group_version new) = length (acb_acl_group_entries new)"
    and nd: "\<not> list_ex (group_downgraded b new)
        [0..<min (length (acb_group_version b)) (length (acb_acl_group_entries b))]"
    using assms(1,2) by (auto simp: acb_validate_over_def block_validate_over_def vr_then_def split: if_splits)
  have "\<not> group_downgraded b new i" using nd assms(3,4) by (auto simp: list_ex_iff)
  then show ?thesis using ok len assms(5) acl_index_Some [OF assms(5)] by (auto simp: group_downgraded_def)
qed

lemma acb_validate_remove_sound:
  assumes "acb_validate_remove ci d rs b = Inr r" and "vr_success r"
  shows "\<exists>mb. rs_block rs = Some (ACB mb) \<and> acb_deleted mb \<and> acb_data_version b < acb_data_version mb \<and>
    (\<exists>v. acb_validate_over b mb = Inr v \<and> vr_success v) \<and>
    (\<not> blk_validated mb \<longrightarrow> (\<exists>v. acb_validate ci d True mb = Inr v \<and> vr_success v))"
proof -
  obtain mb where mb: "rs_block rs = Some (ACB mb)" "acb_deleted mb"
    and r: "vr_then (bind_res (block_validate (acb_validate ci d True) mb) (\<lambda>(r, _). Inr r)) (\<lambda>_.
        if acb_data_version b \<ge> acb_data_version mb then Inr (vr_conflict ''invalid version'')
        else vr_then (acb_validate_over b mb) (\<lambda>_. Inr vr_ok)) = Inr r"
    using assms by (auto simp: acb_validate_remove_def split: option.splits any_block.splits if_splits)
  from vr_then_success_dest [OF r assms(2)] obtain u where
    u: "bind_res (block_validate (acb_validate ci d True) mb) (\<lambda>(r, _). Inr r) = Inr u" "vr_success u"
    and v: "acb_data_version b < acb_data_version mb" "vr_then (acb_validate_over b mb) (\<lambda>_. Inr vr_ok) = Inr r"
    using assms(2) by (auto split: if_splits)
  have "\<exists>v. acb_validate_over b mb = Inr v \<and> vr_success v"
    using vr_then_success_dest [OF v(2) assms(2)] by blast
  moreover have "\<not> blk_validated mb \<longrightarrow> (\<exists>v. acb_validate ci d True mb = Inr v \<and> vr_success v)"
    using u by (auto simp: block_validate_def bind_res_eq_Inr)
  ultimately show ?thesis using mb v(1) by blast
qed

section \<open>Properties\<close>

text \<open>
  C12. A block without group entries, on a network without administrator groups, that its
  owner can still open and that was changed, is sealed by the owner without error. The
  sealed block validates, for writing too, at every node with the same version and
  administrators that checks signatures only if the sealing node makes them; its data version
  is the given one or the next.
\<close>

theorem acb_seal_validates:
  assumes "acb_wf b" and "okb_owner_private_key b = Some k" and "key_pair ci (okb_owner_key b) k"
    and "token_opens ci k b" and "ak_group_r (dn_admin_keys d) = []" and "ak_group_w (dn_admin_keys d) = []"
    and "acb_acl_group_entries b = []" and "mb_seal_version b = None"
    and "acb_acl_changed b \<or> mb_data_changed b \<or> ver \<noteq> None"
    and "okb_signature b \<noteq> None \<longrightarrow> acb_acl_changed b \<or>
       verify_object ci (okb_owner_key b) (the (okb_signature b)) (owner_object acb_body b)"
    and "equal_unflagged (blk_address b) (okb_hash_address ci (okb_owner_key b) (okb_salt b) (dn_version d))"
  shows "\<exists>b'. acb_seal n ci d ver key b = (Inr (), b') \<and>
    (\<forall>d'. same_rules d d' \<longrightarrow> acb_validate ci d' writing b' = Inr vr_ok) \<and>
    acb_wf b' \<and> acb_data_version b' = (case ver of Some v \<Rightarrow> v | None \<Rightarrow> acb_data_version b + 1)"
proof -
  obtain b' where b': "acb_seal n ci d ver key b = (Inr (), b')"
    using acb_seal_succeeds [OF assms(1,2,4-9)] by blast
  from acb_seal_then_validate [OF b' assms(1-3,8-11), of writing] b' show ?thesis
    using acb_validate_elsewhere [of ci d writing b'] by blast
qed

text \<open>
  C13. What the owner of a block seals, with groups or not, is what the owner reads back
  and what every user with a read entry reads from the block as it is transmitted,
  under each of the two token formats.
\<close>

theorem acb_sealed_readable:
  assumes "acb_seal n ci d ver key b = (Inr (), b')"
    and "acb_wf b" and "okb_owner_private_key b = Some k"
    and "mb_seal_version b = None" and "mb_data_changed b"
    and "can_read ci d' c" and "c = b' \<or> c = acb_received d' b'"
    and "key \<noteq> []" and "ci_secret_pack ci key \<noteq> []"
    and "ci_secret_unpack ci (ci_secret_pack ci key) = Some key"
    and "ci_decipher ci key (ci_encipher ci key (okb_data_plain b)) = Some (okb_data_plain b)"
  shows "acb_decrypt_data m ci d' c = Inr (okb_data_plain b)"
  using acb_seal_then_decrypt [OF assms(1) [unfolded acb_seal_def] assms(2-6) _ _ assms(8-11)] assms(7)
  by auto

text \<open>
  C10. A block that validates, signatures being checked and the block not being world
  writable, has permissions signed by the owner of its address and data signed by a
  key with write permission: the owner's, a writer's or the recorded key of a writing
  group. When it is written, every administrator and administrator group other than the
  owner has its permissions: to read, and to write too for those of the writing lists.
\<close>

theorem acb_validate_authorised:
  assumes "acb_validate ci d writing b = Inr r" and "vr_success r"
    and "dn_validate_signatures d" and "\<not> acb_world_writable b"
  shows "equal_unflagged (blk_address b) (okb_hash_address ci (okb_owner_key b) (okb_salt b) (dn_version d)) \<and>
    (\<exists>sg. okb_signature b = Some sg \<and> verify_object ci (okb_owner_key b) sg (owner_object acb_body b)) \<and>
    (\<exists>key sg. acb_data_signature b = Some sg \<and> verify_object ci key sg (acb_data_object b) \<and>
       may_write ci d b key) \<and>
    (writing \<longrightarrow> (\<forall>k. k \<noteq> okb_owner_key b \<longrightarrow>
        (k \<in> set (ak_r (dn_admin_keys d)) \<longrightarrow> has_key k (acb_acl_entries b) False) \<and>
        (k \<in> set (ak_w (dn_admin_keys d)) \<longrightarrow> has_key k (acb_acl_entries b) True) \<and>
        (k \<in> set (ak_group_r (dn_admin_keys d)) \<longrightarrow> has_key k (acb_acl_group_entries b) False) \<and>
        (k \<in> set (ak_group_w (dn_admin_keys d)) \<longrightarrow> has_key k (acb_acl_group_entries b) True)))"
proof -
  obtain v where "okb_validate ci d acb_body b = Inr v" "vr_success v"
    using vr_then_success_dest [OF assms(1) [unfolded acb_validate_def acb_validate_with_def] assms(2)] by blast
  from okb_validate_sound [OF this]
    acb_validate_with_sound [OF assms(1) [unfolded acb_validate_def] assms(2-4)]
  show ?thesis by (auto simp: validate_admin_keys_sound)
qed

text \<open>
  C22. Setting the permissions of a user or of a group acts on the entries as an update
  of a map from keys to permissions, removing the key when no permission is left, and
  keeps the block well formed: keys unique, no entry for the owner, one key index per
  group.
\<close>

theorem set_permissions_refine:
  assumes "acb_wf b"
  shows "(\<forall>b'. set_permissions ci key rd wr b = (Inr (), b') \<longrightarrow> acb_wf b' \<and> key \<noteq> okb_owner_key b \<and>
        acl_perm (acb_acl_entries b') = perm_set key rd wr (acl_perm (acb_acl_entries b)) \<and>
        acb_acl_group_entries b' = acb_acl_group_entries b) \<and>
    (\<forall>b'. set_group_permissions ci d key rd wr b = (Inr (), b') \<longrightarrow> acb_wf b' \<and>
        acl_perm (acb_acl_group_entries b') = perm_set key rd wr (acl_perm (acb_acl_group_entries b)) \<and>
        acb_acl_entries b' = acb_acl_entries b)"
  using set_permissions_effect [OF _ assms] set_group_permissions_effect [OF _ assms]
    acl_only_keeps group_only_keeps by blast

text \<open>
  C40. Changing the world permissions of a block that its owner fetched and whose data was not
  read, and sealing it, replaces the data by nothing: the seal succeeds, the block validates,
  and everybody who may read it, the owner too, then reads an empty buffer, whatever the data
  was. (For a block without group entries, on a network without administrator groups.)
\<close>

theorem world_permissions_erase_data:
  assumes "acb_wf b" and "dn_K d = okb_owner_key b" and "key_pair ci (okb_owner_key b) (dn_k d)"
    and "token_opens ci (dn_k d) b" and "ak_group_r (dn_admin_keys d) = []" and "ak_group_w (dn_admin_keys d) = []"
    and "acb_acl_group_entries b = []" and "mb_seal_version b = None"
    and "equal_unflagged (blk_address b) (okb_hash_address ci (okb_owner_key b) (okb_salt b) (dn_version d))"
    and "acb_world_readable b \<noteq> rd \<or> acb_world_writable b \<noteq> wr"
    and "key \<noteq> []" and "ci_secret_pack ci key \<noteq> []" and "ci_secret_unpack ci (ci_secret_pack ci key) = Some key"
    and "ci_decipher ci key (ci_encipher ci key []) = Some []"
  shows "\<exists>b'. acb_seal n ci d None key (set_world_permissions rd wr (acb_received d b)) = (Inr (), b') \<and>
    acb_validate ci d True b' = Inr vr_ok \<and>
    (\<forall>d' c. can_read ci d' c \<and> (c = b' \<or> c = acb_received d' b') \<longrightarrow> acb_decrypt_data m ci d' c = Inr [])"
proof -
  let ?b = "set_world_permissions rd wr (acb_received d b)"
  have b: "acb_wf ?b" "okb_owner_private_key ?b = Some (dn_k d)" "okb_owner_key ?b = okb_owner_key b"
    "token_opens ci (dn_k d) ?b" "acb_acl_group_entries ?b = []" "mb_seal_version ?b = None"
    "acb_acl_changed ?b" "mb_data_changed ?b" "okb_data_plain ?b = []" "blk_address ?b = blk_address b" "okb_salt ?b = okb_salt b"
    using assms(1,2,4,7,8,10) by (simp_all add: set_world_permissions_def acb_received_def acb_wf_def token_opens_def)
  from acb_seal_succeeds [OF b(1,2,4) assms(5,6) b(5,6), of None n key] b(7)
  obtain b' where b': "acb_seal n ci d None key ?b = (Inr (), b')" by blast
  have "acb_validate ci d True b' = Inr vr_ok"
    using acb_seal_then_validate [OF b' b(1,2) _ b(6), of True] b(3,7,10,11) assms(3,9) by simp
  moreover have "acb_decrypt_data m ci d' c = Inr []" if "can_read ci d' c" "c = b' \<or> c = acb_received d' b'" for d' c
  proof -
    have c: "acb_content c = acb_content b'" "okb_owner_key c = okb_owner_key b'" using that(2) by auto
    from acb_seal_then_decrypt [OF b' [unfolded acb_seal_def] b(1,2,6,8) that(1) c assms(11-13)] b(9) assms(14)
    show ?thesis by simp
  qed
  ultimately show ?thesis using b' by blast
qed

text \<open>
  C31. Nested groups: when finitely many keys have a group block, fuel beyond the number
  of groups not being opened yet is enough to decrypt any block, and more fuel changes
  nothing.
\<close>

theorem acb_decrypt_terminates:
  assumes "groups_in ci d G" and "card (G - set (dn_stack d)) < n"
  shows "acb_decrypt_data n ci d b \<noteq> Inl NoFuel \<and>
    acb_decrypt_data (Suc n) ci d b = acb_decrypt_data n ci d b"
  by (rule acb_decrypt_data_fuel [OF assms])

text \<open>
  C27. A removal accepted by a block comes with a block at the same address, marked
  deleted, of a greater version, that validates for writing (unless it was validated
  before) and in which no group of the block has a smaller key index.
\<close>

theorem acb_remove_authorised:
  assumes "acb_validate_remove ci d rs b = Inr r" and "vr_success r"
  shows "\<exists>mb. rs_block rs = Some (ACB mb) \<and> acb_deleted mb \<and> acb_data_version b < acb_data_version mb \<and>
    addr_eq (blk_address b) (blk_address mb) \<and>
    (\<not> blk_validated mb \<longrightarrow> (\<exists>v. acb_validate ci d True mb = Inr v \<and> vr_success v)) \<and>
    (\<forall>i j. i < length (acb_acl_group_entries b) \<and> i < length (acb_group_version b) \<and>
       acl_index (acl_key (acb_acl_group_entries b ! i)) (acb_acl_group_entries mb) = Some j \<longrightarrow>
       acb_group_version b ! i \<le> acb_group_version mb ! j)"
proof -
  obtain mb v where mb: "rs_block rs = Some (ACB mb)" "acb_deleted mb" "acb_data_version b < acb_data_version mb"
    "\<not> blk_validated mb \<longrightarrow> (\<exists>v. acb_validate ci d True mb = Inr v \<and> vr_success v)"
    and v: "acb_validate_over b mb = Inr v" "vr_success v"
    using acb_validate_remove_sound [OF assms] by blast
  have "addr_eq (blk_address b) (blk_address mb)"
    using v by (auto simp: acb_validate_over_def block_validate_over_def vr_then_def split: if_splits)
  then show ?thesis using mb acb_validate_over_sound [OF v] by blast
qed

text \<open>
  Giving a group access before the block was ever sealed, when the group block
  cannot be fetched, fails after the entry was appended: the block is left with more
  group entries than key indexes.
\<close>

theorem set_group_permissions_partial:
  assumes "acb_wf b" and "acb_owner_token b = []" and "key \<notin> acl_key ` set (acb_acl_group_entries b)"
    and "rd \<or> wr" and "key \<notin> set (dn_stack d)" and "group_block ci d key = Inl e"
  shows "\<exists>b'. set_group_permissions ci d key rd wr b = (Inl (failed_group e), b') \<and>
    length (acb_acl_group_entries b') = length (acb_group_version b') + 1 \<and> \<not> acb_wf b'"
  using assms
  by (auto simp: set_group_permissions_def group_stack_push_def add_group_entry_def acb_wf_def
      iffD2 [OF acl_index_None])

section \<open>A concrete network\<close>

text \<open>
  Keys that are numbers, with signatures, envelopes and ciphers that keep their laws,
  for the examples below.
\<close>

definition toy_crypto :: "(nat, nat) crypto" where
  "toy_crypto = \<lparr>ci_sha256 = (\<lambda>b. take 32 (b @ replicate 32 0)), ci_der = (\<lambda>k. [of_nat k]),
     ci_json = (\<lambda>k. [of_nat k]), ci_sign = (\<lambda>k p. [of_nat k]), ci_verify = (\<lambda>k sg p. sg = [of_nat k]),
     ci_encrypt = (\<lambda>k b. of_nat k # b),
     ci_decrypt = (\<lambda>k b. if b \<noteq> [] \<and> hd b = of_nat k then Some (tl b) else None),
     ci_seal = (\<lambda>k b. of_nat k # b),
     ci_open = (\<lambda>k b. if b \<noteq> [] \<and> hd b = of_nat k then Some (tl b) else None),
     ci_encipher = (\<lambda>k b. k @ b),
     ci_decipher = (\<lambda>k b. if take (length k) b = k then Some (drop (length k) b) else None),
     ci_secret_pack = (\<lambda>k. 0 # k), ci_secret_unpack = (\<lambda>b. Some (tl b)),
     ci_keys_pack = (\<lambda>ks. map (\<lambda>(K, k). of_nat k) ks),
     ci_keys_unpack = (\<lambda>b. Some (map (\<lambda>w. (unat w, unat w)) b)),
     ci_private_pack = (\<lambda>k. [of_nat k]), ci_private_unpack = (\<lambda>b. Some (unat (hd b)))\<rparr>"

lemma toy_key_pair: "key_pair toy_crypto k k"
  by (simp add: key_pair_def toy_crypto_def)

definition toy_doughnut :: "nat \<Rightarrow> (nat, nat) doughnut" where
  "toy_doughnut k = \<lparr>dn_version = Version 0 8 0, dn_K = k, dn_k = k, dn_owner = 1,
     dn_admin_keys = \<lparr>ak_r = [], ak_w = [], ak_group_r = [], ak_group_w = []\<rparr>,
     dn_validate_signatures = True, dn_fetch = (\<lambda>a. Inl (MissingBlock a)), dn_stack = []\<rparr>"

text \<open>A new block of user 1 that user 2 may read, and the same block sealed.\<close>

definition toy_block :: "(nat, nat) acb" where
  "toy_block = snd (set_permissions toy_crypto 2 True False
     (acb_new toy_crypto (toy_doughnut 1) [1, 2, 3] [7] (1, 1)))"

definition toy_sealed :: "(nat, nat) acb" where
  "toy_sealed = snd (acb_seal 0 toy_crypto (toy_doughnut 1) None [9] toy_block)"

lemma toy_block_facts:
  "acb_wf toy_block" "okb_owner_private_key toy_block = Some 1" "okb_owner_key toy_block = 1"
  "acb_owner_token toy_block = []" "acb_acl_group_entries toy_block = []" "mb_seal_version toy_block = None"
  "mb_data_changed toy_block" "okb_signature toy_block = None" "okb_data_plain toy_block = [1, 2, 3]"
  "equal_unflagged (blk_address toy_block)
     (okb_hash_address toy_crypto (okb_owner_key toy_block) (okb_salt toy_block) (Version 0 8 0))"
  by code_simp+

lemma toy_sealed_seal: "acb_seal 0 toy_crypto (toy_doughnut 1) None [9] toy_block = (Inr (), toy_sealed)"
  by (subst toy_sealed_def, rule prod_eqI) (simp_all, code_simp)

lemma toy_admins [simp]:
  "dn_admin_keys (toy_doughnut k) = \<lparr>ak_r = [], ak_w = [], ak_group_r = [], ak_group_w = []\<rparr>"
  "dn_version (toy_doughnut k) = Version 0 8 0" "dn_K (toy_doughnut k) = k" "dn_k (toy_doughnut k) = k"
  "dn_stack (toy_doughnut k) = []" "dn_validate_signatures (toy_doughnut k)"
  by (simp_all add: toy_doughnut_def)

theorem acb_seal_validates_witness:
  "\<exists>b'. acb_seal 0 toy_crypto (toy_doughnut 1) None [9] toy_block = (Inr (), b') \<and>
     acb_validate toy_crypto (toy_doughnut 2) True b' = Inr vr_ok \<and> acb_wf b' \<and>
     acb_data_version b' = acb_data_version toy_block + 1"
proof -
  have "same_rules (toy_doughnut 1) (toy_doughnut 2)" by (simp add: same_rules_def toy_doughnut_def)
  then show ?thesis
    using acb_seal_validates [of toy_block 1 toy_crypto "toy_doughnut 1" None 0 "[9]" True]
      toy_block_facts toy_key_pair [of 1] by (auto simp: token_opens_def)
qed

lemma toy_reads: "can_read toy_crypto (toy_doughnut 2) (acb_received (toy_doughnut 2) toy_sealed)"
proof -
  have "okb_owner_private_key (acb_received (toy_doughnut 2) toy_sealed) = None"
    "acl_perm (acb_acl_entries (acb_received (toy_doughnut 2) toy_sealed)) 2 = Some (True, False)"
    by code_simp+
  then show ?thesis by (auto simp: can_read_def toy_key_pair)
qed

theorem acb_sealed_readable_witness:
  "acb_decrypt_data 0 toy_crypto (toy_doughnut 2) (acb_received (toy_doughnut 2) toy_sealed) = Inr [1, 2, 3]"
  using acb_sealed_readable [OF toy_sealed_seal _ _ _ _ toy_reads, of 1 0] toy_block_facts
  by (simp add: toy_crypto_def)

theorem acb_validate_authorised_witness:
  "\<exists>key sg. acb_data_signature toy_sealed = Some sg \<and>
     verify_object toy_crypto key sg (acb_data_object toy_sealed) \<and>
     may_write toy_crypto (toy_doughnut 2) toy_sealed key"
proof -
  have "acb_validate toy_crypto (toy_doughnut 2) True toy_sealed = Inr vr_ok" "\<not> acb_world_writable toy_sealed"
    by code_simp+
  then show ?thesis using acb_validate_authorised [of toy_crypto "toy_doughnut 2" True toy_sealed vr_ok] by simp
qed

theorem set_permissions_refine_witness:
  "acl_perm (acb_acl_entries (snd (set_permissions toy_crypto 2 True True toy_block))) 2 = Some (True, True)"
proof -
  have "fst (set_permissions toy_crypto 2 True True toy_block) = Inr ()" by code_simp
  then have "set_permissions toy_crypto 2 True True toy_block =
      (Inr (), snd (set_permissions toy_crypto 2 True True toy_block))" by (metis prod.collapse)
  then show ?thesis
    using set_permissions_refine [OF toy_block_facts(1), of toy_crypto 2 True True "toy_doughnut 1"]
    by (simp add: perm_set_def)
qed

theorem acb_decrypt_terminates_witness:
  "acb_decrypt_data 1 toy_crypto (toy_doughnut 2) toy_sealed \<noteq> Inl NoFuel"
proof -
  have "group_block toy_crypto (toy_doughnut 2) k = Inl (MissingBlock
      (okb_hash_address toy_crypto k group_block_key (Version 0 8 0)))" for k
    by (simp add: group_block_def fetch_gb_def toy_doughnut_def)
  then have "groups_in toy_crypto (toy_doughnut 2) {}" by (simp add: groups_in_def)
  from acb_decrypt_terminates [OF this, of 1 toy_sealed] show ?thesis by simp
qed

text \<open>The owner of the sealed block asks for its removal.\<close>

definition toy_remove :: "(nat, nat) remove_signature" where
  "toy_remove = (case acb_sign_remove 0 toy_crypto (toy_doughnut 1) [9] toy_sealed of
     Inr rs \<Rightarrow> rs | Inl _ \<Rightarrow> rs_empty)"

theorem acb_remove_authorised_witness:
  "\<exists>mb. rs_block toy_remove = Some (ACB mb) \<and> acb_deleted mb \<and>
     acb_data_version toy_sealed < acb_data_version mb"
proof -
  have "acb_validate_remove toy_crypto (toy_doughnut 2) toy_remove toy_sealed = Inr vr_ok" by code_simp
  from acb_remove_authorised [OF this] show ?thesis by auto
qed

theorem set_group_permissions_partial_witness:
  "\<exists>b'. snd (set_group_permissions toy_crypto (toy_doughnut 1) 5 True False toy_block) = b' \<and>
     length (acb_acl_group_entries b') = length (acb_group_version b') + 1 \<and> \<not> acb_wf b'"
  using set_group_permissions_partial [of toy_block 5 True False "toy_doughnut 1" toy_crypto
      "MissingBlock (okb_hash_address toy_crypto 5 group_block_key (Version 0 8 0))"] toy_block_facts
  by (auto simp: group_block_def fetch_gb_def toy_doughnut_def)

theorem world_permissions_erase_data_witness:
  "acb_decrypt_data 0 toy_crypto (toy_doughnut 1) (acb_received (toy_doughnut 1) toy_sealed) = Inr [1, 2, 3] \<and>
   (\<exists>b'. acb_seal 0 toy_crypto (toy_doughnut 1) None [9]
           (set_world_permissions False True (acb_received (toy_doughnut 1) toy_sealed)) = (Inr (), b') \<and>
      acb_validate toy_crypto (toy_doughnut 1) True b' = Inr vr_ok)"
proof
  show "acb_decrypt_data 0 toy_crypto (toy_doughnut 1) (acb_received (toy_doughnut 1) toy_sealed) = Inr [1, 2, 3]"
    by code_simp
  have f: "acb_wf toy_sealed" "okb_owner_key toy_sealed = 1" "acb_acl_group_entries toy_sealed = []"
    "mb_seal_version toy_sealed = None" "acb_world_writable toy_sealed = False"
    "equal_unflagged (blk_address toy_sealed) (okb_hash_address toy_crypto (okb_owner_key toy_sealed) (okb_salt toy_sealed) (Version 0 8 0))"
    by code_simp+
  have "open_token toy_crypto (Version 0 7 0 \<le> acb_seal_version toy_sealed) 1 (acb_owner_token toy_sealed) = Inr [9]"
    by code_simp
  then have t: "token_opens toy_crypto 1 toy_sealed" by (auto simp: token_opens_def)
  have c: "ci_secret_pack toy_crypto [9] \<noteq> []" "ci_secret_unpack toy_crypto (ci_secret_pack toy_crypto [9]) = Some [9]"
    "ci_decipher toy_crypto [9] (ci_encipher toy_crypto [9] []) = Some []" by code_simp+
  have "\<exists>b'. acb_seal 0 toy_crypto (toy_doughnut 1) None [9]
           (set_world_permissions False True (acb_received (toy_doughnut 1) toy_sealed)) = (Inr (), b') \<and>
      acb_validate toy_crypto (toy_doughnut 1) True b' = Inr vr_ok \<and>
      (\<forall>d' c. can_read toy_crypto d' c \<and> (c = b' \<or> c = acb_received d' b') \<longrightarrow> acb_decrypt_data 0 toy_crypto d' c = Inr [])"
    by (rule world_permissions_erase_data) (use f t c toy_key_pair [of 1] in \<open>simp_all del: One_nat_def\<close>)
  then show "\<exists>b'. acb_seal 0 toy_crypto (toy_doughnut 1) None [9]
           (set_world_permissions False True (acb_received (toy_doughnut 1) toy_sealed)) = (Inr (), b') \<and>
      acb_validate toy_crypto (toy_doughnut 1) True b' = Inr vr_ok" by blast
qed

end
