(* ===== verification/Memo_Immutable.thy ===== *)
theory Memo_Immutable
  imports Memo_Access
begin

text \<open>
  The block classes that are never rewritten: content hash blocks
  (src/memo/model/doughnut/CHB.cc), named blocks (NB.cc) and user blocks (UB.cc), with
  their addresses, validation and the signatures that authorise their removal.
\<close>

section \<open>Content hash blocks\<close>

definition chb_hash_address ::
  "('k, 's) crypto \<Rightarrow> buffer \<Rightarrow> address \<Rightarrow> buffer \<Rightarrow> version \<Rightarrow> address" where
  "chb_hash_address ci content ow salt v =
     (let ow' = (if v < Version 0 4 0 then addr_null else ow);
          saltowner = salt @ (if addr_bool ow' then addr_value ow' else []) in
      addr_flagged (ci_sha256 ci (saltowner @ content)) flags_immutable_block (Version 0 5 0 \<le> v))"

text \<open>The salt is the caller's or the value of a random address.\<close>

definition chb_new ::
  "('k, 's) crypto \<Rightarrow> ('k, 's) doughnut \<Rightarrow> buffer \<Rightarrow> buffer \<Rightarrow> address \<Rightarrow> chb" where
  "chb_new ci d dat salt ow =
     block.extend
       (block_new (chb_hash_address ci dat ow salt (dn_version d)) dat
          (if Version 0 4 0 \<le> dn_version d then ow else addr_null))
       \<lparr>chb_salt = salt\<rparr>"

definition chb_validate ::
  "('k, 's) crypto \<Rightarrow> ('k, 's) doughnut \<Rightarrow> chb \<Rightarrow> blk_error + validation_result" where
  "chb_validate ci d b =
     (let expected = chb_hash_address ci (blk_data b) (blk_owner b) (chb_salt b) (dn_version d) in
      if \<not> equal_unflagged (blk_address b) expected
      then Inr (address_invalid (blk_address b) expected) else Inr vr_ok)"

text \<open>
  \<^verbatim>\<open>CHB::sign_remove\<close>: a user without a write entry signs with the key of the first
  group of the owner block it can open, else with its own.
\<close>

fun group_remove_signature ::
  "nat \<Rightarrow> ('k, 's) crypto \<Rightarrow> ('k, 's) doughnut \<Rightarrow> 'k payload \<Rightarrow> 'k acl_entry list
     \<Rightarrow> blk_error + ('k, 's) remove_signature option" where
  "group_remove_signature n ci d to_sign [] = Inr None"
| "group_remove_signature n ci d to_sign (e # es) =
     (case bind_res (group_open ci d (acl_key e)) (\<lambda>(d', g).
             bind_res (gb_current_key ci (\<lambda>g. acb_decrypt_data n ci d' (acb.truncate g)) g) (\<lambda>kp.
               Inr (rs_empty\<lparr>rs_signature := Some (ci_sign ci (snd kp) to_sign),
                      rs_signature_key := Some (fst kp), rs_group_key := Some (acl_key e),
                      rs_group_index := Some (gb_group_version g - 1)\<rparr>))) of
        Inr rs \<Rightarrow> Inr (Some rs)
      | Inl err \<Rightarrow>
          if is_elle_error err then group_remove_signature n ci d to_sign es else Inl err)"

definition chb_sign_remove_for ::
  "nat \<Rightarrow> ('k, 's) crypto \<Rightarrow> ('k, 's) doughnut \<Rightarrow> address \<Rightarrow> address
     \<Rightarrow> blk_error + ('k, 's) remove_signature" where
  "chb_sign_remove_for n ci d a ow =
     (let to_sign = Bytes (addr_value a);
          own = rs_empty\<lparr>rs_signature := Some (ci_sign ci (dn_k d) to_sign), rs_signature_key := Some (dn_K d)\<rparr> in
      bind_res (dn_fetch d ow) (\<lambda>bl.
        case bl of
          Some (ACB acb) \<Rightarrow>
            if okb_owner_key acb = dn_K d then Inr own
            else
              (case acl_index (dn_K d) (acb_acl_entries acb) of
                 Some i \<Rightarrow>
                   if acl_write (acb_acl_entries acb ! i) then Inr own
                   else bind_res (group_remove_signature n ci d to_sign (acb_acl_group_entries acb))
                          (\<lambda>r. Inr (case r of Some rs \<Rightarrow> rs | None \<Rightarrow> own))
               | None \<Rightarrow>
                   bind_res (group_remove_signature n ci d to_sign (acb_acl_group_entries acb))
                     (\<lambda>r. Inr (case r of Some rs \<Rightarrow> rs | None \<Rightarrow> own)))
        | _ \<Rightarrow> Inr own))"

definition chb_sign_remove ::
  "nat \<Rightarrow> ('k, 's) crypto \<Rightarrow> ('k, 's) doughnut \<Rightarrow> chb \<Rightarrow> blk_error + ('k, 's) remove_signature" where
  "chb_sign_remove n ci d b =
     (if addr_bool (blk_owner b) then chb_sign_remove_for n ci d (blk_address b) (blk_owner b)
      else Inr rs_empty)"

text \<open>The key that signed must have write access to the owner block.\<close>

definition chb_key_access ::
  "('k, 's) crypto \<Rightarrow> ('k, 's) doughnut \<Rightarrow> ('k, 's) remove_signature \<Rightarrow> 'k \<Rightarrow> ('k, 's) acb
     \<Rightarrow> blk_error + bool" where
  "chb_key_access ci d rs key acb =
     (if acb_world_writable acb then Inr True
      else if okb_owner_key acb = key then Inr True
      else case rs_group_key rs of
        None \<Rightarrow>
          (case acl_index key (acb_acl_entries acb) of
             Some i \<Rightarrow> Inr (acl_write (acb_acl_entries acb ! i))
           | None \<Rightarrow> Inr False)
      | Some gk \<Rightarrow>
          (case acl_index gk (acb_acl_group_entries acb) of
             Some i \<Rightarrow>
               if acl_write (acb_acl_group_entries acb ! i) then
                 bind_res (group_public_keys ci d gk) (\<lambda>pubs.
                   case rs_group_index rs of
                     None \<Rightarrow> Inl UndefinedBehaviour
                   | Some gi \<Rightarrow>
                       if int (length pubs) > gi
                       then (if gi < 0 then Inl UndefinedBehaviour else Inr (pubs ! nat gi = key))
                       else Inr False)
               else Inr False
           | None \<Rightarrow> Inr False))"

definition chb_validate_remove ::
  "('k, 's) crypto \<Rightarrow> ('k, 's) doughnut \<Rightarrow> ('k, 's) remove_signature \<Rightarrow> chb
     \<Rightarrow> blk_error + validation_result" where
  "chb_validate_remove ci d rs b =
     (if \<not> addr_bool (blk_owner b) then Inr vr_ok
      else case (rs_signature_key rs, rs_signature rs) of
        (Some key, Some sg) \<Rightarrow>
          if \<not> ci_verify ci key sg (Bytes (addr_value (blk_address b)))
          then Inr (vr_failure ''Invalid signature'')
          else bind_res (dn_fetch d (blk_owner b)) (\<lambda>bl.
                 case bl of
                   Some (ACB acb) \<Rightarrow>
                     bind_res (chb_key_access ci d rs key acb) (\<lambda>ok.
                       Inr (if ok then vr_ok else vr_failure ''Key not found''))
                 | _ \<Rightarrow> Inr vr_ok)
      | _ \<Rightarrow> Inr (vr_failure ''Missing field in signature''))"

section \<open>Named blocks\<close>

text \<open>
  \<^verbatim>\<open>operator << (std::ostream&, ConstWeakBuffer)\<close> with the default flags: hexadecimal
  unless more than nine tenths of the bytes are printable. The source compares in
  \<^verbatim>\<open>float\<close>, where 0.9 is below the \<^verbatim>\<open>double\<close> 0.9, so exactly nine tenths is
  hexadecimal too.
\<close>

definition printable :: "byte \<Rightarrow> bool" where
  "printable c \<longleftrightarrow> 32 \<le> c \<and> c \<le> 126 \<or> c = 10"

definition buffer_print :: "buffer \<Rightarrow> buffer" where
  "buffer_print b =
     (if b = [] \<or> 10 * length (filter printable b) \<le> 9 * length b
      then bytes_of (''0x'' @ hex_encode b) else b)"

definition nb_address :: "('k, 's) crypto \<Rightarrow> 'k \<Rightarrow> string \<Rightarrow> version \<Rightarrow> address" where
  "nb_address ci ow name v =
     addr_flagged
       (ci_sha256 ci (bytes_of ''NB/'' @ buffer_print (ci_der ci ow) @ bytes_of ''/'' @ bytes_of name))
       flags_immutable_block (Version 0 5 0 \<le> v)"

definition nb_new ::
  "('k, 's) crypto \<Rightarrow> ('k, 's) doughnut \<Rightarrow> 'k \<Rightarrow> string \<Rightarrow> buffer \<Rightarrow> buffer \<Rightarrow> 'k nb" where
  "nb_new ci d ow name dat sg =
     block.extend (block_new (nb_address ci ow name (dn_version d)) dat addr_null)
       \<lparr>nb_owner = ow, nb_name = name, nb_signature = sg\<rparr>"

definition nb_data_sign :: "('k, 's) doughnut \<Rightarrow> 'k nb \<Rightarrow> 'k payload" where
  "nb_data_sign d b = NamedObject (dn_version d < Version 0 4 0) (nb_name b) (blk_data b)"

definition nb_seal ::
  "('k, 's) crypto \<Rightarrow> ('k, 's) doughnut \<Rightarrow> 'k nb \<Rightarrow> ('k nb, unit) run" where
  "nb_seal ci d b =
     (if nb_signature b \<noteq> [] then (Inr (), b)
      else if dn_K d \<noteq> nb_owner b then (Inl AssertErr, b)
      else (Inr (), b\<lparr>nb_signature := ci_sign ci (dn_k d) (nb_data_sign d b)\<rparr>))"

definition nb_validate ::
  "('k, 's) crypto \<Rightarrow> ('k, 's) doughnut \<Rightarrow> 'k nb \<Rightarrow> blk_error + validation_result" where
  "nb_validate ci d b =
     (let expected = nb_address ci (nb_owner b) (nb_name b) (dn_version d) in
      if \<not> equal_unflagged (blk_address b) expected
      then Inr (address_invalid (blk_address b) expected)
      else if \<not> ci_verify ci (nb_owner b) (nb_signature b) (nb_data_sign d b)
      then Inr (vr_failure ''invalid signature'') else Inr vr_ok)"

text \<open>
  Overwriting is allowed with an equal block. The owners are compared as shared
  pointers: \<open>same_owner\<close> says whether the two blocks hold the same pointer.
\<close>

definition nb_validate_over :: "bool \<Rightarrow> 'k nb \<Rightarrow> ('k, 's) any_block \<Rightarrow> validation_result" where
  "nb_validate_over same_owner b new =
     (case new of
        NB nb \<Rightarrow>
          if nb_name b = nb_name nb \<and> same_owner \<and> blk_data b = blk_data nb then vr_ok
          else vr_failure ''NB overwrite denied''
      | _ \<Rightarrow> vr_failure ''NB overwrite denied'')"

text \<open>
  The payload of a removal: 14 bytes read from a literal of 12, the last two being
  whatever follows it (\<open>tail\<close>).
\<close>

definition remove_payload :: "buffer \<Rightarrow> buffer" where
  "remove_payload tail = bytes_of ''MEMO_REMOVE'' @ [0] @ take 2 tail"

definition nb_sign_remove ::
  "('k, 's) crypto \<Rightarrow> ('k, 's) doughnut \<Rightarrow> buffer \<Rightarrow> 'k nb \<Rightarrow> blk_error + ('k, 's) remove_signature" where
  "nb_sign_remove ci d tail b =
     (case nb_seal ci d (nb_new ci d (dn_K d) (nb_name b) (remove_payload tail) []) of
        (Inl e, _) \<Rightarrow> Inl e
      | (Inr _, nb) \<Rightarrow> Inr (rs_empty\<lparr>rs_block := Some (NB nb)\<rparr>))"

definition nb_validate_remove ::
  "('k, 's) crypto \<Rightarrow> ('k, 's) doughnut \<Rightarrow> buffer \<Rightarrow> ('k, 's) remove_signature \<Rightarrow> 'k nb
     \<Rightarrow> blk_error + validation_result" where
  "nb_validate_remove ci d tail rs b =
     (case rs_block rs of
        None \<Rightarrow> Inr (vr_failure ''No block in signature'')
      | Some (NB nb) \<Rightarrow>
          vr_then (bind_res (block_validate (nb_validate ci d) nb) (\<lambda>(r, _). Inr r)) (\<lambda>_.
            if \<not> addr_eq (blk_address nb) (blk_address b) then Inr (vr_failure ''Address mismatch'')
            else if nb_owner nb \<noteq> nb_owner b then Inr (vr_failure ''Key mismatch (wow)'')
            else if blk_data nb \<noteq> remove_payload tail then Inr (vr_failure ''Invalid payload'')
            else Inr vr_ok)
      | Some _ \<Rightarrow> Inr (vr_failure ''not a NB''))"

section \<open>User blocks\<close>

definition ub_name_address :: "('k, 's) crypto \<Rightarrow> ('k, 's) doughnut \<Rightarrow> string \<Rightarrow> address" where
  "ub_name_address ci d name =
     addr_flagged (ci_sha256 ci (bytes_of ''UB/'' @ bytes_of name)) flags_immutable_block
       (Version 0 5 0 \<le> dn_version d)"

definition ub_key_address :: "('k, 's) crypto \<Rightarrow> ('k, 's) doughnut \<Rightarrow> 'k \<Rightarrow> address" where
  "ub_key_address ci d k =
     addr_flagged (ci_sha256 ci (bytes_of ''RUB/'' @ buffer_print (ci_der ci k))) flags_immutable_block
       (Version 0 5 0 \<le> dn_version d)"

definition ub_hash :: "('k, 's) crypto \<Rightarrow> 'k \<Rightarrow> buffer" where
  "ub_hash ci k = ci_sha256 ci (ci_der ci k)"

definition ub_new ::
  "('k, 's) crypto \<Rightarrow> ('k, 's) doughnut \<Rightarrow> string \<Rightarrow> 'k \<Rightarrow> bool \<Rightarrow> 'k passport option \<Rightarrow> 'k ub" where
  "ub_new ci d name k reverse pp =
     block.extend
       (block_new (if reverse then ub_key_address ci d k else ub_name_address ci d name) [] addr_null)
       \<lparr>ub_name = name, ub_key = k, ub_reverse = reverse, ub_passport = pp\<rparr>"

definition ub_with_passport ::
  "('k, 's) crypto \<Rightarrow> ('k, 's) doughnut \<Rightarrow> string \<Rightarrow> 'k passport \<Rightarrow> bool \<Rightarrow> 'k ub" where
  "ub_with_passport ci d name pp reverse = ub_new ci d name (pp_user pp) reverse (Some pp)"

definition ub_validate ::
  "('k, 's) crypto \<Rightarrow> ('k, 's) doughnut \<Rightarrow> 'k ub \<Rightarrow> blk_error + validation_result" where
  "ub_validate ci d b =
     (let expected = (if ub_reverse b then ub_key_address ci d (ub_key b)
                      else ub_name_address ci d (ub_name b)) in
      if \<not> equal_unflagged (blk_address b) expected
      then Inr (address_invalid (blk_address b) expected)
      else case ub_passport b of
             Some pp \<Rightarrow>
               if pp_user pp \<noteq> ub_key b then Inr (vr_failure ''user key mismatch in passport'')
               else Inr vr_ok
           | None \<Rightarrow> Inr vr_ok)"

text \<open>The serialized block is what a removal signs.\<close>

definition ub_object :: "'k ub \<Rightarrow> 'k payload" where
  "ub_object b = UserObject (blk_address b) (blk_data b) (blk_owner b) (ub_name b) (ub_key b) (ub_reverse b)
     (ub_passport b)"

definition ub_sign_remove ::
  "('k, 's) crypto \<Rightarrow> ('k, 's) doughnut \<Rightarrow> 'k ub \<Rightarrow> blk_error + ('k, 's) remove_signature" where
  "ub_sign_remove ci d b =
     (if dn_K d \<noteq> ub_key b \<and> dn_K d \<noteq> dn_owner d
      then Inl (ElleErr ''Only block owner and network owner can delete UB'')
      else Inr (rs_empty\<lparr>rs_signature_key := Some (dn_K d),
                         rs_signature := Some (ci_sign ci (dn_k d) (ub_object b))\<rparr>))"

definition ub_validate_remove ::
  "('k, 's) crypto \<Rightarrow> ('k, 's) doughnut \<Rightarrow> ('k, 's) remove_signature \<Rightarrow> 'k ub
     \<Rightarrow> blk_error + validation_result" where
  "ub_validate_remove ci d rs b =
     (case (rs_signature_key rs, rs_signature rs) of
        (Some key, Some sg) \<Rightarrow>
          if \<not> ci_verify ci key sg (ub_object b) then Inr (vr_failure ''Invalid signature'')
          else if key \<noteq> dn_owner d \<and> key \<noteq> ub_key b then Inr (vr_failure ''Unauthorized signing key'')
          else Inr vr_ok
      | _ \<Rightarrow> Inr (vr_failure ''Missing key or signature''))"

definition ub_validate_over :: "'k ub \<Rightarrow> ('k, 's) any_block \<Rightarrow> validation_result" where
  "ub_validate_over b new =
     (case new of
        UB ub \<Rightarrow>
          if ub_name b = ub_name ub \<and> ub_key b = ub_key ub \<and> ub_reverse b = ub_reverse ub then vr_ok
          else vr_failure ''UB overwrite denied''
      | _ \<Rightarrow> vr_failure ''UB overwrite denied'')"

section \<open>Content hash blocks: integrity\<close>

text \<open>What is hashed: the salt, the owner if there is one, and the content.\<close>

definition chb_input :: "version \<Rightarrow> chb \<Rightarrow> buffer" where
  "chb_input v b =
     chb_salt b @
     (if \<not> v < Version 0 4 0 \<and> addr_bool (blk_owner b) then addr_value (blk_owner b) else []) @
     blk_data b"

lemma addr_bool_null [simp]: "\<not> addr_bool addr_null"
  by (simp add: addr_bool_def addr_eq_def addr_cmp_def)

lemma chb_hash_address_input:
  "chb_hash_address ci (blk_data b) (blk_owner b) (chb_salt b) v =
     addr_flagged (ci_sha256 ci (chb_input v b)) flags_immutable_block (Version 0 5 0 \<le> v)"
  by (simp add: chb_hash_address_def chb_input_def Let_def)

lemma chb_validate_iff:
  "chb_validate ci d b = Inr vr_ok \<longleftrightarrow>
     equal_unflagged (blk_address b)
       (addr_flagged (ci_sha256 ci (chb_input (dn_version d) b)) flags_immutable_block
          (Version 0 5 0 \<le> dn_version d))"
  by (auto simp: chb_validate_def Let_def chb_hash_address_input address_invalid_def vr_ok_def vr_failure_def)

lemma equal_unflagged_flagged:
  assumes "addr_wf a" and "length h = value_size"
  shows "equal_unflagged a (addr_flagged h fl cmb) \<longleftrightarrow> take flag_byte (addr_value a) = take flag_byte h"
proof -
  have "addr_wf (addr_flagged h fl cmb)" using assms(2) by (simp add: addr_wf_def addr_flagged_def)
  moreover have "take flag_byte (addr_value (addr_flagged h fl cmb)) = take flag_byte h"
    using assms(2) by (simp add: addr_flagged_def value_size_def flag_byte_def)
  ultimately show ?thesis using equal_unflagged_take [OF assms(1)] by simp
qed

text \<open>
  The hash has 32 bytes and no two inputs in \<open>S\<close> agree on the first 31 bytes.
\<close>

definition hash_ok :: "('k, 's) crypto \<Rightarrow> buffer set \<Rightarrow> bool" where
  "hash_ok ci S \<longleftrightarrow> (\<forall>x. length (ci_sha256 ci x) = value_size) \<and>
     inj_on (\<lambda>x. take flag_byte (ci_sha256 ci x)) S"

lemma chb_same_input:
  assumes "chb_validate ci d b = Inr vr_ok" and "chb_validate ci d c = Inr vr_ok"
    and "addr_wf (blk_address b)" and "addr_wf (blk_address c)"
    and "equal_unflagged (blk_address b) (blk_address c)"
    and "hash_ok ci {chb_input (dn_version d) b, chb_input (dn_version d) c}"
  shows "chb_input (dn_version d) b = chb_input (dn_version d) c"
proof -
  let ?h = "\<lambda>b. ci_sha256 ci (chb_input (dn_version d) b)"
  have len: "length (?h x) = value_size" for x using assms(6) by (simp add: hash_ok_def)
  have "take flag_byte (addr_value (blk_address b)) = take flag_byte (?h b)"
    using assms(1) unfolding chb_validate_iff equal_unflagged_flagged [OF assms(3) len] .
  moreover have "take flag_byte (addr_value (blk_address c)) = take flag_byte (?h c)"
    using assms(2) unfolding chb_validate_iff equal_unflagged_flagged [OF assms(4) len] .
  ultimately have "take flag_byte (?h b) = take flag_byte (?h c)"
    using assms(5) unfolding equal_unflagged_take [OF assms(3,4)] by metis
  moreover have "inj_on (\<lambda>x. take flag_byte (ci_sha256 ci x))
      {chb_input (dn_version d) b, chb_input (dn_version d) c}"
    using assms(6) by (simp only: hash_ok_def)
  ultimately show ?thesis using inj_onD by fastforce
qed

lemma chb_input_split:
  assumes "chb_input v b = chb_input v c" and "length (chb_salt b) = length (chb_salt c)"
    and "addr_value (blk_owner b) = addr_value (blk_owner c)"
  shows "chb_salt b = chb_salt c \<and> blk_data b = blk_data c"
proof -
  have "addr_bool (blk_owner b) = addr_bool (blk_owner c)"
    using assms(3) by (simp add: addr_bool_def addr_eq_def addr_cmp_def)
  then show ?thesis using assms by (simp add: chb_input_def split: if_splits)
qed

text \<open>
  C34. A new content hash block validates, and the address of a content hash block
  binds its data: two valid blocks at one address, with salts of one length and the
  same owner, have the same salt and data, unless they make a collision of SHA-256
  truncated to 31 bytes.
\<close>

theorem chb_address_binds:
  "chb_validate ci d (chb_new ci d dat salt ow) = Inr vr_ok \<and>
   (chb_validate ci d b = Inr vr_ok \<and> chb_validate ci d c = Inr vr_ok \<and>
    addr_wf (blk_address b) \<and> addr_wf (blk_address c) \<and>
    equal_unflagged (blk_address b) (blk_address c) \<and>
    hash_ok ci {chb_input (dn_version d) b, chb_input (dn_version d) c} \<and>
    length (chb_salt b) = length (chb_salt c) \<and> addr_value (blk_owner b) = addr_value (blk_owner c) \<longrightarrow>
      chb_salt b = chb_salt c \<and> blk_data b = blk_data c)"
proof -
  have "chb_hash_address ci dat (if Version 0 4 0 \<le> dn_version d then ow else addr_null) salt (dn_version d) =
      chb_hash_address ci dat ow salt (dn_version d)"
    by (auto simp: chb_hash_address_def not_le)
  then have "chb_validate ci d (chb_new ci d dat salt ow) = Inr vr_ok"
    by (simp add: chb_validate_def chb_new_def block_new_def block.extend_def Let_def)
  then show ?thesis using chb_same_input chb_input_split by blast
qed

text \<open>
  C33. The salt has no fixed length and the owner is hashed after it: from a valid block
  one makes other valid blocks at its address, with a different content, or without
  owner, which anyone may then remove.
\<close>

theorem chb_malleable:
  assumes "chb_validate ci d b = Inr vr_ok" and "chb_salt b = s @ t" and "\<not> addr_bool (blk_owner b)"
  shows "chb_validate ci d (b\<lparr>chb_salt := s, blk_data := t @ blk_data b\<rparr>) = Inr vr_ok \<and>
    (\<forall>c rs. chb_validate ci d c = Inr vr_ok \<and> addr_bool (blk_owner c) \<and> Version 0 4 0 \<le> dn_version d \<longrightarrow>
       (let c' = c\<lparr>chb_salt := chb_salt c @ addr_value (blk_owner c), blk_owner := addr_null\<rparr> in
        chb_validate ci d c' = Inr vr_ok \<and> chb_validate_remove ci d rs c' = Inr vr_ok))"
  using assms by (auto simp: chb_validate_iff chb_input_def chb_validate_remove_def Let_def)

section \<open>Removals\<close>




lemma chb_remove_accepted:
  assumes "dn_fetch d (blk_owner b) = Inr (Some (ACB acb))"
    and "key_pair ci (dn_K d) (dn_k d)"
    and "okb_owner_key acb = dn_K d \<or>
      (\<exists>i. acl_index (dn_K d) (acb_acl_entries acb) = Some i \<and> acl_write (acb_acl_entries acb ! i))"
    and "chb_sign_remove n ci d b = Inr rs"
  shows "chb_validate_remove ci d rs b = Inr vr_ok"
proof (cases "addr_bool (blk_owner b)")
  case True
  have rs: "rs = rs_empty\<lparr>rs_signature := Some (ci_sign ci (dn_k d) (Bytes (addr_value (blk_address b)))),
      rs_signature_key := Some (dn_K d)\<rparr>"
    using assms(1,3,4) True
    by (auto simp: chb_sign_remove_def chb_sign_remove_for_def Let_def split: if_splits)
  have "ci_verify ci (dn_K d) (ci_sign ci (dn_k d) p) p" for p using assms(2) by (simp add: key_pair_def)
  moreover have "chb_key_access ci d rs (dn_K d) acb = Inr True"
    using assms(3) by (auto simp: chb_key_access_def rs rs_empty_def)
  ultimately show ?thesis using assms(1) True by (simp add: chb_validate_remove_def rs)
qed (simp add: chb_validate_remove_def)

section \<open>Named and user blocks\<close>

lemma nb_seal_valid:
  assumes "key_pair ci (dn_K d) (dn_k d)" and "\<forall>p. ci_sign ci (dn_k d) p \<noteq> []"
  shows "\<exists>b'. nb_seal ci d (nb_new ci d (dn_K d) name dat []) = (Inr (), b') \<and> \<not> blk_validated b' \<and>
    nb_validate ci d b' = Inr vr_ok \<and> blk_address b' = nb_address ci (dn_K d) name (dn_version d) \<and>
    blk_data b' = dat \<and> nb_owner b' = dn_K d"
  using assms
  by (auto simp: nb_seal_def nb_new_def nb_validate_def nb_data_sign_def block_new_def block.extend_def
      key_pair_def Let_def)

lemma addr_eq_refl [simp]: "addr_eq a a"
  by (simp add: addr_eq_def addr_cmp_def)

text \<open>
  Named blocks: what the owner seals validates, and the owner's removal of its block
  is accepted; an accepted removal carries a block signed by the owner of the removed
  block, with its name's address and the removal payload.
\<close>

theorem nb_roundtrip_and_removal:
  assumes "key_pair ci (dn_K d) (dn_k d)" and "\<forall>p. ci_sign ci (dn_k d) p \<noteq> []"
    and "b = nb_new ci d (dn_K d) name dat sg"
  shows "(\<exists>b'. nb_seal ci d (nb_new ci d (dn_K d) name dat []) = (Inr (), b') \<and>
      nb_validate ci d b' = Inr vr_ok) \<and>
    (\<exists>rs. nb_sign_remove ci d tail b = Inr rs \<and> nb_validate_remove ci d tail rs b = Inr vr_ok) \<and>
    (\<forall>rs r nb. nb_validate_remove ci d tail rs b = Inr r \<and> vr_success r \<and> rs_block rs = Some (NB nb) \<and>
       \<not> blk_validated nb \<longrightarrow>
       nb_owner nb = dn_K d \<and> blk_data nb = remove_payload tail \<and>
       ci_verify ci (dn_K d) (nb_signature nb) (nb_data_sign d nb))"
proof -
  have nm: "nb_name b = name" "blk_address b = nb_address ci (dn_K d) name (dn_version d)" "nb_owner b = dn_K d"
    by (simp_all add: assms(3) nb_new_def block_new_def block.extend_def)
  obtain b' where b': "nb_seal ci d (nb_new ci d (dn_K d) name (remove_payload tail) []) = (Inr (), b')"
    "\<not> blk_validated b'" "nb_validate ci d b' = Inr vr_ok" "blk_address b' = blk_address b"
    "blk_data b' = remove_payload tail" "nb_owner b' = dn_K d"
    using nb_seal_valid [OF assms(1,2)] nm by metis
  have "\<exists>rs. nb_sign_remove ci d tail b = Inr rs \<and> nb_validate_remove ci d tail rs b = Inr vr_ok"
    using b' nm by (simp add: nb_sign_remove_def nb_validate_remove_def block_validate_def rs_empty_def)
  moreover have "nb_owner nb = dn_K d \<and> blk_data nb = remove_payload tail \<and>
       ci_verify ci (dn_K d) (nb_signature nb) (nb_data_sign d nb)"
    if "nb_validate_remove ci d tail rs b = Inr r" "vr_success r" "rs_block rs = Some (NB nb)" "\<not> blk_validated nb"
    for rs r nb
    using that nm
    by (auto simp: nb_validate_remove_def block_validate_def nb_validate_def vr_then_def Let_def bind_res_eq_Inr
        split: if_splits)
  ultimately show ?thesis using nb_seal_valid [OF assms(1,2)] by blast
qed

text \<open>
  User blocks: the user and the owner of the network can remove a user block and
  nobody else can.
\<close>

theorem ub_removal:
  "(key_pair ci (dn_K d) (dn_k d) \<longrightarrow>
     (case ub_sign_remove ci d b of
        Inr rs \<Rightarrow> (dn_K d = ub_key b \<or> dn_K d = dn_owner d) \<and> ub_validate_remove ci d rs b = Inr vr_ok
      | Inl _ \<Rightarrow> dn_K d \<noteq> ub_key b \<and> dn_K d \<noteq> dn_owner d)) \<and>
   (\<forall>r. ub_validate_remove ci d rs b = Inr r \<and> vr_success r \<longrightarrow>
     (\<exists>key sg. rs_signature_key rs = Some key \<and> rs_signature rs = Some sg \<and>
        ci_verify ci key sg (ub_object b) \<and> (key = dn_owner d \<or> key = ub_key b)))"
  by (auto simp: ub_sign_remove_def ub_validate_remove_def key_pair_def rs_empty_def split: option.splits if_splits)

text \<open>
  A named or user block can be written again with an equal block; for a named block
  this needs both to hold the same owner pointer, so the same block read twice is
  refused.
\<close>

lemma overwrite_equal:
  "ub_validate_over ub (UB ub) = vr_ok \<and> nb_validate_over True nb (NB nb) = vr_ok \<and>
   nb_validate_over False nb (NB nb) = vr_failure ''NB overwrite denied''"
  by (simp add: ub_validate_over_def nb_validate_over_def)

section \<open>Examples\<close>

definition toy_chb :: chb where
  "toy_chb = chb_new toy_crypto (toy_doughnut 1) [1, 2, 3] [4, 5] addr_null"

theorem chb_address_binds_witness:
  "chb_validate toy_crypto (toy_doughnut 1) toy_chb = Inr vr_ok \<and>
   chb_salt toy_chb = chb_salt (toy_chb\<lparr>blk_validated := True\<rparr>) \<and>
   blk_data toy_chb = blk_data (toy_chb\<lparr>blk_validated := True\<rparr>)"
proof -
  let ?c = "toy_chb\<lparr>blk_validated := True\<rparr>"
  have "chb_validate toy_crypto (toy_doughnut 1) ?c = Inr vr_ok" "addr_wf (blk_address toy_chb)"
    "addr_wf (blk_address ?c)" "equal_unflagged (blk_address toy_chb) (blk_address ?c)"
    "chb_input (dn_version (toy_doughnut 1)) ?c = chb_input (dn_version (toy_doughnut 1)) toy_chb"
    by code_simp+
  moreover have "hash_ok toy_crypto {x}" for x by (auto simp: hash_ok_def toy_crypto_def value_size_def)
  ultimately show ?thesis
    using chb_address_binds [of toy_crypto "toy_doughnut 1" "[1, 2, 3]" "[4, 5]" addr_null toy_chb ?c,
        folded toy_chb_def] by simp
qed

theorem chb_malleable_witness:
  "chb_validate toy_crypto (toy_doughnut 1) (toy_chb\<lparr>chb_salt := [4], blk_data := [5, 1, 2, 3]\<rparr>) = Inr vr_ok"
proof -
  have "chb_validate toy_crypto (toy_doughnut 1) toy_chb = Inr vr_ok" "chb_salt toy_chb = [4] @ [5]"
    "\<not> addr_bool (blk_owner toy_chb)" "blk_data toy_chb = [1, 2, 3]"
    by code_simp+
  then show ?thesis using chb_malleable [of toy_crypto "toy_doughnut 1" toy_chb "[4]" "[5]"] by simp
qed




theorem nb_roundtrip_and_removal_witness:
  "\<exists>rs. nb_sign_remove toy_crypto (toy_doughnut 1) [6, 7] (nb_new toy_crypto (toy_doughnut 1) 1 ''a'' [1] []) = Inr rs \<and>
     nb_validate_remove toy_crypto (toy_doughnut 1) [6, 7] rs (nb_new toy_crypto (toy_doughnut 1) 1 ''a'' [1] []) = Inr vr_ok"
proof -
  have "\<forall>p. ci_sign toy_crypto (dn_k (toy_doughnut 1)) p \<noteq> []" by (simp add: toy_crypto_def)
  from nb_roundtrip_and_removal [of toy_crypto "toy_doughnut 1", OF _ this refl, of "''a''" "[1]" "[6, 7]" "[]"]
  show ?thesis using toy_key_pair [of 1] by simp
qed

theorem ub_removal_witness:
  "\<exists>rs. ub_sign_remove toy_crypto (toy_doughnut 2) (ub_new toy_crypto (toy_doughnut 2) ''u'' 2 False None) = Inr rs \<and>
     ub_validate_remove toy_crypto (toy_doughnut 2) rs (ub_new toy_crypto (toy_doughnut 2) ''u'' 2 False None) = Inr vr_ok"
proof -
  have "ub_key (ub_new toy_crypto (toy_doughnut 2) ''u'' 2 False None) = 2" by code_simp
  then show ?thesis
    using ub_removal [of toy_crypto "toy_doughnut 2" "ub_new toy_crypto (toy_doughnut 2) ''u'' 2 False None" rs_empty]
      toy_key_pair [of 2]
    by (auto split: sum.splits)
qed

end
