(* ===== verification/Memo_Passport.thy ===== *)
theory Memo_Passport
  imports Memo_Immutable
begin

text \<open>
  Passports (src/memo/model/doughnut/Passport.cc), by which the owner of a network or a
  certifier admits users, their validation by a node (\<^verbatim>\<open>Doughnut::verify\<close> in
  Doughnut.cc), which follows the chain of certifiers through their user blocks, and
  the cache of key indexes of a node (\<^verbatim>\<open>ensure_key\<close>, \<^verbatim>\<open>resolve_key\<close>).
\<close>

section \<open>Passports\<close>

definition passport_fingerprint :: "bool \<Rightarrow> 'k passport \<Rightarrow> 'k payload" where
  "passport_fingerprint acl p =
     Fingerprint (pp_user p) (pp_network p)
       (if acl then Some (pp_allow_write p, pp_allow_storage p, pp_allow_sign p) else None)"

definition passport_new ::
  "('k, 's) crypto \<Rightarrow> 'k \<Rightarrow> string \<Rightarrow> 'k \<times> 's \<Rightarrow> bool \<Rightarrow> bool \<Rightarrow> bool \<Rightarrow> bool \<Rightarrow> 'k passport" where
  "passport_new ci user network keys store_certifier w st sg =
     (let p = \<lparr>pp_user = user, pp_network = network, pp_signature = [], pp_certifier = None,
               pp_allow_write = w, pp_allow_storage = st, pp_allow_sign = sg\<rparr> in
      p\<lparr>pp_signature := ci_sign ci (snd keys) (passport_fingerprint True p),
        pp_certifier := (if store_certifier then Some (fst keys) else None)\<rparr>)"

text \<open>
  A signature is tried with the permissions and then, for passports made before they
  existed, without. A passport of the second kind must not be allowed to sign.
\<close>

definition passport_verify :: "('k, 's) crypto \<Rightarrow> 'k \<Rightarrow> 'k passport \<Rightarrow> bool" where
  "passport_verify ci ow p =
     (if pp_certifier p \<noteq> None \<and> pp_certifier p \<noteq> Some ow then False
      else if ci_verify ci ow (pp_signature p) (passport_fingerprint True p) then True
      else if ci_verify ci ow (pp_signature p) (passport_fingerprint False p) then \<not> pp_allow_sign p
      else False)"

text \<open>What is transmitted, and what is read: before version 0.5.0 no permissions.\<close>

record 'k passport_wire =
  pw_user :: 'k
  pw_network :: string
  pw_signature :: buffer
  pw_acl :: "(bool \<times> bool \<times> bool \<times> 'k option) option"

definition passport_serialize :: "version option \<Rightarrow> 'k passport \<Rightarrow> 'k passport_wire" where
  "passport_serialize dn p =
     \<lparr>pw_user = pp_user p, pw_network = pp_network p, pw_signature = pp_signature p,
      pw_acl = (if dn = None \<or> Version 0 5 0 \<le> the dn
                then Some (pp_allow_write p, pp_allow_storage p, pp_allow_sign p, pp_certifier p)
                else None)\<rparr>"

definition passport_deserialize :: "version option \<Rightarrow> 'k passport_wire \<Rightarrow> 'k passport" where
  "passport_deserialize dn w =
     (let p = \<lparr>pp_user = pw_user w, pp_network = pw_network w, pp_signature = pw_signature w,
               pp_certifier = None, pp_allow_write = True, pp_allow_storage = True, pp_allow_sign = False\<rparr> in
      if dn = None \<or> Version 0 5 0 \<le> the dn then
        (case pw_acl w of
           Some (w', st, sg, c) \<Rightarrow>
             p\<lparr>pp_allow_write := w', pp_allow_storage := st, pp_allow_sign := sg, pp_certifier := c\<rparr>
         | None \<Rightarrow> p)
      else p)"

section \<open>Verification by a node\<close>

text \<open>
  \<^verbatim>\<open>Doughnut::verify\<close>. A chain of certifiers may be cyclic, so the recursion has fuel.
  What is thrown while the certifier's block is fetched is caught; a block of another
  class is dereferenced as a null pointer.
\<close>

fun doughnut_verify ::
  "nat \<Rightarrow> ('k, 's) crypto \<Rightarrow> ('k, 's) doughnut \<Rightarrow> 'k passport \<Rightarrow> bool \<Rightarrow> bool \<Rightarrow> bool
     \<Rightarrow> blk_error + bool" where
  "doughnut_verify 0 ci d p rw rs rg = Inl NoFuel"
| "doughnut_verify (Suc n) ci d p rw rs rg =
     (if rw \<and> \<not> pp_allow_write p \<or> rs \<and> \<not> pp_allow_storage p \<or> rg \<and> \<not> pp_allow_sign p
      then Inr False
      else case pp_certifier p of
        None \<Rightarrow> Inr (passport_verify ci (dn_owner d) p)
      | Some c \<Rightarrow>
          if c = dn_owner d then Inr (passport_verify ci (dn_owner d) p)
          else if \<not> passport_verify ci c p then Inr False
          else
            (case dn_fetch d (ub_key_address ci d c) of
               Inl e \<Rightarrow> if e = UndefinedBehaviour \<or> e = NoFuel then Inl e else Inr False
             | Inr (Some (UB ub)) \<Rightarrow>
                 (case ub_passport ub of
                    None \<Rightarrow> Inr False
                  | Some p' \<Rightarrow> doughnut_verify n ci d p' False False True)
             | Inr _ \<Rightarrow> Inl UndefinedBehaviour))"

section \<open>Indexes of keys\<close>

text \<open>The cache is ordered by insertion; a key's index is its position.\<close>

definition ensure_key :: "'k \<Rightarrow> ('k \<times> int) list \<Rightarrow> int \<times> ('k \<times> int) list" where
  "ensure_key k cache =
     (case map_of cache k of
        None \<Rightarrow> (int (length cache), cache @ [(k, int (length cache))])
      | Some i \<Rightarrow> (i, cache))"

definition resolve_key :: "int \<Rightarrow> ('k \<times> int) list \<Rightarrow> blk_error + 'k" where
  "resolve_key h cache =
     (case map_of (map (\<lambda>(k, i). (i, k)) cache) h of
        None \<Rightarrow> Inl (ElleErr ''failed to resolve key hash locally'')
      | Some k \<Rightarrow> Inr k)"

section \<open>Chains of certifiers\<close>

text \<open>
  A passport is certified when it verifies under the network owner's key, or under the
  key of a certifier whose user block holds a certified passport that allows signing.
\<close>

inductive certified :: "('k, 's) crypto \<Rightarrow> ('k, 's) doughnut \<Rightarrow> 'k passport \<Rightarrow> bool"
  for ci :: "('k, 's) crypto" and d :: "('k, 's) doughnut" where
  root: "pp_certifier p = None \<or> pp_certifier p = Some (dn_owner d) \<Longrightarrow>
     passport_verify ci (dn_owner d) p \<Longrightarrow> certified ci d p"
| link: "pp_certifier p = Some c \<Longrightarrow> c \<noteq> dn_owner d \<Longrightarrow> passport_verify ci c p \<Longrightarrow>
     dn_fetch d (ub_key_address ci d c) = Inr (Some (UB ub)) \<Longrightarrow> ub_passport ub = Some p' \<Longrightarrow>
     pp_allow_sign p' \<Longrightarrow> certified ci d p' \<Longrightarrow> certified ci d p"

definition allows :: "'k passport \<Rightarrow> bool \<Rightarrow> bool \<Rightarrow> bool \<Rightarrow> bool" where
  "allows p rw rs rg \<longleftrightarrow>
     (rw \<longrightarrow> pp_allow_write p) \<and> (rs \<longrightarrow> pp_allow_storage p) \<and> (rg \<longrightarrow> pp_allow_sign p)"

lemma verify_sound:
  "doughnut_verify n ci d p rw rs rg = Inr True \<Longrightarrow> allows p rw rs rg \<and> certified ci d p"
proof (induction n arbitrary: p rw rs rg)
  case (Suc n)
  have al: "allows p rw rs rg" using Suc.prems by (auto simp: allows_def split: if_splits)
  have "certified ci d p"
  proof (cases "pp_certifier p = None \<or> pp_certifier p = Some (dn_owner d)")
    case True
    then show ?thesis using Suc.prems by (auto intro: certified.root split: if_splits)
  next
    case False
    then obtain c where c: "pp_certifier p = Some c" "c \<noteq> dn_owner d" by auto
    then obtain ub p' where "passport_verify ci c p"
      "dn_fetch d (ub_key_address ci d c) = Inr (Some (UB ub))" "ub_passport ub = Some p'"
      "doughnut_verify n ci d p' False False True = Inr True"
      using Suc.prems by (auto split: if_splits sum.splits option.splits any_block.splits)
    with Suc.IH [OF this(4)] c show ?thesis by (auto simp: allows_def intro: certified.link)
  qed
  with al show ?case by blast
qed simp

lemma verify_complete:
  "certified ci d p \<Longrightarrow> \<exists>n. \<forall>rw rs rg. allows p rw rs rg \<longrightarrow> doughnut_verify n ci d p rw rs rg = Inr True"
proof (induction rule: certified.induct)
  case (root p)
  then have "\<forall>rw rs rg. allows p rw rs rg \<longrightarrow> doughnut_verify (Suc 0) ci d p rw rs rg = Inr True"
    by (auto simp: allows_def)
  then show ?case by blast
next
  case (link p c ub p')
  then obtain n where n: "\<forall>rw rs rg. allows p' rw rs rg \<longrightarrow> doughnut_verify n ci d p' rw rs rg = Inr True" by blast
  have "allows p' False False True" using link.hyps by (simp add: allows_def)
  then have "doughnut_verify n ci d p' False False True = Inr True" using n by blast
  with link have "\<forall>rw rs rg. allows p rw rs rg \<longrightarrow> doughnut_verify (Suc n) ci d p rw rs rg = Inr True"
    by (auto simp: allows_def)
  then show ?case by blast
qed

text \<open>
  C26. A node accepts a passport exactly when it allows what is required and a chain of
  certifiers, each admitted by a passport that allows signing, leads to the owner of the
  network.
\<close>

theorem verify_iff_certified:
  "(\<exists>n. doughnut_verify n ci d p rw rs rg = Inr True) \<longleftrightarrow> allows p rw rs rg \<and> certified ci d p"
  using verify_sound verify_complete by blast

lemma verify_loop:
  assumes "pp_certifier q = Some c" and "c \<noteq> dn_owner d" and "passport_verify ci c q" and "pp_allow_sign q"
    and "dn_fetch d (ub_key_address ci d c) = Inr (Some (UB ub))" and "ub_passport ub = Some q"
  shows "doughnut_verify n ci d q False False True = Inl NoFuel"
  using assms by (induction n) simp_all

text \<open>
  C39. When the user block of a certifier holds a passport certified by its own key, the
  validation of a passport it certifies does not end, whatever the fuel; and such a user
  block validates, so any user can store one.
\<close>

theorem verify_diverges:
  assumes "pp_certifier p = Some c" and "c \<noteq> dn_owner d" and "passport_verify ci c p"
    and "dn_fetch d (ub_key_address ci d c) = Inr (Some (UB ub))" and "ub_passport ub = Some q"
    and "pp_certifier q = Some c" and "passport_verify ci c q" and "pp_allow_sign q" and "pp_user q = c"
    and "ub = ub_with_passport ci d name q True" and "allows p rw rs rg"
  shows "doughnut_verify n ci d p rw rs rg = Inl NoFuel \<and> ub_validate ci d ub = Inr vr_ok"
proof -
  have "doughnut_verify n ci d p rw rs rg = Inl NoFuel"
    using assms verify_loop [OF assms(6,2,7,8,4,5)]
    by (cases n) (auto simp: allows_def)
  then show ?thesis
    using assms(9) by (simp add: assms(10) ub_validate_def ub_with_passport_def ub_new_def
        block.extend_def block_new_def Let_def)
qed

text \<open>
  A passport made by the owner of the network verifies and is accepted for what it
  allows, also after it is transmitted, from version 0.5.0 on.
\<close>

theorem passport_roundtrip:
  assumes "key_pair ci (dn_owner d) k" and "dn = None \<or> Version 0 5 0 \<le> the dn"
    and "p = passport_new ci user network (dn_owner d, k) store w st sg"
  shows "passport_deserialize dn (passport_serialize dn p) = p \<and>
    doughnut_verify (Suc 0) ci d p rw rs rg = Inr (allows p rw rs rg)"
proof -
  have "passport_deserialize dn (passport_serialize dn p) = p"
    using assms(2) by (simp add: passport_serialize_def passport_deserialize_def Let_def)
  moreover have "ci_verify ci (dn_owner d) (pp_signature p) (passport_fingerprint True p)"
    using assms(1) by (simp add: assms(3) passport_new_def passport_fingerprint_def key_pair_def Let_def)
  then have "passport_verify ci (dn_owner d) p" "pp_certifier p = None \<or> pp_certifier p = Some (dn_owner d)"
    by (auto simp: passport_verify_def assms(3) passport_new_def Let_def)
  ultimately show ?thesis by (auto simp: allows_def)
qed

section \<open>Key indexes\<close>

definition cache_ok :: "('k \<times> int) list \<Rightarrow> bool" where
  "cache_ok cache \<longleftrightarrow> distinct (map fst cache) \<and> map snd cache = map int [0..<length cache]"

lemma cache_ok_distinct: "cache_ok cache \<Longrightarrow> distinct (map snd cache)"
  by (simp add: cache_ok_def distinct_map)

text \<open>
  The index given to a key is resolved to that key from then on, indexes already
  given keep their meaning, and a key keeps its index.
\<close>

theorem key_index_roundtrip:
  assumes "cache_ok cache"
  shows "cache_ok (snd (ensure_key k cache)) \<and>
    resolve_key (fst (ensure_key k cache)) (snd (ensure_key k cache)) = Inr k \<and>
    (\<forall>h k'. resolve_key h cache = Inr k' \<longrightarrow> resolve_key h (snd (ensure_key k cache)) = Inr k') \<and>
    ensure_key k (snd (ensure_key k cache)) = (fst (ensure_key k cache), snd (ensure_key k cache))"
proof -
  have fst_swap: "map fst (map (\<lambda>(k, i). (i, k)) cs) = map snd cs" for cs :: "('a \<times> int) list"
    by (induction cs) auto
  have swap: "map_of (map (\<lambda>(k, i). (i, k)) cache) i = Some k \<longleftrightarrow> (k, i) \<in> set cache" for i k
  proof -
    have "distinct (map fst (map (\<lambda>(k, i). (i, k)) cache))"
      using cache_ok_distinct [OF assms] by (simp only: fst_swap)
    then show ?thesis by (auto simp: map_of_eq_Some_iff)
  qed
  have fresh: "map_of (map (\<lambda>(k, i). (i, k)) cache) (int (length cache)) = None"
  proof -
    have "int (length cache) \<notin> set (map snd cache)" using assms by (auto simp: cache_ok_def)
    then have "int (length cache) \<notin> set (map fst (map (\<lambda>(k, i). (i, k)) cache))" unfolding fst_swap .
    then show ?thesis unfolding map_of_eq_None_iff set_map .
  qed
  show ?thesis
  proof (cases "map_of cache k")
    case None
    then have "k \<notin> fst ` set cache" by (simp add: map_of_eq_None_iff)
    then have "cache_ok (cache @ [(k, int (length cache))])" using assms by (simp add: cache_ok_def)
    then show ?thesis using None fresh
      by (auto simp: ensure_key_def resolve_key_def map_add_def split: option.splits)
  next
    case (Some i)
    then have "map_of (map (\<lambda>(k, i). (i, k)) cache) i = Some k" using swap map_of_SomeD by metis
    then show ?thesis using Some assms by (simp add: ensure_key_def resolve_key_def)
  qed
qed

section \<open>Examples\<close>

text \<open>User 3 certifies itself, and certifies user 4.\<close>

definition self_passport :: "nat passport" where
  "self_passport = passport_new toy_crypto 3 ''net'' (3, 3) True True True True"

definition self_ub :: "nat ub" where
  "self_ub = ub_with_passport toy_crypto (toy_doughnut 1) ''mallory'' self_passport True"

definition loop_network :: "(nat, nat) doughnut" where
  "loop_network = (toy_doughnut 1)\<lparr>dn_fetch := (\<lambda>a. Inr (Some (UB self_ub)))\<rparr>"

theorem verify_diverges_witness:
  "doughnut_verify 100 toy_crypto loop_network
     (passport_new toy_crypto 4 ''net'' (3, 3) True True True False) False False False = Inl NoFuel"
proof -
  let ?p = "passport_new toy_crypto 4 ''net'' (3, 3) True True True False"
  have "pp_certifier ?p = Some 3" "dn_owner loop_network = 1" "passport_verify toy_crypto 3 ?p"
    "ub_passport self_ub = Some self_passport" "pp_certifier self_passport = Some 3"
    "passport_verify toy_crypto 3 self_passport" "pp_allow_sign self_passport" "pp_user self_passport = 3"
    by code_simp+
  moreover have "dn_fetch loop_network a = Inr (Some (UB self_ub))" for a by (simp add: loop_network_def)
  moreover have "self_ub = ub_with_passport toy_crypto loop_network ''mallory'' self_passport True"
    by (simp add: self_ub_def ub_with_passport_def ub_new_def ub_key_address_def loop_network_def)
  ultimately show ?thesis
    using verify_diverges [of ?p 3 loop_network toy_crypto self_ub self_passport "''mallory''" False False False 100]
    by (simp add: allows_def)
qed

theorem passport_roundtrip_witness:
  "doughnut_verify (Suc 0) toy_crypto (toy_doughnut 2)
     (passport_new toy_crypto 2 ''net'' (1, 1) False True False False) True False False = Inr True"
proof -
  have "dn_owner (toy_doughnut 2) = 1" by (simp add: toy_doughnut_def)
  then show ?thesis
    using passport_roundtrip [of toy_crypto "toy_doughnut 2" 1 None _ 2 "''net''" False True False False True False False]
      toy_key_pair [of 1] by (simp add: allows_def passport_new_def Let_def)
qed

theorem key_index_roundtrip_witness:
  "resolve_key 1 (snd (ensure_key (7::nat) [(5, 0)])) = Inr 7"
proof -
  have "cache_ok [(5::nat, 0)]" by (simp add: cache_ok_def)
  from key_index_roundtrip [OF this, of 7] show ?thesis by (simp add: ensure_key_def)
qed

end
