(* ===== verification/Memo_Group.thy ===== *)
theory Memo_Group
  imports Memo_Passport
begin

text \<open>
  Group blocks (src/memo/model/doughnut/GB.cc) and the conflict resolver of groups
  (Group.cc): members are readers of a block whose data is the list of group keys,
  administrators hold its private key sealed for them, and removing a member adds a new
  group key.
\<close>

section \<open>Signed objects\<close>

definition group_description_version :: version where
  "group_description_version = Version 0 8 0"

definition gb_body :: "('k, 's) gb \<Rightarrow> version \<Rightarrow> 'k owner_body" where
  "gb_body g v =
     (case acb_body g v of
        OwnerACL acls gacls _ \<Rightarrow> OwnerACL acls gacls (Some (gb_admin_keys g))
      | OwnerData b \<Rightarrow> OwnerData b)"

definition gb_data_object :: "('k, 's) gb \<Rightarrow> version \<Rightarrow> 'k payload" where
  "gb_data_object g v =
     (case acb_data_object g v of
        DataObject a b c e f h i _ \<Rightarrow>
          DataObject a b c e f h i
            (Some (gb_public_keys g,
                   if group_description_version \<le> v then Some (gb_description g) else None))
      | p \<Rightarrow> p)"

definition gb_validate ::
  "('k, 's) crypto \<Rightarrow> ('k, 's) doughnut \<Rightarrow> bool \<Rightarrow> ('k, 's) gb \<Rightarrow> blk_error + validation_result" where
  "gb_validate ci d writing g = acb_validate_with ci d gb_body gb_data_object writing g"

definition gb_seal ::
  "nat \<Rightarrow> ('k, 's) crypto \<Rightarrow> ('k, 's) doughnut \<Rightarrow> int option \<Rightarrow> buffer \<Rightarrow> ('k, 's) gb
     \<Rightarrow> (('k, 's) gb, unit) run" where
  "gb_seal n ci d ver key g = acb_seal_with n ci d gb_body gb_data_object ver key g"

section \<open>Construction\<close>

text \<open>\<open>master\<close> is the key pair of the group, \<open>first\<close> the first group key, generated.\<close>

definition gb_new ::
  "('k, 's) crypto \<Rightarrow> ('k, 's) doughnut \<Rightarrow> 'k \<times> 's \<Rightarrow> 'k \<times> 's \<Rightarrow> (('k, 's) gb, unit) run" where
  "gb_new ci d master first =
     (let g = acb.extend (acb_new ci d [] group_block_key master)
                \<lparr>gb_keys = [first], gb_public_keys = [fst first],
                 gb_admin_keys = [dn_K d \<mapsto> ci_seal ci (dn_K d) (ci_private_pack ci (snd master))],
                 gb_description = None\<rparr>
      in set_permissions ci (dn_K d) True False
           ((okb_set_data (ci_keys_pack ci [first]) g)\<lparr>acb_acl_changed := True\<rparr>))"

text \<open>
  A group block read by a node: an administrator recovers the private key of the group.
\<close>

definition gb_received :: "('k, 's) crypto \<Rightarrow> ('k, 's) doughnut \<Rightarrow> ('k, 's) gb \<Rightarrow> blk_error + ('k, 's) gb" where
  "gb_received ci d g =
     (let g' = (acb_received d g)\<lparr>gb_keys := []\<rparr> in
      case gb_admin_keys g' (dn_K d) of
        None \<Rightarrow> Inr g'
      | Some sealed \<Rightarrow>
          (case Option.bind (ci_open ci (dn_k d) sealed) (ci_private_unpack ci) of
             None \<Rightarrow> Inl (ElleErr ''unable to open'')
           | Some k \<Rightarrow> Inr (g'\<lparr>okb_owner_private_key := Some k\<rparr>)))"

text \<open>The copy constructor does not copy the group keys.\<close>

definition gb_clone :: "('k, 's) gb \<Rightarrow> ('k, 's) gb" where
  "gb_clone g = g\<lparr>gb_keys := []\<rparr>"

section \<open>Members and administrators\<close>

definition add_member ::
  "('k, 's) crypto \<Rightarrow> ('k, 's) doughnut \<Rightarrow> 'k user \<Rightarrow> ('k, 's) gb \<Rightarrow> (('k, 's) gb, unit) run" where
  "add_member ci d u g =
     bind_run (set_user_permissions ci d u True False g) (\<lambda>_ g'. (Inr (), g'\<lparr>acb_acl_changed := True\<rparr>))"

text \<open>\<open>new_key\<close> is the generated key pair.\<close>

definition remove_member ::
  "nat \<Rightarrow> ('k, 's) crypto \<Rightarrow> ('k, 's) doughnut \<Rightarrow> 'k \<times> 's \<Rightarrow> 'k user \<Rightarrow> ('k, 's) gb
     \<Rightarrow> (('k, 's) gb, unit) run" where
  "remove_member n ci d new_key u g =
     bind_run (set_user_permissions ci d u False False g) (\<lambda>_ g1.
     bind_run (gb_extract_keys ci (\<lambda>g. acb_decrypt_data n ci d (acb.truncate g))
                 (g1\<lparr>acb_acl_changed := True\<rparr>)) (\<lambda>_ g2.
     let g3 = g2\<lparr>gb_public_keys := gb_public_keys g2 @ [fst new_key],
                 gb_keys := gb_keys g2 @ [new_key]\<rparr>
     in (Inr (), okb_set_data (ci_keys_pack ci (gb_keys g3)) g3)))"

definition add_admin ::
  "('k, 's) crypto \<Rightarrow> 'k user \<Rightarrow> ('k, 's) gb \<Rightarrow> (('k, 's) gb, unit) run" where
  "add_admin ci u g =
     (if gb_admin_keys g (user_key u) \<noteq> None then (Inr (), g)
      else case okb_owner_private_key g of
             None \<Rightarrow> (Inl UndefinedBehaviour, g)
           | Some k \<Rightarrow>
               (Inr (), g\<lparr>gb_admin_keys := (gb_admin_keys g)
                            (user_key u \<mapsto> ci_seal ci (user_key u) (ci_private_pack ci k)),
                          acb_acl_changed := True\<rparr>))"

definition remove_admin :: "'k user \<Rightarrow> ('k, 's) gb \<Rightarrow> (('k, 's) gb, unit) run" where
  "remove_admin u g =
     (if gb_admin_keys g (user_key u) = None then (Inl (ElleErr ''no such admin''), g)
      else (Inr (), g\<lparr>gb_admin_keys := (gb_admin_keys g)(user_key u := None), acb_acl_changed := True\<rparr>))"

definition control_key :: "('k, 's) gb \<Rightarrow> 's option" where
  "control_key g = okb_owner_private_key g"

text \<open>\<^verbatim>\<open>Group::_control_key\<close>.\<close>

definition group_control_key :: "('k, 's) gb \<Rightarrow> 'k \<Rightarrow> blk_error + 'k \<times> 's" where
  "group_control_key g pub =
     (case control_key g of
        Some k \<Rightarrow> Inr (pub, k)
      | None \<Rightarrow> Inl (ElleErr ''You are not a group admin''))"

definition get_description :: "('k, 's) doughnut \<Rightarrow> ('k, 's) gb \<Rightarrow> blk_error + string option" where
  "get_description d g =
     (if dn_version d < group_description_version
      then Inl (ElleErr ''description is only supported in version 0.8.0 or later'')
      else Inr (gb_description g))"

definition set_description ::
  "('k, 's) doughnut \<Rightarrow> string option \<Rightarrow> ('k, 's) gb \<Rightarrow> (('k, 's) gb, unit) run" where
  "set_description d desc g =
     (if dn_version d < group_description_version
      then (Inl (ElleErr ''description is only supported in version 0.8.0 or later''), g)
      else (Inr (), g\<lparr>gb_description := desc, acb_acl_changed := True\<rparr>))"

section \<open>Conflicts\<close>

datatype group_action = AddMember | RemoveMember | AddAdmin | RemoveAdmin | SetDescription

record 'k group_resolver =
  gcr_action :: group_action
  gcr_key :: "'k option"
  gcr_name :: "string option"
  gcr_description :: "string option"

definition gcr_user_action :: "group_action \<Rightarrow> 'k user \<Rightarrow> blk_error + 'k group_resolver" where
  "gcr_user_action a u =
     (if a = SetDescription then Inl AssertErr
      else Inr \<lparr>gcr_action = a, gcr_key = Some (user_key u), gcr_name = Some (user_name u),
                gcr_description = None\<rparr>)"

definition gcr_describe :: "group_action \<Rightarrow> string option \<Rightarrow> blk_error + 'k group_resolver" where
  "gcr_describe a desc =
     (if a \<noteq> SetDescription then Inl AssertErr
      else Inr \<lparr>gcr_action = a, gcr_key = None, gcr_name = None, gcr_description = desc\<rparr>)"

text \<open>The recorded action is replayed on the block another client has written.\<close>

definition gcr_resolve ::
  "nat \<Rightarrow> ('k, 's) crypto \<Rightarrow> ('k, 's) doughnut \<Rightarrow> 'k \<times> 's \<Rightarrow> 'k group_resolver \<Rightarrow> ('k, 's) any_block
     \<Rightarrow> blk_error + ('k, 's) gb" where
  "gcr_resolve n ci d new_key r current =
     (case current of
        GB g0 \<Rightarrow>
          let g = gb_clone g0;
              user = (case gcr_name r of
                        None \<Rightarrow> Inr None
                      | Some nm \<Rightarrow> (case gcr_key r of
                                     None \<Rightarrow> Inl UndefinedBehaviour
                                   | Some k \<Rightarrow> Inr (Some \<lparr>user_key = k, user_name = nm\<rparr>)))
          in bind_res user (\<lambda>mu.
               case (gcr_action r, mu) of
                 (SetDescription, None) \<Rightarrow>
                   (case set_description d (gcr_description r) g of
                      (Inl e, _) \<Rightarrow> Inl e | (Inr _, g') \<Rightarrow> Inr g')
               | (SetDescription, Some _) \<Rightarrow> Inl AssertErr
               | (_, None) \<Rightarrow> Inl AssertErr
               | (a, Some u) \<Rightarrow>
                   (case (case a of AddMember \<Rightarrow> add_member ci d u g
                          | RemoveMember \<Rightarrow> remove_member n ci d new_key u g
                          | AddAdmin \<Rightarrow> add_admin ci u g
                          | _ \<Rightarrow> remove_admin u g) of
                      (Inl e, _) \<Rightarrow> Inl e | (Inr _, g') \<Rightarrow> Inr g'))
      | _ \<Rightarrow> Inl (ElleErr ''GroupConflictResolver failed to access current block''))"

section \<open>Group blocks are access-controlled blocks\<close>

interpretation gbc: acb_class gb_body gb_data_object
proof
  fix g g' :: "('a, 'b) gb"
  assume sb: "same_block g g'" and sp: "same_perms g g'"
  have "acb_body g' = acb_body g" using acb_body_def same_perms_def sb sp
    by (auto simp: acb_body_def same_block_def same_perms_def fun_eq_iff)
  moreover have "gb_admin_keys g' = gb_admin_keys g"
    using sb by (cases g; cases g') (simp add: same_block_def)
  ultimately show "gb_body g' = gb_body g" by (intro ext) (simp only: gb_body_def)
qed (auto simp: gb_data_object_def acb_data_object_def fun_eq_iff)

lemma content_truncate [simp]:
  "acb_content (acb.truncate g) = acb_content g" "okb_owner_key (acb.truncate g) = okb_owner_key g"
  "okb_owner_private_key (acb.truncate g) = okb_owner_private_key g"
  "acb_acl_entries (acb.truncate g) = acb_acl_entries g"
  by (cases g; simp add: acb_content_def acb.truncate_def)+

lemma gb_keys_content [simp]:
  "acb_content (g\<lparr>gb_keys := ks\<rparr>) = acb_content g"
  by (simp add: acb_content_def)

text \<open>A user without an entry, in a block without groups, cannot read.\<close>

lemma no_entry_no_read:
  assumes "okb_owner_private_key b = None" and "acl_perm (acb_acl_entries b) (dn_K d) = None"
    and "acb_acl_group_entries b = []" and "\<not> acb_world_readable b"
  shows "acb_decrypt_data n ci d b = Inl (ValidationErr ''no read permissions'')"
proof -
  have "entry_secret ci d ue (acb_acl_entries b) [] = Inr []" for ue
    using assms(2) by (intro entry_secret_none) (simp add: acl_perm_None)
  then have "acb_decrypt_with gk ci d b = Inl (ValidationErr ''no read permissions'')" for gk
    using assms by (simp add: acb_decrypt_with_def Let_def)
  then show ?thesis by (cases n) simp_all
qed

lemma set_user_permissions_plain:
  assumes "set_user_permissions ci d u rd wr b = (Inr (), b')"
    and "\<not> starts_with (CHR ''#'') (user_name u)" and "\<not> starts_with (CHR ''@'') (user_name u)"
  shows "set_permissions ci (user_key u) rd wr b = (Inr (), b') \<and> \<not> admin_user d (user_key u)"
  using assms by (auto simp: set_user_permissions_def split: if_splits)

lemma gb_extract_keys_effect:
  assumes "gb_extract_keys ci dec g = (Inr (), g')"
  shows "\<exists>ks p. g' = g\<lparr>okb_data_plain := p, okb_data_decrypted := True\<rparr>\<lparr>gb_keys := ks\<rparr>"
proof -
  obtain dat g1 where 1: "okb_data dec g = (Inr dat, g1)"
    and 2: "\<exists>ks. g' = g1\<lparr>gb_keys := ks\<rparr>"
    using assms by (auto simp: gb_extract_keys_def bind_run_eq_Inr split: option.splits)
  have "\<exists>p. g1 = g\<lparr>okb_data_plain := p, okb_data_decrypted := True\<rparr>"
  proof (cases "okb_data_decrypted g")
    case True
    then have "g1 = g" using 1 by (simp add: okb_data_def okb_decrypt_data_def)
    moreover have "g = g\<lparr>okb_data_plain := okb_data_plain g, okb_data_decrypted := True\<rparr>" using True by simp
    ultimately show ?thesis by metis
  next
    case False
    then show ?thesis using 1
      by (auto simp: okb_data_def okb_decrypt_data_def bind_run_eq_Inr split: sum.splits)
  qed
  then show ?thesis using 2 by blast
qed

lemma remove_member_effect:
  assumes "remove_member n ci d nk u g = (Inr (), g')" and "acb_wf g"
    and "\<not> starts_with (CHR ''#'') (user_name u)" and "\<not> starts_with (CHR ''@'') (user_name u)"
  shows "acb_wf g' \<and> \<not> admin_user d (user_key u) \<and> acl_perm (acb_acl_entries g') (user_key u) = None \<and>
    gb_public_keys g' = gb_public_keys g @ [fst nk] \<and> gb_keys g' \<noteq> [] \<and> last (gb_keys g') = nk \<and>
    okb_data_plain g' = ci_keys_pack ci (gb_keys g') \<and> acb_acl_changed g' \<and> mb_data_changed g' \<and>
    okb_owner_key g' = okb_owner_key g \<and> okb_owner_private_key g' = okb_owner_private_key g \<and>
    mb_seal_version g' = mb_seal_version g \<and> acb_acl_group_entries g' = acb_acl_group_entries g \<and>
    acb_world_readable g' = acb_world_readable g \<and> gb_admin_keys g' = gb_admin_keys g"
proof -
  obtain g1 g2 where 1: "set_user_permissions ci d u False False g = (Inr (), g1)"
    and 2: "gb_extract_keys ci (\<lambda>g. acb_decrypt_data n ci d (acb.truncate g)) (g1\<lparr>acb_acl_changed := True\<rparr>) = (Inr (), g2)"
    and g': "g' = okb_set_data (ci_keys_pack ci (gb_keys g2 @ [nk]))
        (g2\<lparr>gb_public_keys := gb_public_keys g2 @ [fst nk], gb_keys := gb_keys g2 @ [nk]\<rparr>)"
    using assms(1) by (auto simp: remove_member_def bind_run_eq_Inr Let_def)
  note s = set_user_permissions_plain [OF 1 assms(3,4)]
  note e = set_permissions_effect [OF conjunct1 [OF s] assms(2)]
  have ao: "acl_only g g1" using e by blast
  have g1: "acl_step g g1" "gb_public_keys g1 = gb_public_keys g" "gb_admin_keys g1 = gb_admin_keys g"
    "acb_acl_group_entries g1 = acb_acl_group_entries g"
    using acl_only_step [OF ao] acl_only_keeps [OF ao] ao by (auto simp: acl_only_def)
  obtain ks p where g2: "g2 = g1\<lparr>acb_acl_changed := True\<rparr>\<lparr>okb_data_plain := p, okb_data_decrypted := True\<rparr>\<lparr>gb_keys := ks\<rparr>"
    using gb_extract_keys_effect [OF 2] by blast
  show ?thesis using e s g1
    by (simp add: g' g2 okb_set_data_def acb_wf_def perm_set_def acl_step_def same_block_def)
qed

text \<open>
  What a node reads of a group block: the content is that of the block, and the private key
  of the group is known to its owner and to the administrators only.
\<close>

lemma gb_received_content:
  assumes "gb_received ci d g = Inr c"
  shows "acb_content c = acb_content g \<and> okb_owner_key c = okb_owner_key g \<and> gb_keys c = [] \<and> \<not> okb_data_decrypted c \<and>
    acb_acl_entries c = acb_acl_entries g \<and> acb_acl_group_entries c = acb_acl_group_entries g \<and>
    acb_world_readable c = acb_world_readable g \<and>
    (okb_owner_key g \<noteq> dn_K d \<and> gb_admin_keys g (dn_K d) = None \<longrightarrow> okb_owner_private_key c = None)"
  using assms by (auto simp: gb_received_def acb_received_def acb_content_def Let_def split: option.splits)

lemma truncate_fields [simp]:
  "acb_acl_group_entries (acb.truncate g) = acb_acl_group_entries g"
  "acb_world_readable (acb.truncate g) = acb_world_readable g"
  by (cases g; simp add: acb.truncate_def)+

text \<open>
  C23. Removing a member from a group and sealing the group block changes the group key:
  the new key is the current one, everybody who may read the block as received (a remaining
  member with a read entry, the owner, an administrator) extracts it, and the removed
  member cannot read the block, if the member is neither the owner nor an administrator and
  the block is not world readable or shared with another group. (An administrator has the
  private key of the group and still reads it.)
\<close>

theorem remove_member_rotates:
  assumes "remove_member n ci d nk u g = (Inr (), g1)" and "acb_wf g"
    and "\<not> starts_with (CHR ''#'') (user_name u)" and "\<not> starts_with (CHR ''@'') (user_name u)"
    and "okb_owner_private_key g = Some k" and "key_pair ci (okb_owner_key g) k" and "mb_seal_version g = None"
    and "gb_seal n' ci d ver key g1 = (Inr (), g2)"
    and "key \<noteq> []" and "ci_secret_pack ci key \<noteq> []"
    and "ci_secret_unpack ci (ci_secret_pack ci key) = Some key"
    and "\<forall>p. ci_decipher ci key (ci_encipher ci key p) = Some p"
    and "ci_keys_unpack ci (ci_keys_pack ci (gb_keys g1)) = Some (gb_keys g1)"
  shows "gb_public_keys g1 = gb_public_keys g @ [fst nk] \<and> gb_current_public_key g1 = Inr (fst nk) \<and>
    (\<forall>d' c. gb_received ci d' g2 = Inr c \<and> can_read ci d' (acb.truncate c) \<longrightarrow>
       gb_current_key ci (\<lambda>g. acb_decrypt_data m ci d' (acb.truncate g)) c = Inr nk) \<and>
    (\<forall>d' c. gb_received ci d' g2 = Inr c \<and> dn_K d' = user_key u \<and> user_key u \<noteq> okb_owner_key g \<and>
       gb_admin_keys g (user_key u) = None \<and> acb_acl_group_entries g2 = [] \<and> \<not> acb_world_readable g \<longrightarrow>
       acb_decrypt_data m ci d' (acb.truncate c) = Inl (ValidationErr ''no read permissions''))"
proof -
  note e = remove_member_effect [OF assms(1-4)]
  have p1: "acb_wf g1" "okb_owner_private_key g1 = Some k" "key_pair ci (okb_owner_key g1) k"
    "mb_seal_version g1 = None" "mb_data_changed g1" using e assms(5-7) by simp_all
  have ch: "acb_acl_changed g1 \<or> mb_data_changed g1 \<or> ver \<noteq> None" using p1(5) by simp
  have old: "okb_signature g1 \<noteq> None \<longrightarrow> dn_validate_signatures d \<longrightarrow> acb_acl_changed g1 \<or> gbc.owner_signed ci g1"
    using e by simp
  note seal = assms(8) [unfolded gb_seal_def]
  note so = gbc.seal_owner [OF seal p1(1-4) ch old]
  have "gb_current_key ci (\<lambda>g. acb_decrypt_data m ci d' (acb.truncate g)) c = Inr nk"
    if c: "gb_received ci d' g2 = Inr c" "can_read ci d' (acb.truncate c)" for d' c
  proof -
    note r = gb_received_content [OF c(1)]
    have "acb_decrypt_data m ci d' (acb.truncate c) = Inr (okb_data_plain g1)"
      by (rule acb_seal_then_decrypt [OF seal p1(1,2,4,5) c(2) _ _ assms(9-11)]) (use assms(12) r in simp_all)
    then show ?thesis using r e assms(13)
      by (simp add: gb_current_key_def gb_all_keys_def gb_extract_keys_def okb_data_def okb_decrypt_data_def)
  qed
  moreover have "acb_decrypt_data m ci d' (acb.truncate c) = Inl (ValidationErr ''no read permissions'')"
    if c: "gb_received ci d' g2 = Inr c" "dn_K d' = user_key u" "user_key u \<noteq> okb_owner_key g"
      "gb_admin_keys g (user_key u) = None" "acb_acl_group_entries g2 = []" "\<not> acb_world_readable g" for d' c
  proof -
    note r = gb_received_content [OF c(1)]
    have g2: "gb_admin_keys g2 = gb_admin_keys g1"
      using so by (cases g1; cases g2) (simp add: same_block_def)
    have "okb_owner_key g2 = okb_owner_key g" "acb_world_readable g2 = acb_world_readable g"
      "acl_perm (acb_acl_entries g2) (user_key u) = None"
      using so e by (simp_all add: same_block_def)
    then show ?thesis using r e c(2-) g2 by (intro no_entry_no_read) simp_all
  qed
  ultimately show ?thesis using e by (simp add: gb_current_public_key_def)
qed

section \<open>Example\<close>

text \<open>User 1 makes a group with user 2 and user 3, then removes user 2.\<close>

definition toy_user :: "nat \<Rightarrow> nat user" where
  "toy_user k = \<lparr>user_key = k, user_name = ''u''\<rparr>"

definition toy_group :: "(nat, nat) gb" where
  "toy_group =
     snd (add_member toy_crypto (toy_doughnut 1) (toy_user 3)
       (snd (add_member toy_crypto (toy_doughnut 1) (toy_user 2)
         (snd (gb_new toy_crypto (toy_doughnut 1) (10, 10) (11, 11))))))"

definition toy_group_removed :: "(nat, nat) gb" where
  "toy_group_removed = snd (remove_member 0 toy_crypto (toy_doughnut 1) (12, 12) (toy_user 2) toy_group)"

definition toy_group_sealed :: "(nat, nat) gb" where
  "toy_group_sealed = snd (gb_seal 0 toy_crypto (toy_doughnut 1) None [9] toy_group_removed)"

theorem remove_member_rotates_witness:
  "(\<exists>c. gb_received toy_crypto (toy_doughnut 3) toy_group_sealed = Inr c \<and>
     gb_current_key toy_crypto (\<lambda>g. acb_decrypt_data 0 toy_crypto (toy_doughnut 3) (acb.truncate g)) c = Inr (12, 12)) \<and>
   (\<exists>c. gb_received toy_crypto (toy_doughnut 2) toy_group_sealed = Inr c \<and>
     acb_decrypt_data 0 toy_crypto (toy_doughnut 2) (acb.truncate c) = Inl (ValidationErr ''no read permissions''))"
proof -
  have 1: "fst (remove_member 0 toy_crypto (toy_doughnut 1) (12, 12) (toy_user 2) toy_group) = Inr ()"
    "fst (gb_seal 0 toy_crypto (toy_doughnut 1) None [9] toy_group_removed) = Inr ()" by code_simp+
  have 2: "remove_member 0 toy_crypto (toy_doughnut 1) (12, 12) (toy_user 2) toy_group = (Inr (), toy_group_removed)"
    "gb_seal 0 toy_crypto (toy_doughnut 1) None [9] toy_group_removed = (Inr (), toy_group_sealed)"
    using 1 unfolding toy_group_removed_def toy_group_sealed_def by (metis prod.collapse)+
  have 3: "acb_wf toy_group" "\<not> starts_with (CHR ''#'') (user_name (toy_user 2))"
    "\<not> starts_with (CHR ''@'') (user_name (toy_user 2))" "okb_owner_private_key toy_group = Some 10"
    "okb_owner_key toy_group = 10" "mb_seal_version toy_group = None" "\<not> acb_world_readable toy_group"
    "acb_acl_group_entries toy_group_sealed = []" "user_key (toy_user 2) = 2"
    "ci_keys_unpack toy_crypto (ci_keys_pack toy_crypto (gb_keys toy_group_removed)) = Some (gb_keys toy_group_removed)"
    by code_simp+
  have none: "gb_admin_keys toy_group 2 = None" "gb_admin_keys toy_group_sealed 3 = None" "gb_admin_keys toy_group_sealed 2 = None"
    "okb_owner_key toy_group_sealed = 10" by code_simp+
  let ?c = "\<lambda>i. (acb_received (toy_doughnut i) toy_group_sealed)\<lparr>gb_keys := []\<rparr>"
  have rc: "gb_received toy_crypto (toy_doughnut i) toy_group_sealed = Inr (?c i)" if "i \<in> {2, 3}" for i
    using that none by (auto simp: gb_received_def Let_def acb_received_def)
  have "okb_owner_private_key (acb.truncate (?c 3)) = None"
    "acl_perm (acb_acl_entries (acb.truncate (?c 3))) 3 = Some (True, False)" by code_simp+
  then have "can_read toy_crypto (toy_doughnut 3) (acb.truncate (?c 3))"
    using toy_key_pair by (auto simp: can_read_def)
  moreover have "[9] \<noteq> []" "ci_secret_pack toy_crypto [9] \<noteq> []"
    "ci_secret_unpack toy_crypto (ci_secret_pack toy_crypto [9]) = Some [9]"
    "\<forall>p. ci_decipher toy_crypto [9] (ci_encipher toy_crypto [9] p) = Some p" by (simp_all add: toy_crypto_def)
  ultimately show ?thesis
    using remove_member_rotates [OF 2(1) 3(1-4) _ 3(6) 2(2) _ _ _ _ 3(10), of 0] toy_key_pair [of 10] 3 none
      rc [of 2] rc [of 3] by simp
qed

end
