(* ===== verification/Memo_Wire.thy ===== *)
theory Memo_Wire
  imports Elle_Binary Memo_Group
begin

text \<open>
  The binary form of blocks: \<^verbatim>\<open>serialize\<close> and the deserializing constructor of every
  block class (src/memo/model/blocks/Block.cc and src/memo/model/doughnut/CHB.cc, NB.cc,
  UB.cc, OKB.cc, ACB.cc, GB.cc, Passport.cc), the keys they hold and the dispatch on the
  class of a block (elle/src/elle/serialization/Serializer.hxx), as a node writes and
  reads them in its storage: with the version of each object in the stream, without the
  key indexes of a connection and with signatures that are computed before they are
  written.

  The record \<open>wire\<close> holds what is not in the sources: the build's versions, the DER
  encoding of RSA keys (OpenSSL) and the order in which an unordered map is traversed.
\<close>

record 'k wire =
  wi_memo :: version
  wi_elle :: version
  wi_encode :: "'k \<Rightarrow> buffer"
  wi_decode :: "buffer \<Rightarrow> 'k option"
  wi_traverse :: "('k \<rightharpoonup> buffer) \<Rightarrow> ('k \<times> buffer) list"

section \<open>Keys and addresses\<close>

definition serialize_key :: "'k wire \<Rightarrow> 'k writer" where
  "serialize_key wi k = serialize_version (wi_elle wi) @ serialize_buffer (wi_encode wi k)"

definition deserialize_key :: "'k wire \<Rightarrow> 'k reader" where
  "deserialize_key wi = bind_rd deserialize_version (\<lambda>_. bind_rd deserialize_buffer (\<lambda>b.
     case wi_decode wi b of None \<Rightarrow> fail_rd (ConvertErr ''unable to decode key'') | Some k \<Rightarrow> return_rd k))"

definition serialize_address :: "address writer" where
  "serialize_address a = serialize_buffer (addr_to_buffer a)"

definition deserialize_address :: "address reader" where
  "deserialize_address = bind_rd deserialize_buffer (\<lambda>b.
     case addr_of_buffer b of Inl _ \<Rightarrow> fail_rd (ConvertErr ''invalid address'') | Inr a \<Rightarrow> return_rd a)"

text \<open>
  \<^verbatim>\<open>KeyOrHash\<close>, from version 0.7.0 on, is a variant of a key, the hash of a key and the
  index of a key. A node writes the first in its storage. Reading the second fetches the
  user block of that hash; reading the third, without a connection, fails an assertion.
\<close>

definition serialize_key_hash :: "'k wire \<Rightarrow> version \<Rightarrow> 'k writer" where
  "serialize_key_hash wi v k =
     (if v < Version 0 7 0 then serialize_key wi k
      else serialize_version (wi_elle wi) @ serialize_number 0 @ serialize_key wi k)"

definition hash_key ::
  "('k, 's) crypto \<Rightarrow> ('k, 's) doughnut \<Rightarrow> buffer \<Rightarrow> 'k reader" where
  "hash_key ci d b =
     (case dn_fetch d (ub_name_address ci d (CHR '':'' # string_of b)) of
        Inr (Some (UB ub)) \<Rightarrow> return_rd (ub_key ub)
      | Inr _ \<Rightarrow> fail_rd NullPointer
      | Inl e \<Rightarrow> fail_rd (if is_elle_error e then ConvertErr ''Failed to retreive key hash block'' else Assertion))"

definition deserialize_key_hash ::
  "'k wire \<Rightarrow> ('k, 's) crypto \<Rightarrow> ('k, 's) doughnut \<Rightarrow> version \<Rightarrow> 'k reader" where
  "deserialize_key_hash wi ci d v =
     (if v < Version 0 7 0 then deserialize_key wi
      else bind_rd deserialize_version (\<lambda>_. bind_rd deserialize_int32 (\<lambda>i.
        if i = 0 then deserialize_key wi
        else if i = 1 then bind_rd deserialize_buffer (hash_key ci d)
        else if i = 2 then bind_rd deserialize_int32 (\<lambda>_. fail_rd Assertion)
        else fail_rd Assertion)))"

section \<open>The base class and the immutable classes\<close>

definition serialize_block :: "'a block_scheme \<Rightarrow> buffer" where
  "serialize_block b =
     serialize_address (blk_address b) @ serialize_buffer (blk_data b) @ serialize_address (blk_owner b)"

definition deserialize_block :: "block reader" where
  "deserialize_block =
     bind_rd deserialize_address (\<lambda>a. bind_rd deserialize_buffer (\<lambda>dat. bind_rd deserialize_address (\<lambda>ow.
       return_rd (block_new a dat ow))))"

definition serialize_chb :: "chb \<Rightarrow> buffer" where
  "serialize_chb b = serialize_block b @ serialize_buffer (chb_salt b)"

definition deserialize_chb :: "chb reader" where
  "deserialize_chb = bind_rd deserialize_block (\<lambda>b. bind_rd deserialize_buffer (\<lambda>salt.
     return_rd (block.extend b \<lparr>chb_salt = salt\<rparr>)))"

definition serialize_nb :: "'k wire \<Rightarrow> 'k nb \<Rightarrow> buffer" where
  "serialize_nb wi b =
     serialize_block b @ serialize_key wi (nb_owner b) @ serialize_string (nb_name b) @
     serialize_buffer (nb_signature b)"

definition deserialize_nb :: "'k wire \<Rightarrow> 'k nb reader" where
  "deserialize_nb wi = bind_rd deserialize_block (\<lambda>b.
     bind_rd (deserialize_key wi) (\<lambda>k. bind_rd deserialize_string (\<lambda>n. bind_rd deserialize_buffer (\<lambda>sg.
       return_rd (block.extend b \<lparr>nb_owner = k, nb_name = n, nb_signature = sg\<rparr>)))))"

text \<open>
  The storage's writer has no \<^verbatim>\<open>Doughnut\<close> in its context, its reader has one. Errors met
  after the signature are caught: they leave the fields not read at their defaults. A
  passport is the last field of what holds it, so where the stream is left then is not
  observed.
\<close>

definition serialize_passport :: "'k wire \<Rightarrow> 'k passport writer" where
  "serialize_passport wi p =
     serialize_version (wi_memo wi) @ serialize_key wi (pp_user p) @ serialize_string (pp_network p) @
     serialize_buffer (pp_signature p) @ serialize_bool (pp_allow_write p) @ serialize_bool (pp_allow_storage p) @
     serialize_bool (pp_allow_sign p) @ serialize_option (serialize_key wi) (pp_certifier p)"

definition catch_rd :: "'a reader \<Rightarrow> 'b \<Rightarrow> ('a \<Rightarrow> 'b reader) \<Rightarrow> 'b reader" where
  "catch_rd r dflt f s =
     (case r s of Inr (x, t) \<Rightarrow> f x t
      | Inl e \<Rightarrow> if e \<in> {Uninitialised, BadAlloc, NullPointer, Assertion} then Inl e else Inr (dflt, []))"

definition deserialize_passport :: "'k wire \<Rightarrow> version \<Rightarrow> 'k passport reader" where
  "deserialize_passport wi dv = bind_rd deserialize_version (\<lambda>_.
     bind_rd (deserialize_key wi) (\<lambda>u. bind_rd deserialize_string (\<lambda>n. bind_rd deserialize_buffer (\<lambda>sg.
       let p = \<lparr>pp_user = u, pp_network = n, pp_signature = sg, pp_certifier = None,
                pp_allow_write = True, pp_allow_storage = True, pp_allow_sign = False\<rparr> in
       if Version 0 5 0 \<le> dv then
         catch_rd deserialize_bool p (\<lambda>w. let p1 = p\<lparr>pp_allow_write := w\<rparr> in
           catch_rd deserialize_bool p1 (\<lambda>st. let p2 = p1\<lparr>pp_allow_storage := st\<rparr> in
             catch_rd deserialize_bool p2 (\<lambda>sn. let p3 = p2\<lparr>pp_allow_sign := sn\<rparr> in
               catch_rd (deserialize_option (deserialize_key wi)) p3 (\<lambda>c. return_rd (p3\<lparr>pp_certifier := c\<rparr>)))))
       else return_rd p))))"

definition serialize_ub :: "'k wire \<Rightarrow> version \<Rightarrow> 'k ub \<Rightarrow> buffer" where
  "serialize_ub wi v b =
     serialize_block b @ serialize_string (ub_name b) @ serialize_key wi (ub_key b) @
     serialize_bool (ub_reverse b) @
     (if Version 0 5 0 \<le> v then serialize_option (serialize_passport wi) (ub_passport b) else [])"

definition deserialize_ub :: "'k wire \<Rightarrow> version \<Rightarrow> version \<Rightarrow> 'k ub reader" where
  "deserialize_ub wi dv v = bind_rd deserialize_block (\<lambda>b.
     bind_rd deserialize_string (\<lambda>n. bind_rd (deserialize_key wi) (\<lambda>k. bind_rd deserialize_bool (\<lambda>r.
       bind_rd (if Version 0 5 0 \<le> v then deserialize_option (deserialize_passport wi dv) else return_rd None)
         (\<lambda>p. return_rd (block.extend b \<lparr>ub_name = n, ub_key = k, ub_reverse = r, ub_passport = p\<rparr>))))))"

section \<open>The mutable classes\<close>

text \<open>
  A signature is a buffer: the version it was made at, in binary form, and the bytes. An
  absent one is empty. Before version 0.4.0 the version is left out, and is 0.3.0. A
  buffer that does not hold a version stands for no signature: neither is ever valid.
\<close>

definition signature_value :: "signature option \<Rightarrow> buffer" where
  "signature_value sg =
     (case sg of None \<Rightarrow> [] | Some s \<Rightarrow> write_magic @ serialize_version (sig_version s) @ sig_bytes s)"

definition signature_of_value :: "buffer \<Rightarrow> signature option" where
  "signature_of_value b =
     (case bind_rd check_magic (\<lambda>_. deserialize_version) b of
        Inl _ \<Rightarrow> None | Inr (v, rest) \<Rightarrow> Some \<lparr>sig_version = v, sig_bytes = rest\<rparr>)"

definition serialize_signature :: "version \<Rightarrow> signature option writer" where
  "serialize_signature v sg =
     (if v < Version 0 4 0 then serialize_buffer (drop 4 (signature_value sg))
      else serialize_buffer (signature_value sg))"

definition deserialize_signature :: "version \<Rightarrow> signature option reader" where
  "deserialize_signature v = bind_rd deserialize_buffer (\<lambda>b. return_rd
     (if v < Version 0 4 0 then Some \<lparr>sig_version = Version 0 3 0, sig_bytes = b\<rparr>
      else signature_of_value b))"

text \<open>
  \<^verbatim>\<open>BaseOKB::serialize\<close> writes the clear data, of a block that was not sealed, before the
  version of the next seal; the constructor reads it after.
\<close>

definition serialize_okb :: "'k wire \<Rightarrow> version \<Rightarrow> ('k, 's, 'z) okb_scheme \<Rightarrow> buffer" where
  "serialize_okb wi v b =
     serialize_block b @ serialize_key_hash wi v (okb_owner_key b) @
     (if v < Version 0 8 0
      then serialize_version v @ serialize_buffer (okb_salt b) @ serialize_buffer (okb_header_signature b)
      else serialize_buffer (okb_salt b) @
        (if blk_data b = [] then serialize_buffer (okb_data_plain b) else []) @
        serialize_option serialize_number (mb_seal_version b)) @
     serialize_number (okb_version b) @ serialize_signature v (okb_signature b)"

text \<open>The header as read: the salt and, before version 0.8.0, its signature.\<close>

definition deserialize_header :: "version \<Rightarrow> (buffer \<times> buffer) reader" where
  "deserialize_header v =
     (if v < Version 0 8 0 then
        bind_rd deserialize_version (\<lambda>v'. bind_rd deserialize_buffer (\<lambda>salt.
          if v' < Version 0 8 0 then bind_rd deserialize_buffer (\<lambda>sg. return_rd (salt, sg))
          else return_rd (salt, [])))
      else bind_rd deserialize_buffer (\<lambda>salt. return_rd (salt, [])))"

definition deserialize_clear :: "version \<Rightarrow> buffer \<Rightarrow> (int option \<times> buffer option) reader" where
  "deserialize_clear v dat =
     (if v < Version 0 8 0 then return_rd (None, None)
      else bind_rd (deserialize_option deserialize_int32) (\<lambda>sv.
        if dat = [] then bind_rd deserialize_buffer (\<lambda>p. return_rd (sv, Some p)) else return_rd (sv, None)))"

definition deserialize_okb ::
  "'k wire \<Rightarrow> ('k, 's) crypto \<Rightarrow> ('k, 's) doughnut \<Rightarrow> version \<Rightarrow> ('k, 's) okb reader" where
  "deserialize_okb wi ci d v =
     bind_rd deserialize_block (\<lambda>b. bind_rd (deserialize_key_hash wi ci d v) (\<lambda>k.
       bind_rd (deserialize_header v) (\<lambda>h. bind_rd (deserialize_clear v (blk_data b)) (\<lambda>c.
         bind_rd deserialize_int32 (\<lambda>ver. bind_rd (deserialize_signature v) (\<lambda>sg.
           return_rd (mblock.extend
             (block.extend b \<lparr>mb_data_changed = (snd c \<noteq> None), mb_seal_version = fst c\<rparr>)
             \<lparr>okb_salt = fst h, okb_owner_key = k, okb_header_signature = snd h, okb_version = ver,
              okb_signature = sg, okb_owner_private_key = (if k = dn_K d then Some (dn_k d) else None),
              okb_data_plain = (case snd c of None \<Rightarrow> [] | Some p \<Rightarrow> p), okb_data_decrypted = False\<rparr>)))))))"

definition serialize_acl_entry :: "'k wire \<Rightarrow> version \<Rightarrow> 'k acl_entry writer" where
  "serialize_acl_entry wi v e =
     serialize_version v @ serialize_key_hash wi v (acl_key e) @ serialize_bool (acl_read e) @
     serialize_bool (acl_write e) @ serialize_buffer (acl_token e)"

definition deserialize_acl_entry ::
  "'k wire \<Rightarrow> ('k, 's) crypto \<Rightarrow> ('k, 's) doughnut \<Rightarrow> 'k acl_entry reader" where
  "deserialize_acl_entry wi ci d = bind_rd deserialize_version (\<lambda>v.
     bind_rd (deserialize_key_hash wi ci d v) (\<lambda>k. bind_rd deserialize_bool (\<lambda>r.
       bind_rd deserialize_bool (\<lambda>w. bind_rd deserialize_buffer (\<lambda>t.
         return_rd \<lparr>acl_key = k, acl_read = r, acl_write = w, acl_token = t\<rparr>)))))"

definition serialize_acb :: "'k wire \<Rightarrow> version \<Rightarrow> ('k, 's, 'z) acb_scheme \<Rightarrow> buffer" where
  "serialize_acb wi v b =
     serialize_okb wi v b @ serialize_number (acb_editor b) @ serialize_buffer (acb_owner_token b) @
     serialize_array (serialize_acl_entry wi v) (acb_acl_entries b) @ serialize_number (acb_data_version b) @
     serialize_signature v (acb_data_signature b) @
     (if v < Version 0 4 0 then []
      else serialize_bool (acb_world_readable b) @ serialize_bool (acb_world_writable b) @
        serialize_array (serialize_acl_entry wi v) (acb_acl_group_entries b) @
        serialize_array serialize_number (acb_group_version b) @ serialize_bool (acb_deleted b)) @
     (if v < Version 0 7 0 then [] else serialize_version (acb_seal_version b))"

text \<open>The fields that older versions do not have, with their defaults.\<close>

definition deserialize_world ::
  "'k wire \<Rightarrow> ('k, 's) crypto \<Rightarrow> ('k, 's) doughnut \<Rightarrow> version
     \<Rightarrow> (bool \<times> bool \<times> 'k acl_entry list \<times> int list \<times> bool) reader" where
  "deserialize_world wi ci d v =
     (if v < Version 0 4 0 then return_rd (False, False, [], [], False)
      else bind_rd deserialize_bool (\<lambda>r. bind_rd deserialize_bool (\<lambda>w.
        bind_rd (deserialize_array (deserialize_acl_entry wi ci d)) (\<lambda>g.
          bind_rd (deserialize_array deserialize_int32) (\<lambda>gv. bind_rd deserialize_bool (\<lambda>del.
            return_rd (r, w, g, gv, del)))))))"

definition deserialize_acb ::
  "'k wire \<Rightarrow> ('k, 's) crypto \<Rightarrow> ('k, 's) doughnut \<Rightarrow> version \<Rightarrow> ('k, 's) acb reader" where
  "deserialize_acb wi ci d v = bind_rd (deserialize_okb wi ci d v) (\<lambda>b.
     bind_rd deserialize_int32 (\<lambda>ed. bind_rd deserialize_buffer (\<lambda>tok.
       bind_rd (deserialize_array (deserialize_acl_entry wi ci d)) (\<lambda>acl.
         bind_rd deserialize_int32 (\<lambda>dv. bind_rd (deserialize_signature v) (\<lambda>sg.
           bind_rd (deserialize_world wi ci d v) (\<lambda>(r, w, g, gv, del).
             bind_rd (if v < Version 0 7 0 then return_rd (Version 0 6 0) else deserialize_version) (\<lambda>sv.
               return_rd (okb.extend b
                 \<lparr>acb_editor = ed, acb_owner_token = tok, acb_acl_changed = False, acb_acl_entries = acl,
                  acb_acl_group_entries = g, acb_group_version = gv, acb_data_version = dv,
                  acb_data_signature = sg, acb_world_readable = r, acb_world_writable = w, acb_deleted = del,
                  acb_sign_key = None, acb_seal_version = sv\<rparr>)))))))))"

definition serialize_gb :: "'k wire \<Rightarrow> version \<Rightarrow> ('k, 's) gb \<Rightarrow> buffer" where
  "serialize_gb wi v g =
     serialize_acb wi v g @ serialize_array (serialize_key wi) (gb_public_keys g) @
     serialize_array (serialize_pair (serialize_key wi) serialize_buffer) (wi_traverse wi (gb_admin_keys g)) @
     (if group_description_version \<le> v then serialize_option serialize_string (gb_description g) else [])"

text \<open>An administrator of the group opens its private key as it reads the block.\<close>

definition deserialize_gb ::
  "'k wire \<Rightarrow> ('k, 's) crypto \<Rightarrow> ('k, 's) doughnut \<Rightarrow> version \<Rightarrow> ('k, 's) gb reader" where
  "deserialize_gb wi ci d v = bind_rd (deserialize_acb wi ci d v) (\<lambda>b.
     bind_rd (deserialize_array (deserialize_key wi)) (\<lambda>pks.
       bind_rd (deserialize_array (deserialize_pair (deserialize_key wi) deserialize_buffer)) (\<lambda>adm.
         bind_rd (if group_description_version \<le> v then deserialize_option deserialize_string else return_rd None) (\<lambda>ds.
           let g = acb.extend b
                 \<lparr>gb_keys = [], gb_public_keys = pks, gb_admin_keys = map_of adm, gb_description = ds\<rparr> in
           case map_of adm (dn_K d) of
             None \<Rightarrow> return_rd g
           | Some sealed \<Rightarrow>
               (case Option.bind (ci_open ci (dn_k d) sealed) (ci_private_unpack ci) of
                  None \<Rightarrow> fail_rd (ConvertErr ''unable to open'')
                | Some k \<Rightarrow> return_rd (g\<lparr>okb_owner_private_key := Some k\<rparr>))))))"

section \<open>Dispatch on the class\<close>

definition block_type :: "('k, 's) any_block \<Rightarrow> string" where
  "block_type b = (case b of PlainBlock _ \<Rightarrow> ''block'' | CHB _ \<Rightarrow> ''CHB'' | NB _ \<Rightarrow> ''NB'' | UB _ \<Rightarrow> ''UB''
     | OKB _ \<Rightarrow> ''OKB'' | ACB _ \<Rightarrow> ''ACB'' | GB _ \<Rightarrow> ''GB'')"

definition serialize_body :: "'k wire \<Rightarrow> version \<Rightarrow> ('k, 's) any_block \<Rightarrow> buffer" where
  "serialize_body wi v b = (case b of PlainBlock b \<Rightarrow> serialize_block b | CHB b \<Rightarrow> serialize_chb b
     | NB b \<Rightarrow> serialize_nb wi b | UB b \<Rightarrow> serialize_ub wi v b
     | OKB b \<Rightarrow> serialize_okb wi v b | ACB b \<Rightarrow> serialize_acb wi v b | GB b \<Rightarrow> serialize_gb wi v b)"

definition serialize_any :: "'k wire \<Rightarrow> ('k, 's) any_block \<Rightarrow> buffer" where
  "serialize_any wi b =
     write_magic @ serialize_bool True @ serialize_string (block_type b) @
     serialize_version (wi_memo wi) @ serialize_body wi (wi_memo wi) b"

definition map_rd :: "('a \<Rightarrow> 'b) \<Rightarrow> 'a reader \<Rightarrow> 'b reader" where
  "map_rd f r = bind_rd r (\<lambda>x. return_rd (f x))"

text \<open>
  The classes \<^verbatim>\<open>blocks::MutableBlock\<close>, \<^verbatim>\<open>blocks::ImmutableBlock\<close> and \<^verbatim>\<open>blocks::ACLBlock\<close> are
  registered too, but no node makes blocks of exactly these classes: they are not among
  the classes of the model and their names are not known to the reader.
\<close>

definition deserialize_body ::
  "'k wire \<Rightarrow> ('k, 's) crypto \<Rightarrow> ('k, 's) doughnut \<Rightarrow> string \<Rightarrow> version \<Rightarrow> ('k, 's) any_block reader" where
  "deserialize_body wi ci d ty v =
     (if ty = ''block'' then map_rd PlainBlock deserialize_block
      else if ty = ''CHB'' then map_rd CHB deserialize_chb
      else if ty = ''NB'' then map_rd NB (deserialize_nb wi)
      else if ty = ''UB'' then map_rd UB (deserialize_ub wi (dn_version d) v)
      else if ty = ''OKB'' then map_rd OKB (deserialize_okb wi ci d v)
      else if ty = ''ACB'' then map_rd ACB (deserialize_acb wi ci d v)
      else if ty = ''GB'' then map_rd GB (deserialize_gb wi ci d v)
      else fail_rd (UnknownType ty))"

definition known_type :: "string \<Rightarrow> bool" where
  "known_type ty \<longleftrightarrow> ty \<in> {''block'', ''CHB'', ''NB'', ''UB'', ''OKB'', ''ACB'', ''GB''}"

text \<open>\<open>None\<close> is a null pointer, which a stream may hold in place of a block.\<close>

definition deserialize_any ::
  "'k wire \<Rightarrow> ('k, 's) crypto \<Rightarrow> ('k, 's) doughnut \<Rightarrow> ('k, 's) any_block option reader" where
  "deserialize_any wi ci d = bind_rd check_magic (\<lambda>_. bind_rd deserialize_bool (\<lambda>filled.
     if filled then
       bind_rd deserialize_string (\<lambda>ty.
         if known_type ty then
           bind_rd deserialize_version (\<lambda>v. map_rd Some (deserialize_body wi ci d ty v))
         else fail_rd (UnknownType ty))
     else return_rd None))"

section \<open>Round trips of the parts\<close>

text \<open>
  What a node relies on: keys can be decoded, and traversing an unordered map gives each
  of its entries once.
\<close>

definition wire_laws :: "'k wire \<Rightarrow> bool" where
  "wire_laws wi \<longleftrightarrow>
     (\<forall>k. wi_decode wi (wi_encode wi k) = Some k \<and> int (length (wi_encode wi k)) < 2 ^ 31) \<and>
     (\<forall>m. finite (dom m) \<longrightarrow> map_of (wi_traverse wi m) = m \<and> distinct (map fst (wi_traverse wi m)))"

lemma key_codec:
  assumes "wire_laws wi"
  shows "codec (serialize_key wi) (deserialize_key wi) (\<lambda>_. True)"
  using assms by unfold_locales (simp add: wire_laws_def serialize_key_def deserialize_key_def)

definition addr_ok :: "address \<Rightarrow> bool" where
  "addr_ok a \<longleftrightarrow> addr_wf a \<and> addr_consistent a"

interpretation adr: codec serialize_address deserialize_address addr_ok
proof
  fix a :: address and rest
  assume "addr_ok a"
  then have "addr_of_buffer (addr_to_buffer a) = Inr a" "int (length (addr_to_buffer a)) < 2 ^ 31"
    using addr_wire_roundtrip [of a] by (simp_all add: addr_ok_def addr_to_buffer_def value_size_def)
  then show "deserialize_address (serialize_address a @ rest) = Inr (a, rest)"
    by (simp add: serialize_address_def deserialize_address_def)
qed

lemma key_hash_codec:
  assumes "wire_laws wi"
  shows "codec (serialize_key_hash wi v) (deserialize_key_hash wi ci d v) (\<lambda>_. True)"
  by unfold_locales
    (simp add: serialize_key_hash_def deserialize_key_hash_def codec.roundtrip [OF key_codec [OF assms]])

definition size_ok :: "'a list \<Rightarrow> bool" where
  "size_ok xs \<longleftrightarrow> int (length xs) < 2 ^ 31"

definition int_ok :: "int \<Rightarrow> bool" where
  "int_ok n \<longleftrightarrow> - (2 ^ 31) \<le> n \<and> n \<le> 2 ^ 31 - 1"

definition block_ok :: "'a block_scheme \<Rightarrow> bool" where
  "block_ok b \<longleftrightarrow> addr_ok (blk_address b) \<and> addr_ok (blk_owner b) \<and> size_ok (blk_data b)"

lemma block_read:
  assumes "block_ok b"
  shows "bind_rd deserialize_block f (serialize_block b @ rest) =
    f (block_new (blk_address b) (blk_data b) (blk_owner b)) rest"
proof -
  have "deserialize_block (serialize_block b @ rest) =
      Inr (block_new (blk_address b) (blk_data b) (blk_owner b), rest)"
    using assms by (simp add: block_ok_def size_ok_def serialize_block_def deserialize_block_def)
  then show ?thesis by (rule bind_rd_Inr)
qed

definition signature_ok :: "signature option \<Rightarrow> bool" where
  "signature_ok sg \<longleftrightarrow> size_ok (signature_value sg)"

lemma signature_of_value_roundtrip [simp]: "signature_of_value (signature_value sg) = sg"
proof (cases sg)
  case (Some s)
  have "bind_rd check_magic (\<lambda>_. deserialize_version) (signature_value sg) = Inr (sig_version s, sig_bytes s)"
    by (simp add: Some signature_value_def write_magic_def bind_rd_def ver.roundtrip)
  then show ?thesis by (simp add: Some signature_of_value_def)
qed (simp add: signature_value_def signature_of_value_def bind_rd_def)

lemma signature_codec:
  assumes "Version 0 4 0 \<le> v"
  shows "codec (serialize_signature v) (deserialize_signature v) signature_ok"
proof -
  have "\<not> v < Version 0 4 0" using assms by (simp add: not_less)
  then show ?thesis
    by unfold_locales (simp add: serialize_signature_def deserialize_signature_def signature_ok_def size_ok_def)
qed

definition acl_entry_ok :: "'k acl_entry \<Rightarrow> bool" where
  "acl_entry_ok e \<longleftrightarrow> size_ok (acl_token e)"

lemma acl_entry_codec:
  assumes "wire_laws wi"
  shows "codec (serialize_acl_entry wi v) (deserialize_acl_entry wi ci d) acl_entry_ok"
  by unfold_locales
    (simp add: serialize_acl_entry_def deserialize_acl_entry_def acl_entry_ok_def size_ok_def
      codec.bind_roundtrip [OF key_hash_codec [OF assms]])

definition passport_ok :: "'k passport \<Rightarrow> bool" where
  "passport_ok p \<longleftrightarrow> size_ok (pp_network p) \<and> size_ok (pp_signature p)"

lemma catch_roundtrip: "codec wr rd ok \<Longrightarrow> ok x \<Longrightarrow> catch_rd rd dflt f (wr x @ rest) = f x rest"
  by (simp add: catch_rd_def codec.roundtrip)

lemma passport_codec:
  assumes "wire_laws wi" and "Version 0 5 0 \<le> dv"
  shows "codec (serialize_passport wi) (deserialize_passport wi dv) passport_ok"
  using assms(2)
  by unfold_locales
    (simp add: serialize_passport_def deserialize_passport_def passport_ok_def size_ok_def Let_def
      codec.bind_roundtrip [OF key_codec [OF assms(1)]] catch_roundtrip [OF bl.codec_axioms]
      catch_roundtrip [OF codec_option [OF key_codec [OF assms(1)]]] option.pred_True)

section \<open>Round trips of blocks\<close>

definition okb_ok :: "('k, 's, 'z) okb_scheme \<Rightarrow> bool" where
  "okb_ok b \<longleftrightarrow> block_ok b \<and> size_ok (okb_salt b) \<and> okb_header_signature b = [] \<and>
     pred_option int_ok (mb_seal_version b) \<and> int_ok (okb_version b) \<and> signature_ok (okb_signature b)"

text \<open>A block with its keys as a node reads it; the clear data is not kept.\<close>

definition okb_received :: "('k, 's) doughnut \<Rightarrow> ('k, 's, 'z) okb_scheme \<Rightarrow> ('k, 's, 'z) okb_scheme" where
  "okb_received d b =
     b\<lparr>okb_owner_private_key := (if okb_owner_key b = dn_K d then Some (dn_k d) else None),
       okb_data_plain := [], okb_data_decrypted := False, blk_validated := False, mb_data_changed := False\<rparr>"

lemma opt_i32_codec: "codec (serialize_option serialize_number) (deserialize_option deserialize_int32) (pred_option int_ok)"
  using codec_option [OF i32.codec_axioms] by (simp add: int_ok_def [abs_def])

lemma ver_8:
  assumes "Version 0 8 0 \<le> v"
  shows "\<not> v < Version 0 4 0" "\<not> v < Version 0 7 0" "\<not> v < Version 0 8 0" "Version 0 4 0 \<le> v"
    "Version 0 5 0 \<le> v" "Version 0 7 0 \<le> v"
proof -
  have "Version 0 4 0 \<le> Version 0 8 0" "Version 0 5 0 \<le> Version 0 8 0" "Version 0 7 0 \<le> Version 0 8 0"
    by code_simp+
  then show "\<not> v < Version 0 4 0" "\<not> v < Version 0 7 0" "\<not> v < Version 0 8 0" "Version 0 4 0 \<le> v"
    "Version 0 5 0 \<le> v" "Version 0 7 0 \<le> v"
    using assms order.trans not_less by blast+
qed

lemma okb_read:
  assumes "wire_laws wi" and "Version 0 8 0 \<le> v" and "okb_ok b" and "blk_data b \<noteq> []"
  shows "bind_rd (deserialize_okb wi ci d v) f (serialize_okb wi v b @ rest) = f (okb.truncate (okb_received d b)) rest"
proof -
  have "deserialize_okb wi ci d v (serialize_okb wi v b @ rest) = Inr (okb.truncate (okb_received d b), rest)"
    using assms(3,4) ver_8 [OF assms(2)]
    by (simp add: okb_ok_def size_ok_def int_ok_def serialize_okb_def deserialize_okb_def block_read
        deserialize_header_def deserialize_clear_def codec.bind_roundtrip [OF key_hash_codec [OF assms(1)]]
        codec.bind_roundtrip [OF opt_i32_codec] codec.bind_roundtrip [OF signature_codec]
        okb.truncate_def okb_received_def block_new_def block.extend_def mblock.extend_def)
  then show ?thesis by (rule bind_rd_Inr)
qed

definition acb_ok :: "('k, 's, 'z) acb_scheme \<Rightarrow> bool" where
  "acb_ok b \<longleftrightarrow> okb_ok b \<and> int_ok (acb_editor b) \<and> size_ok (acb_owner_token b) \<and>
     list_all acl_entry_ok (acb_acl_entries b) \<and> size_ok (acb_acl_entries b) \<and>
     list_all acl_entry_ok (acb_acl_group_entries b) \<and> size_ok (acb_acl_group_entries b) \<and>
     list_all int_ok (acb_group_version b) \<and> size_ok (acb_group_version b) \<and>
     int_ok (acb_data_version b) \<and> signature_ok (acb_data_signature b)"

lemma i32_array_codec:
  "codec (serialize_array serialize_number) (deserialize_array deserialize_int32) (\<lambda>xs. list_all int_ok xs \<and> size_ok xs)"
  using codec_array [OF i32.codec_axioms] by (simp add: int_ok_def [abs_def] size_ok_def [abs_def])

lemma acl_codec:
  "wire_laws wi \<Longrightarrow>
   codec (serialize_array (serialize_acl_entry wi v)) (deserialize_array (deserialize_acl_entry wi ci d))
     (\<lambda>xs. list_all acl_entry_ok xs \<and> size_ok xs)"
  using codec_array [OF acl_entry_codec] by (simp add: size_ok_def [abs_def])

lemma acb_read:
  assumes "wire_laws wi" and "Version 0 8 0 \<le> v" and "acb_ok b" and "blk_data b \<noteq> []"
  shows "bind_rd (deserialize_acb wi ci d v) f (serialize_acb wi v b @ rest) = f (acb.truncate (acb_received d b)) rest"
proof -
  have "deserialize_acb wi ci d v (serialize_acb wi v b @ rest) = Inr (acb.truncate (acb_received d b), rest)"
    using assms(3,4) ver_8 [OF assms(2)]
    by (simp add: acb_ok_def size_ok_def int_ok_def serialize_acb_def deserialize_acb_def
        deserialize_world_def okb_read [OF assms(1,2)] codec.bind_roundtrip [OF acl_codec [OF assms(1)]]
        codec.bind_roundtrip [OF i32_array_codec] codec.bind_roundtrip [OF signature_codec]
        okb.truncate_def okb_received_def acb.truncate_def acb_received_def okb.extend_def split: prod.splits)
  then show ?thesis by (rule bind_rd_Inr)
qed

definition gb_ok :: "'k wire \<Rightarrow> ('k, 's) gb \<Rightarrow> bool" where
  "gb_ok wi g \<longleftrightarrow> acb_ok g \<and> size_ok (gb_public_keys g) \<and> finite (dom (gb_admin_keys g)) \<and>
     list_all (\<lambda>p. size_ok (snd p)) (wi_traverse wi (gb_admin_keys g)) \<and>
     size_ok (wi_traverse wi (gb_admin_keys g)) \<and> pred_option size_ok (gb_description g)"

lemma keys_codec:
  "wire_laws wi \<Longrightarrow> codec (serialize_array (serialize_key wi)) (deserialize_array (deserialize_key wi)) size_ok"
  using codec_array [OF key_codec] by (simp add: size_ok_def [abs_def] list.pred_True)

lemma admins_codec:
  "wire_laws wi \<Longrightarrow>
   codec (serialize_array (serialize_pair (serialize_key wi) serialize_buffer))
     (deserialize_array (deserialize_pair (deserialize_key wi) deserialize_buffer))
     (\<lambda>xs. list_all (\<lambda>p. size_ok (snd p)) xs \<and> size_ok xs)"
  using codec_array [OF codec_pair [OF key_codec buf.codec_axioms]] by (simp add: size_ok_def [abs_def])

lemma opt_string_codec: "codec (serialize_option serialize_string) (deserialize_option deserialize_string) (pred_option size_ok)"
  using codec_option [OF str.codec_axioms] by (simp add: size_ok_def [abs_def])

lemma gb_read:
  assumes "wire_laws wi" and "Version 0 8 0 \<le> v" and "gb_ok wi g" and "blk_data g \<noteq> []"
    and "gb_received ci d g = Inr g'"
  shows "deserialize_gb wi ci d v (serialize_gb wi v g @ rest) = Inr (g', rest)"
proof -
  let ?g = "acb.extend (acb.truncate (acb_received d g)) \<lparr>gb_keys = [], gb_public_keys = gb_public_keys g,
      gb_admin_keys = gb_admin_keys g, gb_description = gb_description g\<rparr> :: ('a, 'b) gb"
  have "map_of (wi_traverse wi (gb_admin_keys g)) = gb_admin_keys g"
    using assms(1,3) by (simp add: wire_laws_def gb_ok_def)
  moreover have "?g = (acb_received d g)\<lparr>gb_keys := []\<rparr>"
    by (simp add: acb.truncate_def acb.extend_def acb_received_def)
  moreover have "group_description_version \<le> v" using assms(2) by (simp add: group_description_version_def)
  moreover have "gb_admin_keys (acb_received d g) = gb_admin_keys g" by (simp add: acb_received_def)
  ultimately show ?thesis
    using assms(3-5)
    by (auto simp: gb_ok_def serialize_gb_def deserialize_gb_def acb_read [OF assms(1,2)] gb_received_def Let_def
        codec.bind_roundtrip [OF keys_codec [OF assms(1)]] codec.bind_roundtrip [OF admins_codec [OF assms(1)]]
        codec.bind_roundtrip [OF opt_string_codec] split: option.splits)
qed


section \<open>Properties\<close>

text \<open>What a node may write, and what it reads from it.\<close>

definition wire_ok :: "'k wire \<Rightarrow> ('k, 's) doughnut \<Rightarrow> ('k, 's) any_block \<Rightarrow> bool" where
  "wire_ok wi d b = (case b of
     PlainBlock b \<Rightarrow> block_ok b
   | CHB b \<Rightarrow> block_ok b \<and> size_ok (chb_salt b)
   | NB b \<Rightarrow> block_ok b \<and> size_ok (nb_name b) \<and> size_ok (nb_signature b)
   | UB b \<Rightarrow> block_ok b \<and> size_ok (ub_name b) \<and> pred_option passport_ok (ub_passport b) \<and>
       Version 0 5 0 \<le> dn_version d
   | OKB b \<Rightarrow> okb_ok b \<and> blk_data b \<noteq> []
   | ACB b \<Rightarrow> acb_ok b \<and> blk_data b \<noteq> []
   | GB g \<Rightarrow> gb_ok wi g \<and> blk_data g \<noteq> [])"

definition block_received ::
  "('k, 's) crypto \<Rightarrow> ('k, 's) doughnut \<Rightarrow> ('k, 's) any_block \<Rightarrow> blk_error + ('k, 's) any_block" where
  "block_received ci d b = (case b of
     PlainBlock b \<Rightarrow> Inr (PlainBlock (b\<lparr>blk_validated := False\<rparr>))
   | CHB b \<Rightarrow> Inr (CHB (b\<lparr>blk_validated := False\<rparr>))
   | NB b \<Rightarrow> Inr (NB (b\<lparr>blk_validated := False\<rparr>))
   | UB b \<Rightarrow> Inr (UB (b\<lparr>blk_validated := False\<rparr>))
   | OKB b \<Rightarrow> Inr (OKB (okb_received d b))
   | ACB b \<Rightarrow> Inr (ACB (acb_received d b))
   | GB g \<Rightarrow> bind_res (gb_received ci d g) (\<lambda>g'. Inr (GB g')))"

lemmas body_simps = deserialize_body_def block_type_def serialize_body_def wire_ok_def block_received_def map_rd_def

lemma immutable_read:
  assumes "wire_laws wi" and "Version 0 8 0 \<le> v" and "wire_ok wi d b" and "block_received ci d b = Inr b'"
    and "b = PlainBlock p \<or> b = CHB c \<or> b = NB n \<or> b = UB u"
  shows "deserialize_body wi ci d (block_type b) v (serialize_body wi v b @ rest) = Inr (b', rest)"
  using assms(5)
proof (elim disjE)
  assume "b = UB u"
  moreover from this have "Version 0 5 0 \<le> dn_version d" using assms(3) by (simp add: wire_ok_def)
  ultimately show ?thesis using assms(3,4) ver_8 [OF assms(2)]
    by (auto simp: body_simps serialize_ub_def deserialize_ub_def block_read size_ok_def
        codec.bind_roundtrip [OF key_codec [OF assms(1)]]
        codec.bind_roundtrip [OF codec_option [OF passport_codec [OF assms(1)]]] block_new_def block.extend_def)
qed (use assms(3,4) in \<open>auto simp: body_simps serialize_chb_def deserialize_chb_def serialize_nb_def deserialize_nb_def
      block_read size_ok_def codec.bind_roundtrip [OF key_codec [OF assms(1)]] block_new_def block.extend_def\<close>)

lemma mutable_read:
  assumes "wire_laws wi" and "Version 0 8 0 \<le> v" and "wire_ok wi d b" and "block_received ci d b = Inr b'"
    and "b = OKB o1 \<or> b = ACB a \<or> b = GB g"
  shows "deserialize_body wi ci d (block_type b) v (serialize_body wi v b @ rest) = Inr (b', rest)"
  using assms(5)
proof (elim disjE)
  assume b: "b = OKB o1"
  have "okb.truncate (okb_received d o1) = okb_received d o1" by (simp add: okb.truncate_def)
  then show ?thesis using b assms(3,4) by (auto simp: body_simps okb_read [OF assms(1,2)])
next
  assume b: "b = ACB a"
  have "acb.truncate (acb_received d a) = acb_received d a" by (simp add: acb.truncate_def)
  then show ?thesis using b assms(3,4) by (auto simp: body_simps acb_read [OF assms(1,2)])
next
  assume b: "b = GB g"
  then obtain g' where g': "gb_received ci d g = Inr g'" "b' = GB g'"
    using assms(4) by (auto simp: block_received_def bind_res_eq_Inr)
  have "deserialize_gb wi ci d v (serialize_gb wi v g @ rest) = Inr (g', rest)"
    using b assms(3) by (intro gb_read [OF assms(1,2) _ _ g'(1)]) (auto simp: wire_ok_def)
  then show ?thesis by (simp add: b g' body_simps bind_rd_Inr)
qed

lemma any_read:
  assumes "wire_laws wi" and "Version 0 8 0 \<le> wi_memo wi" and "wire_ok wi d b"
    and "block_received ci d b = Inr b'"
  shows "deserialize_any wi ci d (serialize_any wi b) = Inr (Some b', [])"
proof -
  have "deserialize_body wi ci d (block_type b) (wi_memo wi) (serialize_body wi (wi_memo wi) b @ []) = Inr (b', [])"
  proof (cases b)
    case (GB g)
    then show ?thesis using mutable_read [OF assms] by blast
  qed (use immutable_read [OF assms] mutable_read [OF assms] in metis)+
  moreover have "known_type (block_type b)" "int (length (block_type b)) < 2 ^ 31"
    by (auto simp: known_type_def block_type_def split: any_block.splits)
  ultimately show ?thesis
    by (simp add: serialize_any_def deserialize_any_def write_magic_def map_rd_def bind_rd_Inr)
qed

text \<open>
  C24. What a node writes of a block it reads back, and nothing is left of the stream: the
  same fields for every class, without the cached validation, the clear data and the
  private key of others, provided that sizes fit an \<^verbatim>\<open>int\<close>, that a block with an owner
  key was sealed, so that its data is not empty, and that the reader, if it is an administrator
  of a group block, can open the key sealed for it.
\<close>

theorem block_wire_roundtrip:
  assumes "wire_laws wi" and "Version 0 8 0 \<le> wi_memo wi" and "wire_ok wi d b"
    and "block_received ci d b = Inr b'"
  shows "deserialize_any wi ci d (serialize_any wi b) = Inr (Some b', [])"
  by (rule any_read [OF assms])

text \<open>A block as it is before it is sealed, with clear data.\<close>

definition unsealed :: "('k, 's, 'z) okb_scheme \<Rightarrow> bool" where
  "unsealed b \<longleftrightarrow> okb_ok b \<and> blk_data b = [] \<and> size_ok (okb_data_plain b) \<and> 2 \<le> length (okb_data_plain b)"

lemma okb_unsealed_read:
  assumes "wire_laws wi" and "Version 0 8 0 \<le> v" and "unsealed b"
  shows "deserialize_okb wi ci d v (serialize_okb wi v b @ rest) = Inl Overflow"
proof -
  have "deserialize_bool (serialize_buffer p @ rest) = Inl Overflow" if "size_ok p" "2 \<le> length p" for p rest
    using that by (auto simp: deserialize_bool_def serialize_buffer_def size_ok_def)
  then show ?thesis
    using assms(3) bind_rd_Inl ver_8 [OF assms(2)]
    by (simp add: unsealed_def okb_ok_def size_ok_def serialize_okb_def deserialize_okb_def block_read
        deserialize_header_def deserialize_clear_def deserialize_option_def block_new_def bind_rd_Inl
        codec.bind_roundtrip [OF key_hash_codec [OF assms(1)]])
qed

text \<open>
  C38. An owner key block or an access-controlled block that was not sealed, with two bytes of
  clear data or more, cannot be
  read back from what is written of it: the clear data and the version of the next seal
  are read in the other order, so the size of the data is taken for a boolean.
\<close>

theorem unsealed_unreadable:
  assumes "wire_laws wi" and "Version 0 8 0 \<le> wi_memo wi"
    and "(\<exists>c. b = OKB c \<and> unsealed c) \<or> (\<exists>c. b = ACB c \<and> unsealed c)"
  shows "deserialize_any wi ci d (serialize_any wi b) = Inl Overflow"
proof -
  have "known_type (block_type b)" "int (length (block_type b)) < 2 ^ 31"
    by (auto simp: known_type_def block_type_def split: any_block.splits)
  moreover have "deserialize_body wi ci d (block_type b) (wi_memo wi) (serialize_body wi (wi_memo wi) b) = Inl Overflow"
    using assms(3)
  proof
    assume "\<exists>c. b = OKB c \<and> unsealed c"
    then obtain c where c: "b = OKB c" "unsealed c" by blast
    from okb_unsealed_read [OF assms(1,2) c(2), of ci d "[]"] show ?thesis
      by (simp add: c body_simps bind_rd_Inl)
  qed (auto simp: body_simps serialize_acb_def deserialize_acb_def bind_rd_Inl okb_unsealed_read [OF assms(1,2)])
  ultimately show ?thesis
    by (simp add: serialize_any_def deserialize_any_def write_magic_def map_rd_def bind_rd_Inr bind_rd_Inl)
qed

section \<open>Examples\<close>

definition toy_wire :: "byte wire" where
  "toy_wire = \<lparr>wi_memo = Version 0 9 2, wi_elle = Version 0 4 0, wi_encode = (\<lambda>k. [k]),
     wi_decode = (\<lambda>b. case b of [k] \<Rightarrow> Some k | _ \<Rightarrow> None),
     wi_traverse = (\<lambda>m. map (\<lambda>k. (k, the (m k))) (filter (\<lambda>k. m k \<noteq> None) (map word_of_nat [0..<256])))\<rparr>"

lemma all_bytes: "set (map word_of_nat [0..<256]) = (UNIV :: byte set)"
proof -
  have "b \<in> word_of_nat ` {0..<256}" for b :: byte
    using unsigned_less [of b] by (intro image_eqI [of _ _ "unat b"]) simp_all
  then show ?thesis by auto
qed

lemma distinct_bytes: "distinct (map word_of_nat [0..<256] :: byte list)"
  by (simp add: distinct_map inj_on_def word_of_nat_eq_iff take_bit_eq_mod)

lemma toy_wire_laws: "wire_laws toy_wire"
proof -
  have "map_of (map (\<lambda>k. (k, the (m k))) (filter (\<lambda>k. m k \<noteq> None) (map word_of_nat [0..<256]))) = m"
    for m :: "byte \<rightharpoonup> buffer"
    using all_bytes by (auto simp: map_of_map_restrict restrict_map_def fun_eq_iff)
  then show ?thesis
    using distinct_bytes by (simp add: wire_laws_def toy_wire_def comp_def)
qed

text \<open>An access-controlled block as it is stored, and the same before it was sealed.\<close>

definition toy_stored :: "(byte, byte) acb" where
  "toy_stored =
     \<lparr>blk_address = addr_flagged (replicate 32 7) flags_mutable_block True, blk_data = [1, 2, 3],
      blk_owner = addr_null, blk_validated = False, mb_data_changed = False, mb_seal_version = None,
      okb_salt = [4], okb_owner_key = 1, okb_header_signature = [], okb_version = 3,
      okb_signature = Some \<lparr>sig_version = Version 0 9 0, sig_bytes = [5, 6]\<rparr>,
      okb_owner_private_key = None, okb_data_plain = [], okb_data_decrypted = False,
      acb_editor = -1, acb_owner_token = [8], acb_acl_changed = False,
      acb_acl_entries = [\<lparr>acl_key = 2, acl_read = True, acl_write = False, acl_token = [9]\<rparr>],
      acb_acl_group_entries = [\<lparr>acl_key = 3, acl_read = True, acl_write = True, acl_token = []\<rparr>],
      acb_group_version = [0], acb_data_version = 70000, acb_data_signature = None,
      acb_world_readable = False, acb_world_writable = False, acb_deleted = False, acb_sign_key = None,
      acb_seal_version = Version 0 9 2\<rparr>"

definition toy_unsealed :: "(byte, byte) acb" where
  "toy_unsealed = toy_stored\<lparr>blk_data := [], okb_data_plain := [1, 2, 3]\<rparr>"

definition toy_node :: "(byte, byte) doughnut" where
  "toy_node = \<lparr>dn_version = Version 0 9 0, dn_K = 2, dn_k = 2, dn_owner = 1,
     dn_admin_keys = \<lparr>ak_r = [], ak_w = [], ak_group_r = [], ak_group_w = []\<rparr>,
     dn_validate_signatures = True, dn_fetch = (\<lambda>_. Inr None), dn_stack = []\<rparr>"

lemma toy_okb_ok: "okb_ok toy_stored" "okb_ok toy_unsealed"
proof -
  have "addr_ok (addr_flagged (replicate 32 7) flags_mutable_block True)"
    by (simp add: addr_ok_def addr_flagged_consistent addr_flagged_wf value_size_def)
  moreover have "addr_ok addr_null"
    by (simp add: addr_ok_def addr_null_def addr_wf_def addr_consistent_def value_size_def flag_byte_def)
  moreover have "signature_ok (Some \<lparr>sig_version = Version 0 9 0, sig_bytes = [5, 6]\<rparr>)" by code_simp
  ultimately show "okb_ok toy_stored" "okb_ok toy_unsealed"
    by (simp_all add: okb_ok_def block_ok_def toy_stored_def toy_unsealed_def size_ok_def int_ok_def)
qed

lemma toy_stored_ok: "wire_ok toy_wire d (ACB toy_stored)" "unsealed toy_unsealed"
  "Version 0 8 0 \<le> wi_memo toy_wire"
proof -
  show "Version 0 8 0 \<le> wi_memo toy_wire" by code_simp
  show "unsealed toy_unsealed" using toy_okb_ok(2) by (simp add: unsealed_def) (simp add: toy_unsealed_def size_ok_def)
  show "wire_ok toy_wire d (ACB toy_stored)" using toy_okb_ok(1) unfolding wire_ok_def acb_ok_def any_block.case
    by (simp only: simp_thms) (simp add: toy_stored_def size_ok_def int_ok_def acl_entry_ok_def signature_ok_def signature_value_def)
qed

theorem block_wire_roundtrip_witness:
  "\<forall>ci. deserialize_any toy_wire ci toy_node (serialize_any toy_wire (ACB toy_stored)) = Inr (Some (ACB toy_stored), [])"
proof
  fix ci :: "(byte, byte) crypto"
  have "block_received ci toy_node (ACB toy_stored) = Inr (ACB toy_stored)"
    by (simp add: block_received_def acb_received_def toy_stored_def toy_node_def)
  with toy_wire_laws toy_stored_ok show "deserialize_any toy_wire ci toy_node (serialize_any toy_wire (ACB toy_stored)) =
      Inr (Some (ACB toy_stored), [])"
    by (intro block_wire_roundtrip)
qed

theorem unsealed_unreadable_witness:
  "\<forall>ci d. deserialize_any toy_wire ci d (serialize_any toy_wire (ACB toy_unsealed)) = Inl Overflow"
  using unsealed_unreadable [OF toy_wire_laws toy_stored_ok(3)] toy_stored_ok(2) by blast

end
