(* ===== verification/Memo_Silo.thy ===== *)
theory Memo_Silo
  imports Memo_Address
begin

text \<open>
  Block storage (src/memo/silo/): the base class \<^verbatim>\<open>Silo\<close> with its accounting, and the
  backends Memory, Filesystem, Strip, Mirror, Crypt and Latency. Backends nest, so a silo is a
  recursive datatype and each virtual call is one function over it.

  A key is the 32-byte value of an address: the maps and the file names of the code only look at
  that. An \<^verbatim>\<open>unordered_map\<close> is an association list with distinct keys. Every operation
  returns the new silo also when it throws, since a composite may have changed some of its
  backends by then. Sizes that the code keeps in an \<^verbatim>\<open>int\<close> go through \<^const>\<open>int32\<close>. The
  symmetric cipher of \<^verbatim>\<open>elle::cryptography::SecretKey\<close> is a parameter. The waiting of
  Latency and the parallel mode of Mirror only change timing; the backends of a Mirror are
  visited in order.
\<close>

section \<open>State\<close>

type_synonym key = buffer

datatype silo_error =
    MissingKey key
  | Collision key
  | InsufficientSpace int int int
  | CipherError
  | SiloAssert        \<comment> \<open>a failed \<^verbatim>\<open>ELLE_ASSERT\<close>\<close>
  | SiloUndefined     \<comment> \<open>an index outside a vector\<close>

record silo_base =
  sb_capacity :: "int option"
  sb_usage :: int
  sb_base_usage :: int
  sb_step :: int
  sb_size_cache :: "(key \<times> int) list"
  sb_block_count :: int
  sb_notifications :: nat

datatype silo = Silo silo_base backend
and backend =
    Memory "(key \<times> buffer) list"
  | Filesystem "((string \<times> string) \<times> buffer) list"
  | Strip "silo list"
  | Mirror bool bool "32 word" "silo list" \<comment> \<open>balance reads, parallel, read counter\<close>
  | Crypt string bool silo
  | Latency "nat option" "nat option" "nat option" silo

record cipher =
  encipher :: "string \<Rightarrow> buffer \<Rightarrow> buffer"
  decipher :: "string \<Rightarrow> buffer \<Rightarrow> silo_error + buffer"

datatype block_status = BlockExists | BlockMissing | BlockUnknown

fun silo_base_of :: "silo \<Rightarrow> silo_base" where
  "silo_base_of (Silo b _) = b"

fun silo_backend_of :: "silo \<Rightarrow> backend" where
  "silo_backend_of (Silo _ be) = be"

abbreviation silo_usage :: "silo \<Rightarrow> int" where
  "silo_usage s \<equiv> sb_usage (silo_base_of s)"

abbreviation silo_block_count :: "silo \<Rightarrow> int" where
  "silo_block_count s \<equiv> sb_block_count (silo_base_of s)"

section \<open>The base class\<close>

definition default_step :: int where
  "default_step = 100 * 1024 * 1024"

definition silo_base_new :: "int option \<Rightarrow> silo_base" where
  "silo_base_new cap =
     \<lparr>sb_capacity = cap, sb_usage = 0, sb_base_usage = 0,
      sb_step = (case cap of Some c \<Rightarrow> if c < 0 then - ((- c) div 10) else c div 10 | None \<Rightarrow> default_step),
      sb_size_cache = [], sb_block_count = 0, sb_notifications = 0\<rparr>"

definition notify_metrics :: "silo_base \<Rightarrow> silo_base" where
  "notify_metrics b = b\<lparr>sb_notifications := sb_notifications b + 1\<rparr>"

text \<open>The end of \<^verbatim>\<open>Silo::set\<close> and of \<^verbatim>\<open>Silo::erase\<close>, after the backend returned its delta.\<close>

definition account_set :: "int \<Rightarrow> silo_base \<Rightarrow> silo_base" where
  "account_set delta b =
     (let b1 = b\<lparr>sb_usage := sb_usage b + delta\<rparr>;
          b2 = (if sb_step b1 \<le> \<bar>sb_base_usage b1 - sb_usage b1\<bar>
                then (notify_metrics b1)\<lparr>sb_base_usage := sb_usage b1\<rparr> else b1)
      in notify_metrics b2)"

definition account_erase :: "key \<Rightarrow> int \<Rightarrow> silo_base \<Rightarrow> silo_base" where
  "account_erase k delta b =
     notify_metrics (b\<lparr>sb_usage := sb_usage b + delta,
                       sb_size_cache := AList.delete k (sb_size_cache b)\<rparr>)"

definition silo_status :: "silo \<Rightarrow> key \<Rightarrow> block_status" where
  "silo_status s k = BlockUnknown"

section \<open>Memory and Filesystem\<close>

definition mapped_size :: "('k \<times> buffer) list \<Rightarrow> int" where
  "mapped_size bl = foldl (\<lambda>res b. int32 (res + int (length (snd b)))) 0 bl"

definition memory_invariants :: "silo_base \<Rightarrow> (key \<times> buffer) list \<Rightarrow> bool" where
  "memory_invariants b bl \<longleftrightarrow>
     sb_block_count b = int32 (int (length bl)) \<and> sb_usage b = mapped_size bl"

definition memory_find :: "(key \<times> buffer) list \<Rightarrow> key \<Rightarrow> silo_error + buffer" where
  "memory_find bl k = (case map_of bl k of None \<Rightarrow> Inl (MissingKey k) | Some v \<Rightarrow> Inr v)"

definition memory_set ::
  "silo_base \<Rightarrow> (key \<times> buffer) list \<Rightarrow> key \<Rightarrow> buffer \<Rightarrow> bool \<Rightarrow> bool
     \<Rightarrow> (silo_error + int) \<times> silo_base \<times> (key \<times> buffer) list" where
  "memory_set b bl k v ins upd =
     (if ins then
        (case map_of bl k of
           Some old \<Rightarrow>
             if \<not> upd then (Inl (Collision k), b, bl)
             else (Inr (int32 (int (length v) - int (length old))), b, AList.update k v bl)
         | None \<Rightarrow>
             (Inr (int32 (int (length v))), b\<lparr>sb_block_count := sb_block_count b + 1\<rparr>, AList.update k v bl))
      else
        (case memory_find bl k of
           Inl e \<Rightarrow> (Inl e, b, bl)
         | Inr old \<Rightarrow>
             (Inr (int32 (int (length v) - int (length old))), b, AList.update k v bl)))"

definition memory_erase ::
  "silo_base \<Rightarrow> (key \<times> buffer) list \<Rightarrow> key \<Rightarrow> (silo_error + int) \<times> silo_base \<times> (key \<times> buffer) list" where
  "memory_erase b bl k =
     (case memory_find bl k of
        Inl e \<Rightarrow> (Inl e, b, bl)
      | Inr old \<Rightarrow>
          (Inr (int32 (- int (length old))), b\<lparr>sb_block_count := sb_block_count b - 1\<rparr>, AList.delete k bl))"

text \<open>
  A file is known by its directory and its name. \<^verbatim>\<open>_path\<close> also creates the directory.
\<close>

definition fs_path :: "key \<Rightarrow> string \<times> string" where
  "fs_path k = (hex_encode (take 1 k), addr_print_hex \<lparr>addr_value = k, addr_mutable = False\<rparr>)"

definition is_block :: "string \<Rightarrow> bool" where
  "is_block name \<longleftrightarrow> take 2 name = ''0x'' \<and> length name = 66"

definition fs_get :: "((string \<times> string) \<times> buffer) list \<Rightarrow> key \<Rightarrow> silo_error + buffer" where
  "fs_get files k = (case map_of files (fs_path k) of None \<Rightarrow> Inl (MissingKey k) | Some v \<Rightarrow> Inr v)"

definition fs_set ::
  "silo_base \<Rightarrow> ((string \<times> string) \<times> buffer) list \<Rightarrow> key \<Rightarrow> buffer \<Rightarrow> bool \<Rightarrow> bool
     \<Rightarrow> (silo_error + int) \<times> silo_base \<times> ((string \<times> string) \<times> buffer) list" where
  "fs_set b files k v ins upd =
     (let path = fs_path k;
          exists = map_of files path \<noteq> None;
          size = (case map_of files path of Some d \<Rightarrow> int32 (int (length d)) | None \<Rightarrow> 0);
          delta = int32 (int (length v) - size)
      in if (case sb_capacity b of Some cap \<Rightarrow> cap < sb_usage b + delta | None \<Rightarrow> False)
         then (Inl (InsufficientSpace delta (sb_usage b) (the (sb_capacity b))), b, files)
         else if \<not> exists \<and> \<not> ins then (Inl (MissingKey k), b, files)
         else if exists \<and> \<not> upd then (Inl (Collision k), b, files)
         else (Inr (if upd then int32 (int (length v) - size) else int32 (int (length v))),
               b\<lparr>sb_size_cache := AList.update k (int32 (int (length v))) (sb_size_cache b),
                 sb_block_count := sb_block_count b + (if exists then 0 else 1)\<rparr>,
               AList.update path v files))"

definition fs_erase ::
  "silo_base \<Rightarrow> ((string \<times> string) \<times> buffer) list \<Rightarrow> key
     \<Rightarrow> (silo_error + int) \<times> silo_base \<times> ((string \<times> string) \<times> buffer) list" where
  "fs_erase b files k =
     (if map_of files (fs_path k) = None then (Inl (MissingKey k), b, files)
      else
        let delta = (case map_of (sb_size_cache b) k of Some d \<Rightarrow> d | None \<Rightarrow> 0)
        in (Inr (int32 (- delta)),
            b\<lparr>sb_block_count := sb_block_count b - 1,
              sb_size_cache := AList.delete k (sb_size_cache b)\<rparr>,
            AList.delete (fs_path k) files))"

fun fs_list :: "((string \<times> string) \<times> buffer) list \<Rightarrow> silo_error + key list" where
  "fs_list [] = Inr []"
| "fs_list ((path, _) # files) =
     (if is_block (snd path) then
        (case addr_from_string (snd path) of
           Inl _ \<Rightarrow> Inl SiloAssert
         | Inr a \<Rightarrow> bind_res (fs_list files) (\<lambda>ks. Inr (addr_value a # ks)))
      else fs_list files)"

text \<open>The constructor of Filesystem: recover the accounting from the files on disk.\<close>

fun fs_recover :: "silo_base \<Rightarrow> ((string \<times> string) \<times> buffer) list \<Rightarrow> silo_error + silo_base" where
  "fs_recover b [] = Inr b"
| "fs_recover b ((path, data) # files) =
     (case addr_from_string (snd path) of
        Inl _ \<Rightarrow> Inl SiloAssert
      | Inr a \<Rightarrow>
          fs_recover
            (notify_metrics
              (b\<lparr>sb_size_cache := AList.update (addr_value a) (int32 (int (length data))) (sb_size_cache b),
                 sb_usage := sb_usage b + int (length data),
                 sb_block_count := sb_block_count b + 1\<rparr>))
            files)"

definition fs_open ::
  "((string \<times> string) \<times> buffer) list \<Rightarrow> int option \<Rightarrow> silo_error + silo" where
  "fs_open files cap =
     bind_res (fs_recover (silo_base_new cap) files) (\<lambda>b. Inr (Silo b (Filesystem files)))"

definition memory_new :: silo where
  "memory_new = Silo (silo_base_new None) (Memory [])"

definition memory_adopt :: "(key \<times> buffer) list \<Rightarrow> silo" where
  "memory_adopt bl =
     Silo ((silo_base_new None)\<lparr>sb_usage := mapped_size bl, sb_block_count := int32 (int (length bl))\<rparr>)
       (Memory bl)"

section \<open>Composite silos\<close>

definition strip_new :: "silo list \<Rightarrow> silo" where
  "strip_new bs =
     Silo ((silo_base_new None)\<lparr>sb_usage := sum_list (map silo_usage bs),
             sb_block_count := sum_list (map silo_block_count bs)\<rparr>)
       (Strip bs)"

definition mirror_new :: "silo list \<Rightarrow> bool \<Rightarrow> bool \<Rightarrow> silo" where
  "mirror_new bs balance par = Silo (silo_base_new None) (Mirror balance par 0 bs)"

definition crypt_new :: "silo \<Rightarrow> string \<Rightarrow> bool \<Rightarrow> silo" where
  "crypt_new s password salt = Silo (silo_base_new None) (Crypt password salt s)"

definition latency_new :: "silo \<Rightarrow> nat option \<Rightarrow> nat option \<Rightarrow> nat option \<Rightarrow> silo" where
  "latency_new s g st er = Silo (silo_base_new None) (Latency g st er s)"

definition strip_sum :: "key \<Rightarrow> nat" where
  "strip_sum k = sum_list (map unat k)"

definition storage_of :: "key \<Rightarrow> nat \<Rightarrow> nat" where
  "storage_of k n = strip_sum k mod n"

definition secret_key :: "string \<Rightarrow> bool \<Rightarrow> key \<Rightarrow> string" where
  "secret_key password salt k =
     (if salt then password @ addr_print_hex \<lparr>addr_value = k, addr_mutable = False\<rparr> else password)"

section \<open>Operations\<close>

function (sequential) silo_get :: "cipher \<Rightarrow> silo \<Rightarrow> key \<Rightarrow> (silo_error + buffer) \<times> silo"
and backend_get :: "cipher \<Rightarrow> backend \<Rightarrow> key \<Rightarrow> (silo_error + buffer) \<times> backend"
and nth_get :: "cipher \<Rightarrow> silo list \<Rightarrow> nat \<Rightarrow> key \<Rightarrow> (silo_error + buffer) \<times> silo list" where
  "silo_get ci (Silo b be) k = (case backend_get ci be k of (r, be') \<Rightarrow> (r, Silo b be'))"
| "backend_get ci (Memory bl) k = (memory_find bl k, Memory bl)"
| "backend_get ci (Filesystem files) k = (fs_get files k, Filesystem files)"
| "backend_get ci (Strip bs) k =
     (if bs = [] then (Inl SiloUndefined, Strip bs)
      else case nth_get ci bs (storage_of k (length bs)) k of (r, bs') \<Rightarrow> (r, Strip bs'))"
| "backend_get ci (Mirror balance par n bs) k =
     (let n' = n + 1 in
      if bs = [] then (Inl SiloUndefined, Mirror balance par n' bs)
      else case nth_get ci bs (if balance then unat n' mod length bs else 0) k of
             (r, bs') \<Rightarrow> (r, Mirror balance par n' bs'))"
| "backend_get ci (Crypt pw salt s) k =
     (case silo_get ci s k of
        (Inl e, s') \<Rightarrow> (Inl e, Crypt pw salt s')
      | (Inr enc, s') \<Rightarrow> (decipher ci (secret_key pw salt k) enc, Crypt pw salt s'))"
| "backend_get ci (Latency g st er s) k =
     (case silo_get ci s k of (r, s') \<Rightarrow> (r, Latency g st er s'))"
| "nth_get ci [] i k = (Inl SiloUndefined, [])"
| "nth_get ci (s # ss) 0 k = (case silo_get ci s k of (r, s') \<Rightarrow> (r, s' # ss))"
| "nth_get ci (s # ss) (Suc i) k = (case nth_get ci ss i k of (r, ss') \<Rightarrow> (r, s # ss'))"
  by pat_completeness auto

termination
  by (relation "measure (case_sum (\<lambda>(_, s, _). size s)
        (case_sum (\<lambda>(_, be, _). size be) (\<lambda>(_, ss, _, _). size_list size ss)))") auto

function (sequential) silo_set :: "cipher \<Rightarrow> silo \<Rightarrow> key \<Rightarrow> buffer \<Rightarrow> bool \<Rightarrow> bool \<Rightarrow> (silo_error + int) \<times> silo"
and backend_set :: "cipher \<Rightarrow> silo_base \<Rightarrow> backend \<Rightarrow> key \<Rightarrow> buffer \<Rightarrow> bool \<Rightarrow> bool
    \<Rightarrow> (silo_error + int) \<times> silo_base \<times> backend"
and nth_set :: "cipher \<Rightarrow> silo list \<Rightarrow> nat \<Rightarrow> key \<Rightarrow> buffer \<Rightarrow> bool \<Rightarrow> bool \<Rightarrow> (silo_error + int) \<times> silo list"
and all_set :: "cipher \<Rightarrow> silo list \<Rightarrow> key \<Rightarrow> buffer \<Rightarrow> bool \<Rightarrow> bool \<Rightarrow> (silo_error + int) \<times> silo list" where
  "silo_set ci (Silo b be) k v ins upd =
     (if \<not> (ins \<or> upd) then (Inl SiloAssert, Silo b be)
      else case backend_set ci b be k v ins upd of
             (Inl e, b', be') \<Rightarrow> (Inl e, Silo b' be')
           | (Inr delta, b', be') \<Rightarrow> (Inr delta, Silo (account_set delta b') be'))"
| "backend_set ci b (Memory bl) k v ins upd =
     (case memory_set b bl k v ins upd of (r, b', bl') \<Rightarrow> (r, b', Memory bl'))"
| "backend_set ci b (Filesystem files) k v ins upd =
     (case fs_set b files k v ins upd of (r, b', files') \<Rightarrow> (r, b', Filesystem files'))"
| "backend_set ci b (Strip bs) k v ins upd =
     (if bs = [] then (Inl SiloUndefined, b, Strip bs)
      else case nth_set ci bs (storage_of k (length bs)) k v ins upd of (r, bs') \<Rightarrow> (r, b, Strip bs'))"
| "backend_set ci b (Mirror balance par n bs) k v ins upd =
     (case all_set ci bs k v ins upd of (r, bs') \<Rightarrow> (r, b, Mirror balance par n bs'))"
| "backend_set ci b (Crypt pw salt s) k v ins upd =
     (case silo_set ci s k (encipher ci (secret_key pw salt k) v) ins upd of
        (r, s') \<Rightarrow> (r, b, Crypt pw salt s'))"
| "backend_set ci b (Latency g st er s) k v ins upd =
     (case silo_set ci s k v ins upd of
        (Inl e, s') \<Rightarrow> (Inl e, b, Latency g st er s')
      | (Inr _, s') \<Rightarrow> (Inr 0, b, Latency g st er s'))"
| "nth_set ci [] i k v ins upd = (Inl SiloUndefined, [])"
| "nth_set ci (s # ss) 0 k v ins upd = (case silo_set ci s k v ins upd of (r, s') \<Rightarrow> (r, s' # ss))"
| "nth_set ci (s # ss) (Suc i) k v ins upd =
     (case nth_set ci ss i k v ins upd of (r, ss') \<Rightarrow> (r, s # ss'))"
| "all_set ci [] k v ins upd = (Inr 0, [])"
| "all_set ci (s # ss) k v ins upd =
     (case silo_set ci s k v ins upd of
        (Inl e, s') \<Rightarrow> (Inl e, s' # ss)
      | (Inr _, s') \<Rightarrow> (case all_set ci ss k v ins upd of (r, ss') \<Rightarrow> (r, s' # ss')))"
  by pat_completeness auto

termination
  by (relation "measure (case_sum (case_sum (\<lambda>(_, s, _). size s) (\<lambda>(_, _, be, _). size be))
        (case_sum (\<lambda>(_, ss, _). size_list size ss) (\<lambda>(_, ss, _). size_list size ss)))") auto

function (sequential) silo_erase :: "silo \<Rightarrow> key \<Rightarrow> (silo_error + int) \<times> silo"
and backend_erase :: "silo_base \<Rightarrow> backend \<Rightarrow> key \<Rightarrow> (silo_error + int) \<times> silo_base \<times> backend"
and nth_erase :: "silo list \<Rightarrow> nat \<Rightarrow> key \<Rightarrow> (silo_error + int) \<times> silo list"
and all_erase :: "silo list \<Rightarrow> key \<Rightarrow> (silo_error + int) \<times> silo list" where
  "silo_erase (Silo b be) k =
     (case backend_erase b be k of
        (Inl e, b', be') \<Rightarrow> (Inl e, Silo b' be')
      | (Inr delta, b', be') \<Rightarrow> (Inr delta, Silo (account_erase k delta b') be'))"
| "backend_erase b (Memory bl) k = (case memory_erase b bl k of (r, b', bl') \<Rightarrow> (r, b', Memory bl'))"
| "backend_erase b (Filesystem files) k =
     (case fs_erase b files k of (r, b', files') \<Rightarrow> (r, b', Filesystem files'))"
| "backend_erase b (Strip bs) k =
     (if bs = [] then (Inl SiloUndefined, b, Strip bs)
      else case nth_erase bs (storage_of k (length bs)) k of (r, bs') \<Rightarrow> (r, b, Strip bs'))"
| "backend_erase b (Mirror balance par n bs) k =
     (case all_erase bs k of (r, bs') \<Rightarrow> (r, b, Mirror balance par n bs'))"
| "backend_erase b (Crypt pw salt s) k = (case silo_erase s k of (r, s') \<Rightarrow> (r, b, Crypt pw salt s'))"
| "backend_erase b (Latency g st er s) k =
     (case silo_erase s k of
        (Inl e, s') \<Rightarrow> (Inl e, b, Latency g st er s')
      | (Inr _, s') \<Rightarrow> (Inr 0, b, Latency g st er s'))"
| "nth_erase [] i k = (Inl SiloUndefined, [])"
| "nth_erase (s # ss) 0 k = (case silo_erase s k of (r, s') \<Rightarrow> (r, s' # ss))"
| "nth_erase (s # ss) (Suc i) k = (case nth_erase ss i k of (r, ss') \<Rightarrow> (r, s # ss'))"
| "all_erase [] k = (Inr 0, [])"
| "all_erase (s # ss) k =
     (case silo_erase s k of
        (Inl e, s') \<Rightarrow> (Inl e, s' # ss)
      | (Inr _, s') \<Rightarrow> (case all_erase ss k of (r, ss') \<Rightarrow> (r, s' # ss')))"
  by pat_completeness auto

termination
  by (relation "measure (case_sum (case_sum (\<lambda>(s, _). size s) (\<lambda>(_, be, _). size be))
        (case_sum (\<lambda>(ss, _). size_list size ss) (\<lambda>(ss, _). size_list size ss)))") auto

function (sequential) silo_list :: "silo \<Rightarrow> silo_error + key list"
and backend_list :: "silo_base \<Rightarrow> backend \<Rightarrow> silo_error + key list"
and append_lists :: "silo list \<Rightarrow> silo_error + key list" where
  "silo_list (Silo b be) = backend_list b be"
| "backend_list b (Memory bl) = (if memory_invariants b bl then Inr (map fst bl) else Inl SiloAssert)"
| "backend_list b (Filesystem files) = fs_list files"
| "backend_list b (Strip bs) = append_lists bs"
| "backend_list b (Mirror balance par n []) = Inl SiloUndefined"
| "backend_list b (Mirror balance par n (s # ss)) = silo_list s"
| "backend_list b (Crypt pw salt s) = silo_list s"
| "backend_list b (Latency g st er s) = silo_list s"
| "append_lists [] = Inr []"
| "append_lists (s # ss) =
     bind_res (silo_list s) (\<lambda>ks. bind_res (append_lists ss) (\<lambda>ks'. Inr (ks @ ks')))"
  by pat_completeness auto

termination
  by (relation "measure (case_sum (\<lambda>s. size s)
        (case_sum (\<lambda>(_, be). size be) (\<lambda>ss. size_list size ss)))") auto

section \<open>Contents of a silo\<close>

text \<open>
  The map a silo stands for, and the well-formedness that makes it one: a Strip keeps every key in
  the backend its digits select, the backends of a Mirror agree, what a Crypt holds can be
  deciphered, and each file sits at the path of a 32-byte key.
\<close>

function (sequential) silo_map :: "cipher \<Rightarrow> silo \<Rightarrow> key \<Rightarrow> buffer option"
and backend_map :: "cipher \<Rightarrow> backend \<Rightarrow> key \<Rightarrow> buffer option"
and nth_map :: "cipher \<Rightarrow> silo list \<Rightarrow> nat \<Rightarrow> key \<Rightarrow> buffer option" where
  "silo_map ci (Silo b be) k = backend_map ci be k"
| "backend_map ci (Memory bl) k = map_of bl k"
| "backend_map ci (Filesystem files) k = map_of files (fs_path k)"
| "backend_map ci (Strip bs) k = nth_map ci bs (storage_of k (length bs)) k"
| "backend_map ci (Mirror balance par n bs) k = nth_map ci bs 0 k"
| "backend_map ci (Crypt pw salt s) k =
     (case silo_map ci s k of
        None \<Rightarrow> None
      | Some e \<Rightarrow> (case decipher ci (secret_key pw salt k) e of Inl _ \<Rightarrow> None | Inr v \<Rightarrow> Some v))"
| "backend_map ci (Latency g st er s) k = silo_map ci s k"
| "nth_map ci [] i k = None"
| "nth_map ci (s # ss) 0 k = silo_map ci s k"
| "nth_map ci (s # ss) (Suc i) k = nth_map ci ss i k"
  by pat_completeness auto

termination
  by (relation "measure (case_sum (\<lambda>(_, s, _). size s)
        (case_sum (\<lambda>(_, be, _). size be) (\<lambda>(_, ss, _, _). size_list size ss)))") auto

lemma silo_map_Silo [simp]: "silo_map ci (Silo b be) = backend_map ci be"
  by (rule ext) simp

lemma nth_map_nth: "i < length ss \<Longrightarrow> nth_map ci ss i k = silo_map ci (ss ! i) k"
  by (induction ss arbitrary: i) (auto simp: less_Suc_eq_0_disj)

function (sequential) silo_wf :: "cipher \<Rightarrow> silo \<Rightarrow> bool"
and backend_wf :: "cipher \<Rightarrow> backend \<Rightarrow> bool"
and all_wf :: "cipher \<Rightarrow> silo list \<Rightarrow> bool" where
  "silo_wf ci (Silo b be) = backend_wf ci be"
| "backend_wf ci (Memory bl) = distinct (map fst bl)"
| "backend_wf ci (Filesystem files) \<longleftrightarrow>
     distinct (map fst files) \<and> (\<forall>f \<in> set files. \<exists>k. length k = value_size \<and> fst f = fs_path k)"
| "backend_wf ci (Strip bs) \<longleftrightarrow> bs \<noteq> [] \<and> all_wf ci bs
     \<and> (\<forall>i < length bs. \<forall>k. silo_map ci (bs ! i) k \<noteq> None \<longrightarrow> storage_of k (length bs) = i)"
| "backend_wf ci (Mirror balance par n bs) \<longleftrightarrow> bs \<noteq> [] \<and> all_wf ci bs
     \<and> (\<forall>s \<in> set bs. silo_map ci s = silo_map ci (hd bs))"
| "backend_wf ci (Crypt pw salt s) \<longleftrightarrow> silo_wf ci s
     \<and> (\<forall>k e. silo_map ci s k = Some e \<longrightarrow> (\<exists>v. decipher ci (secret_key pw salt k) e = Inr v))"
| "backend_wf ci (Latency g st er s) = silo_wf ci s"
| "all_wf ci [] = True"
| "all_wf ci (s # ss) \<longleftrightarrow> silo_wf ci s \<and> all_wf ci ss"
  by pat_completeness auto

termination
  by (relation "measure (case_sum (\<lambda>(_, s). size s)
        (case_sum (\<lambda>(_, be). size be) (\<lambda>(_, ss). size_list size ss)))") auto

declare backend_wf.simps(4) [simp del]

lemma all_wf_nth: "all_wf ci ss \<longleftrightarrow> (\<forall>s \<in> set ss. silo_wf ci s)"
  by (induction ss) auto

function (sequential) silo_unbounded :: "silo \<Rightarrow> bool"
and backend_unbounded :: "silo_base \<Rightarrow> backend \<Rightarrow> bool"
and all_unbounded :: "silo list \<Rightarrow> bool" where
  \<comment> \<open>no capacity is set on any Filesystem inside\<close>
  "silo_unbounded (Silo b be) = backend_unbounded b be"
| "backend_unbounded b (Memory bl) = True"
| "backend_unbounded b (Filesystem files) = (sb_capacity b = None)"
| "backend_unbounded b (Strip bs) = all_unbounded bs"
| "backend_unbounded b (Mirror balance par n bs) = all_unbounded bs"
| "backend_unbounded b (Crypt pw salt s) = silo_unbounded s"
| "backend_unbounded b (Latency g st er s) = silo_unbounded s"
| "all_unbounded [] = True"
| "all_unbounded (s # ss) \<longleftrightarrow> silo_unbounded s \<and> all_unbounded ss"
  by pat_completeness auto

termination
  by (relation "measure (case_sum (\<lambda>s. size s)
        (case_sum (\<lambda>(_, be). size be) (\<lambda>ss. size_list size ss)))") auto

lemma all_unbounded_nth: "all_unbounded ss \<longleftrightarrow> (\<forall>s \<in> set ss. silo_unbounded s)"
  by (induction ss) auto

definition cipher_ok :: "cipher \<Rightarrow> bool" where
  "cipher_ok ci \<longleftrightarrow> (\<forall>pw v. decipher ci pw (encipher ci pw v) = Inr v)"

lemma hex_encode_inject [simp]: "hex_encode a = hex_encode b \<longleftrightarrow> a = b"
  using hex_decode_encode by (metis sum.inject(2))

lemma fs_path_inject [simp]: "fs_path k = fs_path k' \<longleftrightarrow> k = k'"
  by (auto simp: fs_path_def addr_print_hex_def)

lemma nth_get_nth:
  "i < length ss \<Longrightarrow> nth_get ci ss i k = (fst (silo_get ci (ss ! i) k), ss[i := snd (silo_get ci (ss ! i) k)])"
  by (induction ss arbitrary: i) (auto simp: less_Suc_eq_0_disj split: prod.splits)

lemma nth_set_nth:
  "i < length ss \<Longrightarrow> nth_set ci ss i k v ins upd =
     (fst (silo_set ci (ss ! i) k v ins upd), ss[i := snd (silo_set ci (ss ! i) k v ins upd)])"
  by (induction ss arbitrary: i) (auto simp: less_Suc_eq_0_disj split: prod.splits)

lemma nth_erase_nth:
  "i < length ss \<Longrightarrow> nth_erase ss i k =
     (fst (silo_erase (ss ! i) k), ss[i := snd (silo_erase (ss ! i) k)])"
  by (induction ss arbitrary: i) (auto simp: less_Suc_eq_0_disj split: prod.splits)

lemma storage_of_less: "bs \<noteq> [] \<Longrightarrow> storage_of k (length bs) < length bs"
  by (simp add: storage_of_def)

lemma size_in_list: "s \<in> set bs \<Longrightarrow> size s < size_list size bs" for s :: silo
  by (induction bs) auto

text \<open>Induction over a silo: composites get the hypothesis for each of their backends.\<close>

lemma silo_cases_induct [case_names Memory Filesystem Strip Mirror Crypt Latency]:
  assumes "\<And>b bl. P (Silo b (Memory bl))"
    and "\<And>b files. P (Silo b (Filesystem files))"
    and "\<And>b bs. (\<And>s. s \<in> set bs \<Longrightarrow> P s) \<Longrightarrow> P (Silo b (Strip bs))"
    and "\<And>b balance par n bs. (\<And>s. s \<in> set bs \<Longrightarrow> P s) \<Longrightarrow> P (Silo b (Mirror balance par n bs))"
    and "\<And>b pw salt s. P s \<Longrightarrow> P (Silo b (Crypt pw salt s))"
    and "\<And>b g st er s. P s \<Longrightarrow> P (Silo b (Latency g st er s))"
  shows "P s"
proof (induction s rule: measure_induct_rule [of size])
  case (less s)
  obtain b be where s: "s = Silo b be" by (cases s)
  show ?case
  proof (cases be)
    case (Strip bs)
    then show ?thesis using less s by (auto intro!: assms(3) dest: size_in_list)
  next
    case (Mirror balance par n bs)
    then show ?thesis using less s by (auto intro!: assms(4) dest: size_in_list)
  qed (use less s in \<open>auto intro: assms\<close>)
qed

section \<open>Refinement\<close>

definition get_spec :: "(key \<rightharpoonup> buffer) \<Rightarrow> key \<Rightarrow> silo_error + buffer" where
  "get_spec m k = (case m k of None \<Rightarrow> Inl (MissingKey k) | Some v \<Rightarrow> Inr v)"

text \<open>Replacing one backend of a composite.\<close>

lemma strip_map_update:
  "i < length bs \<Longrightarrow> backend_map ci (Strip (bs[i := s'])) k =
     (if storage_of k (length bs) = i then silo_map ci s' k else backend_map ci (Strip bs) k)"
  by (cases "bs = []") (simp_all add: nth_map_nth storage_of_less nth_list_update)

lemma strip_wf_update:
  assumes "backend_wf ci (Strip bs)" "i < length bs" "silo_wf ci s'"
    and "\<And>k. silo_map ci s' k \<noteq> None \<Longrightarrow> storage_of k (length bs) = i"
  shows "backend_wf ci (Strip (bs[i := s']))"
  using assms by (auto simp: all_wf_nth nth_list_update dest: set_update_subset_insert [THEN subsetD])

lemma strip_map_backend:
  assumes "backend_wf ci (Strip bs)"
  shows "backend_map ci (Strip bs) k = silo_map ci (bs ! storage_of k (length bs)) k"
  using assms by (simp add: nth_map_nth storage_of_less)

lemma strip_backend_wf:
  "backend_wf ci (Strip bs) \<Longrightarrow> silo_wf ci (bs ! storage_of k (length bs)) \<and> bs ! storage_of k (length bs) \<in> set bs"
  by (auto simp: all_wf_nth storage_of_less)

lemma mirror_wfD:
  assumes "backend_wf ci (Mirror balance par n bs)"
  shows "bs \<noteq> []" "s \<in> set bs \<Longrightarrow> silo_wf ci s" "s \<in> set bs \<Longrightarrow> silo_map ci s = silo_map ci (hd bs)"
    "backend_map ci (Mirror balance par n bs) = silo_map ci (hd bs)"
proof -
  show "bs \<noteq> []" "s \<in> set bs \<Longrightarrow> silo_wf ci s" "s \<in> set bs \<Longrightarrow> silo_map ci s = silo_map ci (hd bs)"
    using assms unfolding backend_wf.simps all_wf_nth by blast+
  then show "backend_map ci (Mirror balance par n bs) = silo_map ci (hd bs)"
    by (cases bs) (auto simp: fun_eq_iff)
qed

lemma mirror_wfI:
  assumes "bs \<noteq> []" "\<And>s. s \<in> set bs \<Longrightarrow> silo_wf ci s" "\<And>s. s \<in> set bs \<Longrightarrow> silo_map ci s = m"
  shows "backend_wf ci (Mirror balance par n bs)"
  using assms(1,2) assms(3) [OF hd_in_set [OF assms(1)]] assms(3)
  unfolding backend_wf.simps all_wf_nth by blast

lemma mirror_same_update:
  assumes "backend_wf ci (Mirror balance par n bs)" "i < length bs" "silo_wf ci s'"
    and "silo_map ci s' = silo_map ci (bs ! i)"
  shows "backend_wf ci (Mirror balance par n' (bs[i := s']))"
    and "backend_map ci (Mirror balance par n' (bs[i := s'])) = backend_map ci (Mirror balance par n bs)"
proof -
  have all: "silo_wf ci s \<and> silo_map ci s = silo_map ci (hd bs)" if "s \<in> set (bs[i := s'])" for s
  proof -
    from that have "s \<in> insert s' (set bs)" using set_update_subset_insert by (rule subsetD [rotated])
    then show ?thesis
    proof (elim insertE)
      assume "s = s'"
      then show ?thesis using assms(3,4) mirror_wfD(3) [OF assms(1) nth_mem [OF assms(2)]] by simp
    next
      assume "s \<in> set bs"
      then show ?thesis using mirror_wfD(2,3) [OF assms(1)] by blast
    qed
  qed
  have ne: "bs[i := s'] \<noteq> []" using mirror_wfD(1) [OF assms(1)] by simp
  show wf': "backend_wf ci (Mirror balance par n' (bs[i := s']))"
    using mirror_wfI [OF ne] all by blast
  show "backend_map ci (Mirror balance par n' (bs[i := s'])) = backend_map ci (Mirror balance par n bs)"
    unfolding mirror_wfD(4) [OF wf'] mirror_wfD(4) [OF assms(1)] using all hd_in_set [OF ne] by blast
qed

lemma silo_get_refines:
  assumes "silo_wf ci s"
  shows "fst (silo_get ci s k) = get_spec (silo_map ci s) k
    \<and> silo_map ci (snd (silo_get ci s k)) = silo_map ci s \<and> silo_wf ci (snd (silo_get ci s k))"
  using assms
proof (induction s rule: silo_cases_induct)
  case (Memory b bl)
  then show ?case by (simp add: get_spec_def memory_find_def)
next
  case (Filesystem b files)
  then show ?case by (simp add: get_spec_def fs_get_def)
next
  case (Strip b bs)
  let ?i = "storage_of k (length bs)"
  have wf: "backend_wf ci (Strip bs)" using Strip.prems by simp
  then have i: "?i < length bs" by (simp add: storage_of_less)
  have IH: "fst (silo_get ci (bs ! ?i) k) = get_spec (silo_map ci (bs ! ?i)) k"
    "silo_map ci (snd (silo_get ci (bs ! ?i) k)) = silo_map ci (bs ! ?i)" "silo_wf ci (snd (silo_get ci (bs ! ?i) k))"
    using Strip.IH strip_backend_wf [OF wf, of k] by auto
  have "backend_map ci (Strip (bs[?i := snd (silo_get ci (bs ! ?i) k)])) = backend_map ci (Strip bs)"
    using strip_map_update [OF i] IH(2) strip_map_backend [OF wf] by (intro ext) (auto simp del: backend_map.simps)
  moreover have "backend_wf ci (Strip (bs[?i := snd (silo_get ci (bs ! ?i) k)]))"
    using wf i IH by (intro strip_wf_update) auto
  moreover have "backend_get ci (Strip bs) k =
      (fst (silo_get ci (bs ! ?i) k), Strip (bs[?i := snd (silo_get ci (bs ! ?i) k)]))"
    using i nth_get_nth [OF i] by auto
  ultimately show ?case
    using IH(1) strip_map_backend [OF wf, of k]
    by (simp add: get_spec_def del: backend_wf.simps backend_map.simps backend_get.simps)
next
  case (Mirror b balance par n bs)
  let ?i = "if balance then unat (n + 1) mod length bs else 0"
  have wf: "backend_wf ci (Mirror balance par n bs)" using Mirror.prems by simp
  have i: "?i < length bs" using mirror_wfD(1) [OF wf] by simp
  then have "bs ! ?i \<in> set bs" by (rule nth_mem)
  then have IH: "fst (silo_get ci (bs ! ?i) k) = get_spec (silo_map ci (bs ! ?i)) k"
    "silo_map ci (snd (silo_get ci (bs ! ?i) k)) = silo_map ci (bs ! ?i)" "silo_wf ci (snd (silo_get ci (bs ! ?i) k))"
    "silo_map ci (bs ! ?i) = silo_map ci (hd bs)"
    using Mirror.IH [of "bs ! ?i"] mirror_wfD(2,3) [OF wf, of "bs ! ?i"] by blast+
  have "backend_get ci (Mirror balance par n bs) k =
      (fst (silo_get ci (bs ! ?i) k), Mirror balance par (n + 1) (bs[?i := snd (silo_get ci (bs ! ?i) k)]))"
    using mirror_wfD(1) [OF wf] nth_get_nth [OF i] by (simp add: Let_def del: if_split)
  then show ?case
    using mirror_same_update [OF wf i IH(3,2)] IH(1,4) mirror_wfD(4) [OF wf]
    by (simp add: get_spec_def del: backend_wf.simps backend_map.simps backend_get.simps if_split)
next
  case (Crypt b pw salt s)
  obtain r s' where g: "silo_get ci s k = (r, s')" by fastforce
  have IH: "r = get_spec (silo_map ci s) k" "silo_map ci s' = silo_map ci s" "silo_wf ci s'"
    using Crypt g by auto
  have "\<exists>v. decipher ci (secret_key pw salt k) e = Inr v" if "silo_map ci s k = Some e" for e
    using Crypt.prems that by auto
  with Crypt.prems g IH show ?case
    by (cases "silo_map ci s k") (fastforce simp: get_spec_def fun_eq_iff)+
next
  case (Latency b g st er s)
  then show ?case by (auto simp: fun_eq_iff get_spec_def split: prod.splits)
qed

definition set_error :: "(key \<rightharpoonup> buffer) \<Rightarrow> key \<Rightarrow> bool \<Rightarrow> bool \<Rightarrow> silo_error option" where
  "set_error m k ins upd =
     (case m k of
        None \<Rightarrow> if ins then None else Some (MissingKey k)
      | Some _ \<Rightarrow> if upd then None else Some (Collision k))"

definition set_spec ::
  "(key \<rightharpoonup> buffer) \<Rightarrow> key \<Rightarrow> buffer \<Rightarrow> bool \<Rightarrow> bool \<Rightarrow> silo_error + int \<Rightarrow> (key \<rightharpoonup> buffer) \<Rightarrow> bool" where
  "set_spec m k v ins upd r m' \<longleftrightarrow>
     (case set_error m k ins upd of
        Some e \<Rightarrow> r = Inl e \<and> m' = m
      | None \<Rightarrow> (\<exists>d. r = Inr d) \<and> m' = m(k \<mapsto> v))"

lemma backend_map_eta [simp]:
  "backend_map ci (Memory bl) = map_of bl"
  "backend_map ci (Filesystem files) = (\<lambda>k. map_of files (fs_path k))"
  "backend_map ci (Latency g st er s) = silo_map ci s"
  by (simp_all add: fun_eq_iff)

lemma memory_set_refines:
  assumes "memory_set b bl k v ins upd = (r, b', bl')" "ins \<or> upd" "distinct (map fst bl)"
  shows "set_spec (map_of bl) k v ins upd r (map_of bl') \<and> distinct (map fst bl')"
  using assms
  by (auto simp: memory_set_def memory_find_def set_spec_def set_error_def map_of_update distinct_keys_update
      split: if_splits option.splits)

lemma map_of_files:
  "map_of (AList.update (fs_path k) v files) (fs_path k') = ((\<lambda>k. map_of files (fs_path k))(k \<mapsto> v)) k'"
  by (simp add: map_of_update)

lemma fs_set_refines:
  assumes "fs_set b files k v ins upd = (r, b', files')" "ins \<or> upd" "sb_capacity b = None"
    and "length k = value_size" "backend_wf ci (Filesystem files)"
  shows "set_spec (\<lambda>k. map_of files (fs_path k)) k v ins upd r (\<lambda>k. map_of files' (fs_path k))
    \<and> backend_wf ci (Filesystem files') \<and> sb_capacity b' = None"
proof (cases "set_error (\<lambda>k. map_of files (fs_path k)) k ins upd")
  case (Some e)
  with assms show ?thesis
    by (auto simp: fs_set_def set_spec_def set_error_def Let_def split: if_splits option.splits)
next
  case None
  then have "files' = AList.update (fs_path k) v files" "\<exists>d. r = Inr d" "sb_capacity b' = None"
    using assms by (auto simp: fs_set_def set_error_def Let_def split: if_splits option.splits)
  moreover have "\<forall>f \<in> set (AList.update (fs_path k) v files). \<exists>k. length k = value_size \<and> fst f = fs_path k"
  proof
    fix f assume "f \<in> set (AList.update (fs_path k) v files)"
    then have "fst f \<in> fst ` set (AList.update (fs_path k) v files)" by (rule imageI)
    then have "fst f = fs_path k \<or> fst f \<in> fst ` set files" by (auto simp: dom_update)
    then show "\<exists>k. length k = value_size \<and> fst f = fs_path k" using assms(4,5) by auto
  qed
  ultimately show ?thesis
    using None assms(5) by (auto simp: set_spec_def map_of_files distinct_keys_update)
qed

lemma all_set_refines:
  assumes "all_set ci ss k v ins upd = (r, ss')" "ss \<noteq> []"
    and "\<And>s. s \<in> set ss \<Longrightarrow> set_spec m k v ins upd (fst (silo_set ci s k v ins upd))
          (silo_map ci (snd (silo_set ci s k v ins upd))) \<and> Q (snd (silo_set ci s k v ins upd))"
    and "\<And>s. s \<in> set ss \<Longrightarrow> silo_map ci s = m \<and> Q s"
  shows "(case set_error m k ins upd of Some e \<Rightarrow> r = Inl e | None \<Rightarrow> (\<exists>d. r = Inr d)) \<and> ss' \<noteq> []
    \<and> (\<forall>s \<in> set ss'. silo_map ci s = (case set_error m k ins upd of Some e \<Rightarrow> m | None \<Rightarrow> m(k \<mapsto> v)) \<and> Q s)"
proof (cases "set_error m k ins upd")
  case (Some e)
  obtain s rest where ss: "ss = s # rest" using assms(2) by (cases ss) auto
  have "fst (silo_set ci s k v ins upd) = Inl e" "silo_map ci (snd (silo_set ci s k v ins upd)) = m"
    using assms(3) [of s] Some by (auto simp: ss set_spec_def)
  then have "r = Inl e" "ss' = snd (silo_set ci s k v ins upd) # rest"
    using assms(1) by (auto simp: ss split: prod.splits)
  with assms(3) [of s] assms(4) Some \<open>silo_map ci (snd (silo_set ci s k v ins upd)) = m\<close> show ?thesis
    by (auto simp: ss)
next
  case None
  define m2 where "m2 = m(k \<mapsto> v)"
  have ok: "\<exists>d. fst (silo_set ci s k v ins upd) = Inr d" "silo_map ci (snd (silo_set ci s k v ins upd)) = m2"
    "Q (snd (silo_set ci s k v ins upd))" if "s \<in> set ss" for s
    using assms(3) [OF that] None by (auto simp: set_spec_def m2_def)
  have "(\<exists>d. r = Inr d) \<and> length ss' = length ss \<and> (\<forall>s \<in> set ss'. silo_map ci s = m2 \<and> Q s)"
    using assms(1) ok
  proof (induction ss arbitrary: r ss')
    case (Cons s ss)
    obtain r2 ss2 where rest: "all_set ci ss k v ins upd = (r2, ss2)" by fastforce
    have "(\<exists>d. r2 = Inr d) \<and> length ss2 = length ss \<and> (\<forall>s \<in> set ss2. silo_map ci s = m2 \<and> Q s)"
      using Cons.prems(2-) by (intro Cons.IH [OF rest]) auto
    with Cons.prems(2-) [of s] Cons.prems(1) rest show ?case by (auto split: prod.splits)
  qed auto
  with None assms(2) show ?thesis by (auto simp: m2_def)
qed

lemma silo_set_refines:
  assumes "cipher_ok ci" "silo_wf ci s" "silo_unbounded s" "length k = value_size" "ins \<or> upd"
  shows "set_spec (silo_map ci s) k v ins upd (fst (silo_set ci s k v ins upd))
           (silo_map ci (snd (silo_set ci s k v ins upd)))
    \<and> silo_wf ci (snd (silo_set ci s k v ins upd)) \<and> silo_unbounded (snd (silo_set ci s k v ins upd))"
  using assms(2,3)
proof (induction s arbitrary: v rule: silo_cases_induct)
  case (Memory b bl)
  obtain r b' bl' where m: "memory_set b bl k v ins upd = (r, b', bl')" by (metis prod_cases3)
  from memory_set_refines [OF m assms(5)] Memory m assms(5) show ?case
    by (auto split: sum.splits)
next
  case (Filesystem b files)
  obtain r b' files' where m: "fs_set b files k v ins upd = (r, b', files')" by (metis prod_cases3)
  from fs_set_refines [OF m assms(5) _ assms(4), of ci] Filesystem m assms(5) show ?case
    by (auto simp: account_set_def notify_metrics_def Let_def fun_eq_iff split: sum.splits)
next
  case (Strip b bs)
  let ?i = "storage_of k (length bs)"
  let ?s = "snd (silo_set ci (bs ! ?i) k v ins upd)"
  have wf: "backend_wf ci (Strip bs)" using Strip.prems by simp
  then have i: "?i < length bs" by (simp add: storage_of_less)
  have IH: "set_spec (silo_map ci (bs ! ?i)) k v ins upd (fst (silo_set ci (bs ! ?i) k v ins upd)) (silo_map ci ?s)"
    "silo_wf ci ?s" "silo_unbounded ?s"
    using Strip.IH strip_backend_wf [OF wf, of k] Strip.prems(2) by (auto simp: all_unbounded_nth)
  have keys: "silo_map ci ?s j \<noteq> None \<Longrightarrow> j = k \<or> silo_map ci (bs ! ?i) j \<noteq> None" for j
    using IH(1) by (auto simp: set_spec_def split: option.splits if_splits)
  have wf': "backend_wf ci (Strip (bs[?i := ?s]))"
    using strip_wf_update [OF wf i IH(2)] keys wf i by fastforce
  have "backend_map ci (Strip (bs[?i := ?s])) = (\<lambda>j. if storage_of j (length bs) = ?i then silo_map ci ?s j
      else backend_map ci (Strip bs) j)"
    using strip_map_update [OF i] by (intro ext)
  moreover have "backend_map ci (Strip bs) j = silo_map ci (bs ! ?i) j" if "storage_of j (length bs) = ?i" for j
    using strip_map_backend [OF wf, of j] that by simp
  ultimately have spec: "set_spec (backend_map ci (Strip bs)) k v ins upd (fst (silo_set ci (bs ! ?i) k v ins upd))
      (backend_map ci (Strip (bs[?i := ?s])))"
    using IH(1) by (auto simp: set_spec_def set_error_def fun_eq_iff split: option.splits simp del: backend_map.simps)
  have "backend_set ci b (Strip bs) k v ins upd =
      (fst (silo_set ci (bs ! ?i) k v ins upd), b, Strip (bs[?i := ?s]))"
    using i nth_set_nth [OF i] by auto
  moreover have "all_unbounded (bs[?i := ?s])"
    using Strip.prems(2) IH(3) by (auto simp: all_unbounded_nth dest!: set_update_subset_insert [THEN subsetD])
  ultimately show ?case
    using spec wf' assms(5)
    by (auto split: sum.splits simp del: backend_wf.simps backend_map.simps backend_set.simps)
next
  case (Mirror b balance par n bs)
  have wf: "backend_wf ci (Mirror balance par n bs)" using Mirror.prems by simp
  note wfD = mirror_wfD [OF wf]
  let ?m = "silo_map ci (hd bs)"
  obtain r bs' where a: "all_set ci bs k v ins upd = (r, bs')" by fastforce
  have "(case set_error ?m k ins upd of Some e \<Rightarrow> r = Inl e | None \<Rightarrow> (\<exists>d. r = Inr d)) \<and> bs' \<noteq> []
    \<and> (\<forall>s \<in> set bs'. silo_map ci s = (case set_error ?m k ins upd of Some e \<Rightarrow> ?m | None \<Rightarrow> ?m(k \<mapsto> v))
         \<and> (silo_wf ci s \<and> silo_unbounded s))"
  proof (intro all_set_refines [OF a wfD(1)])
    fix s assume s: "s \<in> set bs"
    then have "silo_unbounded s" using Mirror.prems(2) by (simp add: all_unbounded_nth)
    with Mirror.IH [OF s wfD(2) [OF s]] wfD(2,3) [OF s]
    show "set_spec ?m k v ins upd (fst (silo_set ci s k v ins upd)) (silo_map ci (snd (silo_set ci s k v ins upd)))
        \<and> (silo_wf ci (snd (silo_set ci s k v ins upd)) \<and> silo_unbounded (snd (silo_set ci s k v ins upd)))"
      "silo_map ci s = ?m \<and> (silo_wf ci s \<and> silo_unbounded s)" by simp_all
  qed
  then have r: "case set_error ?m k ins upd of Some e \<Rightarrow> r = Inl e | None \<Rightarrow> (\<exists>d. r = Inr d)" and ne: "bs' \<noteq> []"
    and m': "\<And>s. s \<in> set bs' \<Longrightarrow> silo_map ci s = (case set_error ?m k ins upd of Some e \<Rightarrow> ?m | None \<Rightarrow> ?m(k \<mapsto> v))"
    and q: "\<And>s. s \<in> set bs' \<Longrightarrow> silo_wf ci s \<and> silo_unbounded s" by blast+
  have wf': "backend_wf ci (Mirror balance par n bs')"
    using mirror_wfI [OF ne _ m'] q by blast
  have "backend_map ci (Mirror balance par n bs') =
      (case set_error ?m k ins upd of Some e \<Rightarrow> ?m | None \<Rightarrow> ?m(k \<mapsto> v))"
    unfolding mirror_wfD(4) [OF wf'] using m' hd_in_set [OF ne] by blast
  then have "set_spec ?m k v ins upd r (backend_map ci (Mirror balance par n bs'))"
    using r by (auto simp: set_spec_def split: option.splits)
  then show ?case
    using a assms(5) wf' q wfD(4)
    by (auto simp: all_unbounded_nth split: sum.splits simp del: backend_map.simps)
next
  case (Crypt b pw salt s)
  let ?e = "encipher ci (secret_key pw salt k) v"
  obtain r s' where g: "silo_set ci s k ?e ins upd = (r, s')" by fastforce
  have IH: "set_spec (silo_map ci s) k ?e ins upd r (silo_map ci s')" "silo_wf ci s'" "silo_unbounded s'"
    using Crypt.IH [of ?e] Crypt.prems g by auto
  have dec: "\<exists>u. decipher ci (secret_key pw salt j) x = Inr u" if "silo_map ci s j = Some x" for j x
    using Crypt.prems that by auto
  have "set_spec (backend_map ci (Crypt pw salt s)) k v ins upd r (backend_map ci (Crypt pw salt s'))"
    using IH(1) dec [of k] assms(1)
    by (cases "silo_map ci s k") (fastforce simp: set_spec_def set_error_def cipher_ok_def split: if_splits)+
  moreover have "backend_wf ci (Crypt pw salt s')"
    using IH(1,2) Crypt.prems assms(1)
    by (auto simp: set_spec_def cipher_ok_def split: option.splits if_splits)
  ultimately show ?case
    using g assms(5) IH(3) by (auto split: sum.splits simp del: backend_map.simps)
next
  case (Latency b g st er s)
  obtain r s' where g: "silo_set ci s k v ins upd = (r, s')" by fastforce
  have "set_spec (silo_map ci s) k v ins upd r (silo_map ci s')" "silo_wf ci s'" "silo_unbounded s'"
    using Latency.IH [of v] Latency.prems g by auto
  with g assms(5) show ?case
    by (cases r) (auto simp: set_spec_def split: option.splits)
qed

definition erase_spec :: "(key \<rightharpoonup> buffer) \<Rightarrow> key \<Rightarrow> silo_error + int \<Rightarrow> (key \<rightharpoonup> buffer) \<Rightarrow> bool" where
  "erase_spec m k r m' \<longleftrightarrow>
     (if m k = None then r = Inl (MissingKey k) \<and> m' = m else (\<exists>d. r = Inr d) \<and> m' = m(k := None))"

lemma memory_erase_refines:
  assumes "memory_erase b bl k = (r, b', bl')" "distinct (map fst bl)"
  shows "erase_spec (map_of bl) k r (map_of bl') \<and> distinct (map fst bl')"
  using assms
  by (auto simp: memory_erase_def memory_find_def erase_spec_def delete_conv' distinct_keys_delete
      split: option.splits)

lemma fs_erase_refines:
  assumes "fs_erase b files k = (r, b', files')" "backend_wf ci (Filesystem files)"
  shows "erase_spec (\<lambda>k. map_of files (fs_path k)) k r (\<lambda>k. map_of files' (fs_path k))
    \<and> backend_wf ci (Filesystem files') \<and> sb_capacity b' = sb_capacity b"
  using assms
  by (auto simp: fs_erase_def erase_spec_def Let_def delete_conv fun_eq_iff distinct_keys_delete
      split: if_splits) (auto simp: AList.delete_eq)

lemma all_erase_refines:
  assumes "all_erase ss k = (r, ss')" "ss \<noteq> []"
    and "\<And>s. s \<in> set ss \<Longrightarrow> erase_spec m k (fst (silo_erase s k)) (silo_map ci (snd (silo_erase s k)))
          \<and> Q (snd (silo_erase s k))"
    and "\<And>s. s \<in> set ss \<Longrightarrow> silo_map ci s = m \<and> Q s"
  shows "(if m k = None then r = Inl (MissingKey k) else (\<exists>d. r = Inr d)) \<and> ss' \<noteq> []
    \<and> (\<forall>s \<in> set ss'. silo_map ci s = (if m k = None then m else m(k := None)) \<and> Q s)"
proof (cases "m k = None")
  case True
  obtain s rest where ss: "ss = s # rest" using assms(2) by (cases ss) auto
  have "fst (silo_erase s k) = Inl (MissingKey k)" "silo_map ci (snd (silo_erase s k)) = m" "Q (snd (silo_erase s k))"
    using assms(3) [of s] True by (auto simp: ss erase_spec_def)
  moreover from this have "r = Inl (MissingKey k)" "ss' = snd (silo_erase s k) # rest"
    using assms(1) by (auto simp: ss split: prod.splits)
  ultimately show ?thesis using assms(4) True by (auto simp: ss)
next
  case False
  define m2 where "m2 = m(k := None)"
  have ok: "\<exists>d. fst (silo_erase s k) = Inr d" "silo_map ci (snd (silo_erase s k)) = m2"
    "Q (snd (silo_erase s k))" if "s \<in> set ss" for s
    using assms(3) [OF that] False by (auto simp: erase_spec_def m2_def)
  have "(\<exists>d. r = Inr d) \<and> length ss' = length ss \<and> (\<forall>s \<in> set ss'. silo_map ci s = m2 \<and> Q s)"
    using assms(1) ok
  proof (induction ss arbitrary: r ss')
    case (Cons s ss)
    obtain r2 ss2 where rest: "all_erase ss k = (r2, ss2)" by fastforce
    have "(\<exists>d. r2 = Inr d) \<and> length ss2 = length ss \<and> (\<forall>s \<in> set ss2. silo_map ci s = m2 \<and> Q s)"
      using Cons.prems(2-) by (intro Cons.IH [OF rest]) auto
    with Cons.prems(2-) [of s] Cons.prems(1) rest show ?case by (auto split: prod.splits)
  qed auto
  with False assms(2) show ?thesis by (auto simp: m2_def)
qed

lemma silo_erase_refines:
  assumes "silo_wf ci s"
  shows "erase_spec (silo_map ci s) k (fst (silo_erase s k)) (silo_map ci (snd (silo_erase s k)))
    \<and> silo_wf ci (snd (silo_erase s k)) \<and> (silo_unbounded s \<longrightarrow> silo_unbounded (snd (silo_erase s k)))"
  using assms
proof (induction s rule: silo_cases_induct)
  case (Memory b bl)
  obtain r b' bl' where m: "memory_erase b bl k = (r, b', bl')" by (metis prod_cases3)
  from memory_erase_refines [OF m] Memory m show ?case
    by (auto split: sum.splits)
next
  case (Filesystem b files)
  obtain r b' files' where m: "fs_erase b files k = (r, b', files')" by (metis prod_cases3)
  from fs_erase_refines [OF m, of ci] Filesystem m show ?case
    by (auto simp: account_erase_def notify_metrics_def split: sum.splits)
next
  case (Strip b bs)
  let ?i = "storage_of k (length bs)"
  let ?s = "snd (silo_erase (bs ! ?i) k)"
  have wf: "backend_wf ci (Strip bs)" using Strip.prems by simp
  then have i: "?i < length bs" by (simp add: storage_of_less)
  have IH: "erase_spec (silo_map ci (bs ! ?i)) k (fst (silo_erase (bs ! ?i) k)) (silo_map ci ?s)"
    "silo_wf ci ?s" "silo_unbounded (bs ! ?i) \<longrightarrow> silo_unbounded ?s"
    using Strip.IH strip_backend_wf [OF wf, of k] by auto
  have keys: "silo_map ci ?s j \<noteq> None \<Longrightarrow> silo_map ci (bs ! ?i) j \<noteq> None" for j
    using IH(1) by (auto simp: erase_spec_def split: if_splits)
  have "storage_of j (length bs) = ?i" if "silo_map ci ?s j \<noteq> None" for j
    using keys [OF that] wf i by (auto simp del: not_None_eq)
  then have wf': "backend_wf ci (Strip (bs[?i := ?s]))"
    by (rule strip_wf_update [OF wf i IH(2)])
  have "backend_map ci (Strip (bs[?i := ?s])) = (\<lambda>j. if storage_of j (length bs) = ?i then silo_map ci ?s j
      else backend_map ci (Strip bs) j)"
    using strip_map_update [OF i] by (intro ext)
  moreover have "backend_map ci (Strip bs) j = silo_map ci (bs ! ?i) j" if "storage_of j (length bs) = ?i" for j
    using strip_map_backend [OF wf, of j] that by simp
  ultimately have spec: "erase_spec (backend_map ci (Strip bs)) k (fst (silo_erase (bs ! ?i) k))
      (backend_map ci (Strip (bs[?i := ?s])))"
    using IH(1) by (auto simp: erase_spec_def fun_eq_iff split: if_splits simp del: backend_map.simps)
  have "backend_erase b (Strip bs) k = (fst (silo_erase (bs ! ?i) k), b, Strip (bs[?i := ?s]))"
    using i nth_erase_nth [OF i] by auto
  moreover have "all_unbounded bs \<longrightarrow> all_unbounded (bs[?i := ?s])"
    using IH(3) nth_mem [OF i] by (auto simp: all_unbounded_nth dest!: set_update_subset_insert [THEN subsetD])
  ultimately show ?case
    using spec wf'
    by (auto split: sum.splits simp del: backend_wf.simps backend_map.simps backend_erase.simps)
next
  case (Mirror b balance par n bs)
  have wf: "backend_wf ci (Mirror balance par n bs)" using Mirror.prems by simp
  note wfD = mirror_wfD [OF wf]
  let ?m = "silo_map ci (hd bs)"
  let ?Q = "\<lambda>s. silo_wf ci s \<and> (all_unbounded bs \<longrightarrow> silo_unbounded s)"
  obtain r bs' where a: "all_erase bs k = (r, bs')" by fastforce
  have "(if ?m k = None then r = Inl (MissingKey k) else (\<exists>d. r = Inr d)) \<and> bs' \<noteq> []
    \<and> (\<forall>s \<in> set bs'. silo_map ci s = (if ?m k = None then ?m else ?m(k := None)) \<and> ?Q s)"
  proof (intro all_erase_refines [OF a wfD(1)])
    fix s assume s: "s \<in> set bs"
    with Mirror.IH [OF s wfD(2) [OF s]] wfD(2,3) [OF s]
    show "erase_spec ?m k (fst (silo_erase s k)) (silo_map ci (snd (silo_erase s k))) \<and> ?Q (snd (silo_erase s k))"
      "silo_map ci s = ?m \<and> ?Q s" by (simp_all add: all_unbounded_nth)
  qed
  then have r: "if ?m k = None then r = Inl (MissingKey k) else (\<exists>d. r = Inr d)" and ne: "bs' \<noteq> []"
    and m': "\<And>s. s \<in> set bs' \<Longrightarrow> silo_map ci s = (if ?m k = None then ?m else ?m(k := None))"
    and q: "\<And>s. s \<in> set bs' \<Longrightarrow> ?Q s" by blast+
  have wf': "backend_wf ci (Mirror balance par n bs')"
    using mirror_wfI [OF ne _ m'] q by blast
  have "backend_map ci (Mirror balance par n bs') = (if ?m k = None then ?m else ?m(k := None))"
    unfolding mirror_wfD(4) [OF wf'] using m' hd_in_set [OF ne] by blast
  then have "erase_spec ?m k r (backend_map ci (Mirror balance par n bs'))"
    using r by (auto simp: erase_spec_def)
  then show ?case
    using a wf' q wfD(4) by (auto simp: all_unbounded_nth split: sum.splits simp del: backend_map.simps)
next
  case (Crypt b pw salt s)
  obtain r s' where g: "silo_erase s k = (r, s')" by fastforce
  have IH: "erase_spec (silo_map ci s) k r (silo_map ci s')" "silo_wf ci s'" "silo_unbounded s \<longrightarrow> silo_unbounded s'"
    using Crypt g by auto
  have dec: "\<exists>u. decipher ci (secret_key pw salt j) x = Inr u" if "silo_map ci s j = Some x" for j x
    using Crypt.prems that by auto
  have "erase_spec (backend_map ci (Crypt pw salt s)) k r (backend_map ci (Crypt pw salt s'))"
    using IH(1) dec [of k]
    by (cases "silo_map ci s k") (fastforce simp: erase_spec_def split: if_splits)+
  moreover have "backend_wf ci (Crypt pw salt s')"
    using IH(1,2) Crypt.prems by (auto simp: erase_spec_def split: if_splits)
  ultimately show ?case
    using g IH(3) by (auto split: sum.splits simp del: backend_map.simps)
next
  case (Latency b g st er s)
  obtain r s' where g: "silo_erase s k = (r, s')" by fastforce
  have "erase_spec (silo_map ci s) k r (silo_map ci s')" "silo_wf ci s'" "silo_unbounded s \<longrightarrow> silo_unbounded s'"
    using Latency g by auto
  with g show ?case
    by (cases r) (auto simp: erase_spec_def split: if_splits)
qed

section \<open>Accounting\<close>

declare map_of_eq_Some_iff [simp del] Some_eq_map_of_iff [simp del]

definition byte_count :: "('k \<times> buffer) list \<Rightarrow> int" where
  "byte_count bl = sum_list (map (\<lambda>b. int (length (snd b))) bl)"

lemma byte_count_simps [simp]:
  "byte_count [] = 0" "byte_count (b # bl) = int (length (snd b)) + byte_count bl"
  by (simp_all add: byte_count_def)

lemma byte_count_nonneg: "0 \<le> byte_count bl"
  by (induction bl) auto

lemma mapped_size_eq: "mapped_size bl = int32 (byte_count bl)"
proof -
  have "foldl (\<lambda>res b. int32 (res + int (length (snd b)))) (int32 a) bl = int32 (a + byte_count bl)" for a
    by (induction bl arbitrary: a) (simp_all add: int32_add_mod add.assoc)
  from this [of 0] show ?thesis by (simp add: mapped_size_def int32_id)
qed

definition old_size :: "('k \<times> buffer) list \<Rightarrow> 'k \<Rightarrow> int" where
  "old_size bl k = (case map_of bl k of None \<Rightarrow> 0 | Some d \<Rightarrow> int (length d))"

lemma old_size_simps [simp]:
  "old_size [] k = 0"
  "old_size (b # bl) k = (if fst b = k then int (length (snd b)) else old_size bl k)"
  by (auto simp: old_size_def)

lemma old_size_absent: "k \<notin> fst ` set bl \<Longrightarrow> old_size bl k = 0"
  by (induction bl) auto

lemma old_size_le: "0 \<le> old_size bl k \<and> old_size bl k \<le> byte_count bl"
  by (induction bl) (use byte_count_nonneg in \<open>auto intro: add_increasing2\<close>)

lemma byte_count_update:
  "distinct (map fst bl) \<Longrightarrow> byte_count (AList.update k v bl) = byte_count bl + int (length v) - old_size bl k"
  by (induction bl) auto

lemma delete_absent: "k \<notin> fst ` set bl \<Longrightarrow> AList.delete k bl = bl"
  by (induction bl) (auto simp: AList.delete_eq)

lemma delete_Cons: "AList.delete k (b # bl) = (if fst b = k then AList.delete k bl else b # AList.delete k bl)"
  by (auto simp: AList.delete_eq split: prod.splits)

lemma byte_count_delete:
  "distinct (map fst bl) \<Longrightarrow> byte_count (AList.delete k bl) = byte_count bl - old_size bl k"
  by (induction bl) (auto simp: delete_Cons delete_absent)

lemma length_update:
  "length (AList.update k v bl) = length bl + (if map_of bl k = None then 1 else 0)"
  by (induction bl) auto

lemma length_delete:
  "distinct (map fst bl) \<Longrightarrow> map_of bl k \<noteq> None \<Longrightarrow> Suc (length (AList.delete k bl)) = length bl"
proof (induction bl)
  case (Cons b bl)
  then show ?case by (cases "fst b = k") (auto simp: delete_Cons delete_absent)
qed simp

definition memory_ok :: "silo_base \<Rightarrow> (key \<times> buffer) list \<Rightarrow> bool" where
  "memory_ok b bl \<longleftrightarrow> distinct (map fst bl) \<and> sb_block_count b = int (length bl)
     \<and> sb_usage b = byte_count bl \<and> byte_count bl < 2 ^ 31 \<and> length bl < 2 ^ 31"

lemma account_set_fields [simp]:
  "sb_usage (account_set d b) = sb_usage b + d" "sb_block_count (account_set d b) = sb_block_count b"
  "sb_size_cache (account_set d b) = sb_size_cache b" "sb_capacity (account_set d b) = sb_capacity b"
  by (simp_all add: account_set_def notify_metrics_def Let_def)

lemma account_erase_fields [simp]:
  "sb_usage (account_erase k d b) = sb_usage b + d" "sb_block_count (account_erase k d b) = sb_block_count b"
  "sb_size_cache (account_erase k d b) = AList.delete k (sb_size_cache b)"
  "sb_capacity (account_erase k d b) = sb_capacity b"
  by (simp_all add: account_erase_def notify_metrics_def)


lemma memory_ok_invariants: "memory_ok b bl \<Longrightarrow> memory_invariants b bl"
  by (simp add: memory_ok_def memory_invariants_def mapped_size_eq int32_id byte_count_nonneg
      order_trans [OF _ byte_count_nonneg])

lemma memory_set_account:
  assumes ok: "memory_ok b bl" and set: "memory_set b bl k v ins upd = (Inr d, b', bl')"
    and room: "byte_count bl + int (length v) < 2 ^ 31" "length bl + 1 < 2 ^ 31"
  shows "memory_ok (account_set d b') bl'"
proof -
  have range: "int32 (int (length v) - old_size bl k) = int (length v) - old_size bl k"
    using room(1) old_size_le [of bl k] by (intro int32_id) auto
  have bl': "bl' = AList.update k v bl" "d = int (length v) - old_size bl k"
    "sb_block_count b' = int (length bl')" "sb_usage b' = byte_count bl"
    using set ok range
    by (auto simp: memory_set_def memory_find_def memory_ok_def length_update old_size_def
        split: if_splits option.splits)
  moreover have "length bl' < 2 ^ 31" using room(2) by (simp add: bl'(1) length_update)
  moreover have "distinct (map fst bl')" using ok by (simp add: bl'(1) memory_ok_def distinct_keys_update)
  moreover have "byte_count bl' = byte_count bl + d"
    using ok by (simp add: bl'(1,2) memory_ok_def byte_count_update)
  moreover have "byte_count bl + d < 2 ^ 31" using room(1) old_size_le [of bl k] by (simp add: bl'(2))
  ultimately show ?thesis by (simp add: memory_ok_def)
qed

lemma memory_erase_account:
  assumes ok: "memory_ok b bl" and set: "memory_erase b bl k = (Inr d, b', bl')"
  shows "memory_ok (account_erase k d b') bl'"
proof -
  have range: "int32 (- old_size bl k) = - old_size bl k"
    using ok old_size_le [of bl k] by (intro int32_id) (auto simp: memory_ok_def)
  have "bl' = AList.delete k bl" "d = - old_size bl k" "sb_block_count b' = int (length bl) - 1"
    "sb_usage b' = byte_count bl" "map_of bl k \<noteq> None"
    using set ok range
    by (auto simp: memory_erase_def memory_find_def memory_ok_def old_size_def split: option.splits)
  moreover have "byte_count (AList.delete k bl) = byte_count bl - old_size bl k"
    using ok by (simp add: memory_ok_def byte_count_delete)
  ultimately show ?thesis
    using ok old_size_le [of bl k] length_delete [of bl k]
    by (auto simp: memory_ok_def distinct_keys_delete simp del: of_nat_Suc)
qed

definition fs_ok :: "silo_base \<Rightarrow> ((string \<times> string) \<times> buffer) list \<Rightarrow> bool" where
  "fs_ok b files \<longleftrightarrow> distinct (map fst files) \<and> sb_block_count b = int (length files)
     \<and> sb_usage b = byte_count files
     \<and> (\<forall>f \<in> set files. (\<exists>k. length k = value_size \<and> fst f = fs_path k) \<and> length (snd f) < 2 ^ 31)
     \<and> (\<forall>k. map_of (sb_size_cache b) k = map_option (\<lambda>d. int (length d)) (map_of files (fs_path k)))"

lemma fs_ok_size:
  "fs_ok b files \<Longrightarrow> old_size files (fs_path k) < 2 ^ 31"
  by (auto simp: fs_ok_def old_size_def split: option.splits dest!: map_of_SomeD)

lemma in_set_update:
  "f \<in> set (AList.update k v al) \<Longrightarrow> f = (k, v) \<or> f \<in> set al"
  by (induction al) (auto split: if_splits)

lemma fs_set_account:
  assumes ok: "fs_ok b files" and set: "fs_set b files k v ins upd = (Inr d, b', files')"
    and k: "length k = value_size" "length v < 2 ^ 31"
  shows "fs_ok (account_set d b') files'" "d = byte_count files' - byte_count files"
    "sb_capacity b = Some cap \<Longrightarrow> sb_usage (account_set d b') \<le> cap"
proof -
  have size: "int32 (old_size files (fs_path k)) = old_size files (fs_path k)"
    "int32 (int (length v) - old_size files (fs_path k)) = int (length v) - old_size files (fs_path k)"
    using fs_ok_size [OF ok, of k] old_size_le [of files "fs_path k"] k(2) by (auto intro!: int32_id)
  have v: "int32 (int (length v)) = int (length v)" using k(2) by (intro int32_id) auto
  have fields: "files' = AList.update (fs_path k) v files" "d = int (length v) - old_size files (fs_path k)"
    "sb_usage b' = sb_usage b"
    "sb_size_cache b' = AList.update k (int (length v)) (sb_size_cache b)"
    "sb_block_count b' = int (length files')"
    using set ok size v
    by (auto simp: fs_set_def fs_ok_def Let_def old_size_def length_update split: if_splits option.splits)
  show cap: "sb_usage (account_set d b') \<le> cap" if "sb_capacity b = Some cap"
    using set ok size that fields(3)
    by (auto simp: fs_set_def Let_def old_size_def split: if_splits option.splits)
  have bytes: "byte_count files' = byte_count files + d"
    using ok by (simp add: fields(1,2) fs_ok_def byte_count_update)
  then show "d = byte_count files' - byte_count files" by simp
  have "\<forall>f \<in> set files'. (\<exists>k. length k = value_size \<and> fst f = fs_path k) \<and> length (snd f) < 2 ^ 31"
    using ok k by (auto simp: fields(1) fs_ok_def dest!: in_set_update)
  then show "fs_ok (account_set d b') files'"
    using ok bytes fields by (simp add: fs_ok_def distinct_keys_update map_of_update)
qed

lemma fs_erase_account:
  assumes ok: "fs_ok b files" and er: "fs_erase b files k = (Inr d, b', files')"
  shows "fs_ok (account_erase k d b') files'"
proof -
  have present: "map_of files (fs_path k) \<noteq> None" using er by (auto simp: fs_erase_def split: if_splits)
  have "map_of (sb_size_cache b) k = Some (old_size files (fs_path k))"
    using ok present by (auto simp: fs_ok_def old_size_def)
  moreover have "int32 (- old_size files (fs_path k)) = - old_size files (fs_path k)"
    using fs_ok_size [OF ok, of k] old_size_le [of files "fs_path k"] by (intro int32_id) auto
  ultimately have fields: "files' = AList.delete (fs_path k) files" "d = - old_size files (fs_path k)"
    "sb_usage b' = sb_usage b" "sb_size_cache b' = AList.delete k (sb_size_cache b)"
    "sb_block_count b' = sb_block_count b - 1"
    using er present by (auto simp: fs_erase_def Let_def)
  have "int (length files') = int (length files) - 1"
    using length_delete [OF _ present] ok by (simp add: fields(1) fs_ok_def)
  moreover have "byte_count files' = byte_count files + d"
    using ok by (simp add: fields(1,2) fs_ok_def byte_count_delete)
  moreover have "set files' \<subseteq> set files" by (auto simp: fields(1) AList.delete_eq)
  moreover have "map_of (AList.delete k (AList.delete k (sb_size_cache b))) j =
      map_option (\<lambda>d. int (length d)) (map_of files' (fs_path j))" for j
    using ok by (simp add: fields(1) fs_ok_def delete_conv)
  ultimately show ?thesis
    using ok by (auto simp: fs_ok_def fields(3-5) distinct_keys_delete) (auto simp: fields(1) distinct_keys_delete)
qed

section \<open>Listing and recovery\<close>

lemma fs_name_parse:
  assumes "length k = value_size"
  shows "is_block (snd (fs_path k))" "\<exists>a. addr_from_string (snd (fs_path k)) = Inr a \<and> addr_value a = k"
proof -
  show "is_block (snd (fs_path k))"
    using assms by (simp add: fs_path_def is_block_def addr_print_hex_def value_size_def)
  show "\<exists>a. addr_from_string (snd (fs_path k)) = Inr a \<and> addr_value a = k"
    using addr_from_string_print [of "\<lparr>addr_value = k, addr_mutable = False\<rparr>"] assms
    by (simp add: fs_path_def addr_wf_def addr_of_value_def addr_flagged_def)
qed

lemma fs_list_keys:
  assumes "\<And>f. f \<in> set files \<Longrightarrow> \<exists>k. length k = value_size \<and> fst f = fs_path k"
  shows "\<exists>ks. fs_list files = Inr ks \<and> map fs_path ks = map fst files"
  using assms
proof (induction files)
  case (Cons f files)
  obtain p d where f: "f = (p, d)" by (cases f)
  obtain k where k: "length k = value_size" "p = fs_path k" using Cons.prems [of f] f by auto
  obtain ks where "fs_list files = Inr ks" "map fs_path ks = map fst files"
    using Cons.IH Cons.prems by auto
  with fs_name_parse [OF k(1)] k(2) f show ?case by auto
qed simp

lemma fs_recover_ok:
  assumes "\<And>f. f \<in> set files \<Longrightarrow> (\<exists>k. length k = value_size \<and> fst f = fs_path k) \<and> length (snd f) < 2 ^ 31"
    and "distinct (map fst files)"
  shows "\<exists>b'. fs_recover b files = Inr b' \<and> sb_usage b' = sb_usage b + byte_count files
    \<and> sb_block_count b' = sb_block_count b + int (length files)
    \<and> (\<forall>k. map_of (sb_size_cache b') k =
         (case map_of files (fs_path k) of Some d \<Rightarrow> Some (int (length d)) | None \<Rightarrow> map_of (sb_size_cache b) k))"
  using assms
proof (induction files arbitrary: b)
  case (Cons f files)
  obtain p d where f: "f = (p, d)" by (cases f)
  obtain k where k: "length k = value_size" "p = fs_path k" using Cons.prems(1) [of f] f by auto
  obtain a where a: "addr_from_string (snd p) = Inr a" "addr_value a = k"
    using fs_name_parse(2) [OF k(1)] k(2) by auto
  have len: "int32 (int (length d)) = int (length d)" using Cons.prems(1) [of f] f by (intro int32_id) auto
  let ?b = "notify_metrics (b\<lparr>sb_size_cache := AList.update k (int (length d)) (sb_size_cache b),
                 sb_usage := sb_usage b + int (length d), sb_block_count := sb_block_count b + 1\<rparr>)"
  have tail: "\<And>g. g \<in> set files \<Longrightarrow> (\<exists>k. length k = value_size \<and> fst g = fs_path k) \<and> length (snd g) < 2 ^ 31"
    "distinct (map fst files)" using Cons.prems by auto
  obtain b' where b': "fs_recover ?b files = Inr b'" "sb_usage b' = sb_usage ?b + byte_count files"
    "sb_block_count b' = sb_block_count ?b + int (length files)"
    "\<forall>j. map_of (sb_size_cache b') j =
         (case map_of files (fs_path j) of Some d \<Rightarrow> Some (int (length d)) | None \<Rightarrow> map_of (sb_size_cache ?b) j)"
    using Cons.IH [OF tail, of ?b] by blast
  have "map_of files p = None" using Cons.prems(2) f by (simp add: map_of_eq_None_iff)
  with b' a len f k(2) show ?case
    by (auto simp: notify_metrics_def map_of_update split: option.splits)
qed simp

lemma fs_open_ok:
  assumes "fs_ok b files"
  shows "\<exists>b'. fs_open files cap = Inr (Silo b' (Filesystem files)) \<and> fs_ok b' files
    \<and> sb_usage b' = sb_usage b \<and> sb_block_count b' = sb_block_count b"
proof -
  have "\<exists>b'. fs_recover (silo_base_new cap) files = Inr b'
    \<and> sb_usage b' = sb_usage (silo_base_new cap) + byte_count files
    \<and> sb_block_count b' = sb_block_count (silo_base_new cap) + int (length files)
    \<and> (\<forall>k. map_of (sb_size_cache b') k = (case map_of files (fs_path k) of Some d \<Rightarrow> Some (int (length d))
         | None \<Rightarrow> map_of (sb_size_cache (silo_base_new cap)) k))"
    using assms by (intro fs_recover_ok) (auto simp: fs_ok_def)
  then obtain b' where r: "fs_recover (silo_base_new cap) files = Inr b'"
    and fields: "sb_usage b' = sb_usage (silo_base_new cap) + byte_count files"
      "sb_block_count b' = sb_block_count (silo_base_new cap) + int (length files)"
    and cache: "\<And>k. map_of (sb_size_cache b') k = (case map_of files (fs_path k) of Some d \<Rightarrow> Some (int (length d))
         | None \<Rightarrow> map_of (sb_size_cache (silo_base_new cap)) k)"
    by blast
  have "map_of (sb_size_cache b') k = map_option (\<lambda>d. int (length d)) (map_of files (fs_path k))" for k
    by (cases "map_of files (fs_path k)") (simp_all add: cache silo_base_new_def)
  with assms r fields show ?thesis by (simp add: fs_open_def fs_ok_def silo_base_new_def)
qed

text \<open>Leaves whose accounting is right, all the way down.\<close>

function (sequential) silo_ok :: "silo \<Rightarrow> bool"
and backend_ok :: "silo_base \<Rightarrow> backend \<Rightarrow> bool"
and all_ok :: "silo list \<Rightarrow> bool" where
  "silo_ok (Silo b be) = backend_ok b be"
| "backend_ok b (Memory bl) = memory_ok b bl"
| "backend_ok b (Filesystem files) = fs_ok b files"
| "backend_ok b (Strip bs) = (all_ok bs \<and> sb_usage b = sum_list (map silo_usage bs))"
| "backend_ok b (Mirror balance par n bs) = all_ok bs"
| "backend_ok b (Crypt pw salt s) = silo_ok s"
| "backend_ok b (Latency g st er s) = silo_ok s"
| "all_ok [] = True"
| "all_ok (s # ss) \<longleftrightarrow> silo_ok s \<and> all_ok ss"
  by pat_completeness auto

termination
  by (relation "measure (case_sum (\<lambda>s. size s)
        (case_sum (\<lambda>(_, be). size be) (\<lambda>ss. size_list size ss)))") auto

lemma all_ok_nth: "all_ok ss \<longleftrightarrow> (\<forall>s \<in> set ss. silo_ok s)"
  by (induction ss) auto

lemma append_lists_keys:
  assumes "\<And>s. s \<in> set ss \<Longrightarrow> \<exists>ks. silo_list s = Inr ks \<and> distinct ks \<and> set ks = dom (silo_map ci s)"
    and "\<And>i j. i < j \<Longrightarrow> j < length ss \<Longrightarrow> dom (silo_map ci (ss ! i)) \<inter> dom (silo_map ci (ss ! j)) = {}"
  shows "\<exists>ks. append_lists ss = Inr ks \<and> distinct ks \<and> set ks = (\<Union>s \<in> set ss. dom (silo_map ci s))"
  using assms
proof (induction ss)
  case (Cons s ss)
  obtain ks where ks: "silo_list s = Inr ks" "distinct ks" "set ks = dom (silo_map ci s)"
    using Cons.prems(1) [of s] by auto
  have "\<exists>ks. append_lists ss = Inr ks \<and> distinct ks \<and> set ks = (\<Union>s \<in> set ss. dom (silo_map ci s))"
  proof (rule Cons.IH)
    show "dom (silo_map ci (ss ! i)) \<inter> dom (silo_map ci (ss ! j)) = {}" if "i < j" "j < length ss" for i j
      using Cons.prems(2) [of "Suc i" "Suc j"] that by simp
  qed (use Cons.prems(1) in auto)
  then obtain ks' where ks': "append_lists ss = Inr ks'" "distinct ks'" "set ks' = (\<Union>s \<in> set ss. dom (silo_map ci s))"
    by blast
  have "dom (silo_map ci s) \<inter> dom (silo_map ci t) = {}" if "t \<in> set ss" for t
    using that Cons.prems(2) [of 0 "Suc _"] by (force simp: in_set_conv_nth)
  with ks ks' show ?case by (fastforce simp: Int_UN_distrib)
qed simp

lemma silo_list_refines:
  assumes "silo_wf ci s" "silo_ok s"
  shows "\<exists>ks. silo_list s = Inr ks \<and> distinct ks \<and> set ks = dom (silo_map ci s)"
  using assms
proof (induction s rule: silo_cases_induct)
  case (Memory b bl)
  then show ?case by (simp add: memory_ok_invariants dom_map_of_conv_image_fst)
next
  case (Filesystem b files)
  then obtain ks where ks: "fs_list files = Inr ks" "map fs_path ks = map fst files"
    using fs_list_keys [of files] by auto
  have dk: "distinct ks" using Filesystem.prems(1) ks(2) by (metis backend_wf.simps(2) distinct_map silo_wf.simps)
  have "k \<in> set ks \<longleftrightarrow> map_of files (fs_path k) \<noteq> None" for k
  proof -
    have "k \<in> set ks \<longleftrightarrow> fs_path k \<in> set (map fs_path ks)" by auto
    then show ?thesis by (simp add: ks(2) map_of_eq_None_iff)
  qed
  with ks(1) dk show ?case by auto
next
  case (Strip b bs)
  have wf: "backend_wf ci (Strip bs)" using Strip.prems by simp
  have each: "\<exists>ks. silo_list s = Inr ks \<and> distinct ks \<and> set ks = dom (silo_map ci s)" if "s \<in> set bs" for s
    using Strip.IH [OF that] Strip.prems that by (auto simp: all_wf_nth all_ok_nth)
  have at: "storage_of k (length bs) = i" if "i < length bs" "k \<in> dom (silo_map ci (bs ! i))" for i k
    using wf that by auto
  have dj: "dom (silo_map ci (bs ! i)) \<inter> dom (silo_map ci (bs ! j)) = {}" if "i < j" "j < length bs" for i j
  proof (rule ccontr)
    assume "dom (silo_map ci (bs ! i)) \<inter> dom (silo_map ci (bs ! j)) \<noteq> {}"
    then obtain k where "k \<in> dom (silo_map ci (bs ! i))" "k \<in> dom (silo_map ci (bs ! j))" by blast
    then have "storage_of k (length bs) = i" "storage_of k (length bs) = j"
      using at [of i k] at [of j k] that by auto
    with that show False by simp
  qed
  have "\<exists>ks. append_lists bs = Inr ks \<and> distinct ks \<and> set ks = (\<Union>s \<in> set bs. dom (silo_map ci s))"
    by (rule append_lists_keys) (rule each dj; assumption)+
  then obtain ks where ks: "append_lists bs = Inr ks" "distinct ks" "set ks = (\<Union>s \<in> set bs. dom (silo_map ci s))"
    by blast
  have "(\<Union>s \<in> set bs. dom (silo_map ci s)) = dom (backend_map ci (Strip bs))"
  proof (intro equalityI subsetI)
    fix k assume "k \<in> (\<Union>s \<in> set bs. dom (silo_map ci s))"
    then obtain i where "i < length bs" "k \<in> dom (silo_map ci (bs ! i))"
      by (metis UN_E in_set_conv_nth)
    with at [of i k] show "k \<in> dom (backend_map ci (Strip bs))"
      using strip_map_backend [OF wf, of k] by (simp add: dom_def del: backend_map.simps)
  next
    fix k assume "k \<in> dom (backend_map ci (Strip bs))"
    then show "k \<in> (\<Union>s \<in> set bs. dom (silo_map ci s))"
      using strip_map_backend [OF wf, of k] strip_backend_wf [OF wf, of k]
      by (auto simp: dom_def simp del: backend_map.simps)
  qed
  with ks show ?case by auto
next
  case (Mirror b balance par n bs)
  have wf: "backend_wf ci (Mirror balance par n bs)" using Mirror.prems by simp
  obtain s ss where bs: "bs = s # ss" using mirror_wfD(1) [OF wf] by (cases bs) auto
  have "\<exists>ks. silo_list s = Inr ks \<and> distinct ks \<and> set ks = dom (silo_map ci s)"
    using Mirror.IH [of s] mirror_wfD(2) [OF wf, of s] Mirror.prems(2) by (auto simp: bs)
  then show ?case using mirror_wfD(4) [OF wf] by (auto simp: bs dom_def)
next
  case (Crypt b pw salt s)
  have "dom (backend_map ci (Crypt pw salt s)) = dom (silo_map ci s)"
    using Crypt.prems(1) by (fastforce simp: dom_def split: option.splits)
  with Crypt show ?case by (auto simp del: backend_map.simps)
next
  case (Latency b g st er s)
  then show ?case by auto
qed

section \<open>The storage interface\<close>

text \<open>
  What the layers above rely on: a silo is a partial map from keys to buffers, whose \<open>set\<close> inserts
  or updates as its flags allow and otherwise reports why not and changes nothing.
\<close>

datatype store_op = OpSet key buffer bool bool | OpErase key

fun op_wf :: "store_op \<Rightarrow> bool" where
  "op_wf (OpSet k v ins upd) \<longleftrightarrow> length k = value_size \<and> (ins \<or> upd)"
| "op_wf (OpErase k) = True"

fun map_step :: "(key \<rightharpoonup> buffer) \<Rightarrow> store_op \<Rightarrow> (key \<rightharpoonup> buffer)" where
  "map_step m (OpSet k v ins upd) = (if set_error m k ins upd = None then m(k \<mapsto> v) else m)"
| "map_step m (OpErase k) = m(k := None)"

locale block_store =
  fixes get :: "'s \<Rightarrow> key \<Rightarrow> silo_error + buffer"
    and put :: "'s \<Rightarrow> key \<Rightarrow> buffer \<Rightarrow> bool \<Rightarrow> bool \<Rightarrow> (silo_error + int) \<times> 's"
    and erase :: "'s \<Rightarrow> key \<Rightarrow> (silo_error + int) \<times> 's"
    and contents :: "'s \<Rightarrow> key \<Rightarrow> buffer option"
    and wf :: "'s \<Rightarrow> bool"
  assumes get_law: "wf s \<Longrightarrow> get s k = get_spec (contents s) k"
    and put_law: "wf s \<Longrightarrow> op_wf (OpSet k v ins upd) \<Longrightarrow>
       set_spec (contents s) k v ins upd (fst (put s k v ins upd)) (contents (snd (put s k v ins upd)))
       \<and> wf (snd (put s k v ins upd))"
    and erase_law: "wf s \<Longrightarrow>
       erase_spec (contents s) k (fst (erase s k)) (contents (snd (erase s k))) \<and> wf (snd (erase s k))"
begin

definition step :: "'s \<Rightarrow> store_op \<Rightarrow> 's" where
  "step s x = (case x of OpSet k v ins upd \<Rightarrow> snd (put s k v ins upd) | OpErase k \<Rightarrow> snd (erase s k))"

lemma step_contents:
  assumes "wf s" "op_wf x"
  shows "contents (step s x) = map_step (contents s) x \<and> wf (step s x)"
proof (cases x)
  case (OpSet k v ins upd)
  with assms put_law [of s k v ins upd] show ?thesis
    by (cases "set_error (contents s) k ins upd") (auto simp: step_def set_spec_def)
next
  case (OpErase k)
  with assms erase_law [of s k] show ?thesis
    by (cases "contents s k") (auto simp: step_def erase_spec_def)
qed

lemma run_contents:
  assumes "wf s" "\<forall>x \<in> set xs. op_wf x"
  shows "contents (foldl step s xs) = foldl map_step (contents s) xs \<and> wf (foldl step s xs)"
  using assms
proof (induction xs arbitrary: s)
  case (Cons x xs)
  then show ?case using step_contents [of s x] by auto
qed simp

lemma get_after_put:
  assumes "wf s" "op_wf (OpSet k v ins upd)" "put s k v ins upd = (Inr d, s')"
  shows "get s' k = Inr v" "k' \<noteq> k \<Longrightarrow> get s' k' = get s k'"
  using put_law [OF assms(1,2)] get_law [of s'] get_law [OF assms(1)] assms(3)
  by (auto simp: set_spec_def get_spec_def split: option.splits)

lemma failed_put:
  assumes "wf s" "op_wf (OpSet k v ins upd)" "put s k v ins upd = (Inl e, s')"
  shows "get s' k' = get s k'" "e = MissingKey k \<or> e = Collision k"
  using put_law [OF assms(1,2)] get_law [of s'] get_law [OF assms(1)] assms(3)
  by (auto simp: set_spec_def set_error_def get_spec_def split: option.splits if_splits)

end

definition silo_good :: "cipher \<Rightarrow> silo \<Rightarrow> bool" where
  "silo_good ci s \<longleftrightarrow> cipher_ok ci \<and> silo_wf ci s \<and> silo_unbounded s"

interpretation store: block_store "\<lambda>s k. fst (silo_get ci s k)" "silo_set ci" silo_erase "silo_map ci" "silo_good ci"
  for ci
proof
  show "fst (silo_get ci s k) = get_spec (silo_map ci s) k" if "silo_good ci s" for s k
    using that silo_get_refines by (auto simp: silo_good_def)
  show "set_spec (silo_map ci s) k v ins upd (fst (silo_set ci s k v ins upd))
      (silo_map ci (snd (silo_set ci s k v ins upd))) \<and> silo_good ci (snd (silo_set ci s k v ins upd))"
    if "silo_good ci s" "op_wf (OpSet k v ins upd)" for s k v ins upd
    using that silo_set_refines [of ci s k ins upd v] by (auto simp: silo_good_def)
  show "erase_spec (silo_map ci s) k (fst (silo_erase s k)) (silo_map ci (snd (silo_erase s k)))
      \<and> silo_good ci (snd (silo_erase s k))" if "silo_good ci s" for s k
    using that silo_erase_refines [of ci s k] by (auto simp: silo_good_def)
qed

fun silo_step :: "cipher \<Rightarrow> silo \<Rightarrow> store_op \<Rightarrow> silo" where
  "silo_step ci s (OpSet k v ins upd) = snd (silo_set ci s k v ins upd)"
| "silo_step ci s (OpErase k) = snd (silo_erase s k)"

definition silo_run :: "cipher \<Rightarrow> silo \<Rightarrow> store_op list \<Rightarrow> silo" where
  "silo_run ci s ops = foldl (silo_step ci) s ops"

lemma silo_run_store: "silo_run ci s ops = foldl (store.step ci) s ops"
proof -
  have "silo_step ci = store.step ci"
    by (intro ext) (simp add: store.step_def split: store_op.splits)
  then show ?thesis by (simp add: silo_run_def)
qed

text \<open>
  C11. Refinement of storage: any sequence of set and erase requests on any nesting of Memory,
  Filesystem, Strip, Mirror, Crypt and Latency in which no silo has a capacity leaves the
  contents that the same requests leave in a plain map, also when some of them fail (a key that is
  there already or is missing), and a read then returns what that map holds.
\<close>

theorem silo_refines_map:
  assumes "cipher_ok ci" "silo_wf ci s" "silo_unbounded s" "list_all op_wf ops"
  shows "silo_map ci (silo_run ci s ops) = foldl map_step (silo_map ci s) ops
    \<and> fst (silo_get ci (silo_run ci s ops) k) = get_spec (foldl map_step (silo_map ci s) ops) k"
proof -
  have good: "silo_good ci s" using assms by (simp add: silo_good_def)
  from store.run_contents [OF good, of ops] assms(4)
  have "silo_map ci (silo_run ci s ops) = foldl map_step (silo_map ci s) ops" "silo_good ci (silo_run ci s ops)"
    by (auto simp: silo_run_store list_all_iff)
  then show ?thesis using store.get_law [of ci "silo_run ci s ops" k] by simp
qed

text \<open>The plainest cipher with the required law; the theorem needs nothing else of it.\<close>

definition reversing_cipher :: cipher where
  "reversing_cipher = \<lparr>encipher = (\<lambda>pw v. rev v), decipher = (\<lambda>pw v. Inr (rev v))\<rparr>"

definition nested_silo :: silo where
  "nested_silo = strip_new [crypt_new memory_new ''secret'' True,
     mirror_new [latency_new memory_new (Some 10) None None, memory_new] True False]"

definition key_a :: key where "key_a = replicate 32 7"
definition key_b :: key where "key_b = 8 # replicate 31 7"

lemma nested_silo_good:
  "cipher_ok reversing_cipher" "silo_wf reversing_cipher nested_silo" "silo_unbounded nested_silo"
proof -
  show "cipher_ok reversing_cipher" by (simp add: cipher_ok_def reversing_cipher_def)
  show "silo_wf reversing_cipher nested_silo"
    by (auto simp: nested_silo_def strip_new_def crypt_new_def mirror_new_def latency_new_def memory_new_def
        backend_wf.simps(4) less_Suc_eq fun_eq_iff)
  show "silo_unbounded nested_silo"
    by (simp add: nested_silo_def strip_new_def crypt_new_def mirror_new_def latency_new_def memory_new_def)
qed

theorem silo_refines_map_witness:
  "fst (silo_get reversing_cipher (silo_run reversing_cipher nested_silo
     [OpSet key_a [1, 2, 3] True False, OpSet key_b [4] True False, OpSet key_a [9] True False,
      OpErase key_b, OpSet key_b [5, 6] True True]) key_a) = Inr [1, 2, 3]"
proof -
  let ?ops = "[OpSet key_a [1, 2, 3] True False, OpSet key_b [4] True False, OpSet key_a [9] True False,
      OpErase key_b, OpSet key_b [5, 6] True True]"
  have "list_all op_wf ?ops" by (simp add: key_a_def key_b_def value_size_def)
  note silo_refines_map [OF nested_silo_good this, of key_a]
  moreover have "foldl map_step (silo_map reversing_cipher nested_silo) ?ops key_a = Some [1, 2, 3]"
  proof -
    have "key_a \<noteq> key_b" by code_simp
    moreover have "silo_map reversing_cipher nested_silo key_a = None"
      by code_simp
    ultimately show ?thesis by (simp add: set_error_def split: option.splits)
  qed
  ultimately show ?thesis by (simp add: get_spec_def)
qed

section \<open>Accounting of whole operations\<close>

text \<open>
  The counters of a Memory silo stay exact: as long as its total size fits an \<open>int\<close>, after any
  set, successful or not, the usage is the sum of the block sizes, the block count is their number,
  and listing, which asserts both, returns every key once.
\<close>

theorem memory_silo_accounting:
  assumes "memory_ok b bl" and "byte_count bl + int (length v) < 2 ^ 31" and "length bl + 1 < 2 ^ 31"
    and "silo_set ci (Silo b (Memory bl)) k v ins upd = (r, s')"
  shows "\<exists>b' bl'. s' = Silo b' (Memory bl') \<and> memory_ok b' bl' \<and> silo_list s' = Inr (map fst bl')"
proof -
  obtain x b1 bl1 where m: "memory_set b bl k v ins upd = (x, b1, bl1)" by (metis prod_cases3)
  show ?thesis
  proof (cases "ins \<or> upd")
    case True
    show ?thesis
    proof (cases x)
      case (Inl e)
      then have "b1 = b" "bl1 = bl"
        using m by (auto simp: memory_set_def memory_find_def split: if_splits option.splits)
      with assms(1,4) m Inl True show ?thesis by (auto simp: memory_ok_invariants)
    next
      case (Inr d)
      have "memory_ok (account_set d b1) bl1"
        using memory_set_account [OF assms(1) _ assms(2,3)] m Inr by blast
      with assms(4) m Inr True show ?thesis by (auto simp: memory_ok_invariants)
    qed
  qed (use assms(1,4) in \<open>auto simp: memory_ok_invariants\<close>)
qed

text \<open>
  C30. A Filesystem silo can be restarted at any time: from a consistent state, after any set of a block of
  less than 2 GiB, reading the directory again recovers the same usage, the same block count and a
  right size for every block; and a set that succeeds never takes the usage above the capacity.
\<close>

theorem fs_silo_restart:
  assumes "fs_ok b files" and "length k = value_size" and "length v < 2 ^ 31"
    and "silo_set ci (Silo b (Filesystem files)) k v ins upd = (r, s')"
  shows "\<exists>b' files'. s' = Silo b' (Filesystem files') \<and> fs_ok b' files'
    \<and> (\<exists>b''. fs_open files' cap = Inr (Silo b'' (Filesystem files')) \<and> fs_ok b'' files'
         \<and> sb_usage b'' = sb_usage b' \<and> sb_block_count b'' = sb_block_count b')
    \<and> (\<forall>d c. r = Inr d \<longrightarrow> sb_capacity b = Some c \<longrightarrow> sb_usage b' \<le> c)"
proof -
  obtain x b1 files1 where m: "fs_set b files k v ins upd = (x, b1, files1)" by (metis prod_cases3)
  show ?thesis
  proof (cases "ins \<or> upd")
    case True
    show ?thesis
    proof (cases x)
      case (Inl e)
      then have "b1 = b" "files1 = files"
        using m by (auto simp: fs_set_def Let_def split: if_splits option.splits)
      with assms(1,4) m Inl True fs_open_ok [OF assms(1), of cap] show ?thesis by auto
    next
      case (Inr d)
      note acc = fs_set_account [OF assms(1) m [unfolded Inr] assms(2,3)]
      have "s' = Silo (account_set d b1) (Filesystem files1)" "r = Inr d"
        using assms(4) m Inr True by auto
      with acc(1,3) fs_open_ok [OF acc(1), of cap] show ?thesis by auto
    qed
  qed (use assms(1,4) fs_open_ok [OF assms(1), of cap] in auto)
qed

lemma sum_list_update:
  "i < length xs \<Longrightarrow> sum_list (xs[i := x]) = sum_list xs + x - xs ! i" for xs :: "int list"
  by (induction xs arbitrary: i) (auto simp: less_Suc_eq_0_disj split: nat.splits)

definition delta_of :: "silo_error + int \<Rightarrow> int" where
  "delta_of r = (case r of Inl _ \<Rightarrow> 0 | Inr d \<Rightarrow> d)"

lemma silo_set_usage: "silo_usage (snd (silo_set ci s k v ins upd)) = silo_usage s + delta_of (fst (silo_set ci s k v ins upd))"
proof (cases s)
  case (Silo b be)
  obtain r b' be' where m: "backend_set ci b be k v ins upd = (r, b', be')" by (metis prod_cases3)
  then have "sb_usage b' = sb_usage b"
    by (cases be) (auto simp: memory_set_def fs_set_def Let_def split: prod.splits if_splits option.splits sum.splits)
  with m Silo show ?thesis by (cases r) (auto simp: delta_of_def)
qed

lemma silo_erase_usage: "silo_usage (snd (silo_erase s k)) = silo_usage s + delta_of (fst (silo_erase s k))"
proof (cases s)
  case (Silo b be)
  obtain r b' be' where m: "backend_erase b be k = (r, b', be')" by (metis prod_cases3)
  then have "sb_usage b' = sb_usage b"
    by (cases be) (auto simp: memory_erase_def fs_erase_def Let_def split: prod.splits if_splits option.splits sum.splits)
  with m Silo show ?thesis by (cases r) (auto simp: delta_of_def)
qed

text \<open>
  Sharding keeps the books: a Strip whose usage is the sum of the usages of its backends keeps it so
  through every set and every erase, whatever the backends are and whether or not the operation
  succeeds.
\<close>

theorem strip_usage_sum:
  assumes "sb_usage b = sum_list (map silo_usage bs)"
    and "s' = snd (silo_set ci (Silo b (Strip bs)) k v ins upd) \<or> s' = snd (silo_erase (Silo b (Strip bs)) k)"
  shows "\<exists>b' bs'. s' = Silo b' (Strip bs') \<and> sb_usage b' = sum_list (map silo_usage bs')"
proof (cases "bs = []")
  case True
  with assms show ?thesis by (auto split: if_splits)
next
  case False
  let ?i = "storage_of k (length bs)"
  have i: "?i < length bs" using False by (rule storage_of_less)
  have upd: "sum_list (map silo_usage (bs[?i := t])) = sum_list (map silo_usage bs) + silo_usage t - silo_usage (bs ! ?i)" for t
    using i by (simp add: map_update sum_list_update)
  from assms(2) show ?thesis
  proof
    assume "s' = snd (silo_set ci (Silo b (Strip bs)) k v ins upd)"
    with False assms(1) i show ?thesis
      using silo_set_usage [of ci "bs ! ?i" k v ins upd]
      by (cases "fst (silo_set ci (bs ! ?i) k v ins upd)") (auto simp: nth_set_nth upd delta_of_def)
  next
    assume "s' = snd (silo_erase (Silo b (Strip bs)) k)"
    with False assms(1) i show ?thesis
      using silo_erase_usage [of "bs ! ?i" k]
      by (cases "fst (silo_erase (bs ! ?i) k)") (auto simp: nth_erase_nth upd delta_of_def)
  qed
qed

text \<open>
  The block count of a Strip is only right until the first insertion: it is summed up by the constructor and
  no operation of Strip changes it, so it never follows what its backends hold.
\<close>

theorem strip_block_count_stale:
  "silo_block_count (snd (silo_set ci (strip_new bs) k v ins upd)) = sum_list (map silo_block_count bs)
   \<and> silo_block_count (snd (silo_erase (strip_new bs) k)) = sum_list (map silo_block_count bs)"
  by (auto simp: strip_new_def split: prod.splits sum.splits)

section \<open>Concrete runs\<close>

theorem memory_silo_accounting_witness:
  "\<exists>b' bl'. snd (silo_set reversing_cipher memory_new key_a [1, 2, 3] True False) = Silo b' (Memory bl')
     \<and> memory_ok b' bl'"
  using memory_silo_accounting [of "silo_base_new None" "[]" "[1, 2, 3]" reversing_cipher key_a True False
      "fst (silo_set reversing_cipher memory_new key_a [1, 2, 3] True False)"
      "snd (silo_set reversing_cipher memory_new key_a [1, 2, 3] True False)"]
  by (auto simp: memory_ok_def silo_base_new_def memory_new_def)

lemma fresh_fs_ok: "fs_ok (silo_base_new cap) []"
  by (simp add: fs_ok_def silo_base_new_def)

theorem fs_silo_restart_witness:
  "\<exists>b' files'. silo_set reversing_cipher (Silo (silo_base_new (Some 100)) (Filesystem [])) key_a [1, 2, 3] True False
       = (Inr 3, Silo b' (Filesystem files')) \<and> sb_usage b' \<le> 100
     \<and> (\<exists>b''. fs_open files' (Some 100) = Inr (Silo b'' (Filesystem files')) \<and> sb_usage b'' = sb_usage b')"
proof -
  let ?r = "silo_set reversing_cipher (Silo (silo_base_new (Some 100)) (Filesystem [])) key_a [1, 2, 3] True False"
  have "fst ?r = Inr 3" by code_simp
  then have r: "?r = (Inr 3, snd ?r)" by (metis prod.collapse)
  have k: "length key_a = value_size" by (simp add: key_a_def value_size_def)
  have "sb_capacity (silo_base_new (Some 100)) = Some 100" by (simp add: silo_base_new_def)
  with fs_silo_restart [OF fresh_fs_ok k _ r, of "Some 100"] r show ?thesis by auto
qed

theorem strip_usage_sum_witness:
  "\<exists>b' bs'. snd (silo_set reversing_cipher nested_silo key_a [1, 2, 3] True False) = Silo b' (Strip bs')
     \<and> sb_usage b' = sum_list (map silo_usage bs')"
  unfolding nested_silo_def strip_new_def
  by (rule strip_usage_sum [rotated, OF disjI1, OF refl]) simp

end
