(* ===== verification/Memo_Local.thy ===== *)
theory Memo_Local
  imports Memo_Wire Memo_Silo "HOL-Library.Option_ord"
begin

text \<open>
  The storage of a node, \<^verbatim>\<open>Local\<close> (src/memo/model/doughnut/Local.cc): \<^verbatim>\<open>store\<close>, \<^verbatim>\<open>_fetch\<close> and
  \<^verbatim>\<open>remove\<close>, which put the validation of blocks, their binary form and the silo together,
  with the dispatch of validation on the class of a block and the check of the passport
  of the caller. The signals \<^verbatim>\<open>_on_store\<close>, \<^verbatim>\<open>_on_fetch\<close> and \<^verbatim>\<open>_on_remove\<close> are not modelled.
\<close>

section \<open>Dispatch on the class of a block\<close>

definition base_block :: "('k, 's) any_block \<Rightarrow> block" where
  "base_block b = (case b of PlainBlock b \<Rightarrow> b | CHB b \<Rightarrow> block.truncate b | NB b \<Rightarrow> block.truncate b
     | UB b \<Rightarrow> block.truncate b | OKB b \<Rightarrow> block.truncate b | ACB b \<Rightarrow> block.truncate b | GB b \<Rightarrow> block.truncate b)"

definition block_address :: "('k, 's) any_block \<Rightarrow> address" where
  "block_address b = blk_address (base_block b)"

text \<open>\<^verbatim>\<open>dynamic_cast<MutableBlock>\<close>, and the version of the block when it succeeds.\<close>

definition mutable_version :: "('k, 's) any_block \<Rightarrow> int option" where
  "mutable_version b = (case b of OKB b \<Rightarrow> Some (okb_version b) | ACB b \<Rightarrow> Some (acb_data_version b)
     | GB b \<Rightarrow> Some (acb_data_version b) | _ \<Rightarrow> None)"

text \<open>\<^verbatim>\<open>Block::validate(model, writing)\<close>, with its cache, for a block of any class.\<close>

definition validate_block ::
  "('k, 's) crypto \<Rightarrow> ('k, 's) doughnut \<Rightarrow> bool \<Rightarrow> ('k, 's) any_block \<Rightarrow> blk_error + validation_result" where
  "validate_block ci d writing b =
     (if blk_validated (base_block b) then Inr vr_ok
      else case b of
             PlainBlock b \<Rightarrow> Inr vr_ok
           | CHB b \<Rightarrow> chb_validate ci d b
           | NB b \<Rightarrow> nb_validate ci d b
           | UB b \<Rightarrow> ub_validate ci d b
           | OKB b \<Rightarrow> okb_validate ci d okb_body b
           | ACB b \<Rightarrow> acb_validate ci d writing b
           | GB b \<Rightarrow> gb_validate ci d writing b)"

text \<open>
  \<^verbatim>\<open>Block::validate(model, new_block)\<close> of a block just read from the storage, whose owner
  pointer is therefore never that of the new block.
\<close>

definition validate_over :: "('k, 's) any_block \<Rightarrow> ('k, 's) any_block \<Rightarrow> blk_error + validation_result" where
  "validate_over b new =
     (case b of
        NB b \<Rightarrow> Inr (nb_validate_over False b new)
      | UB b \<Rightarrow> Inr (ub_validate_over b new)
      | ACB b \<Rightarrow>
          (case new of
             ACB n \<Rightarrow> acb_validate_over b n
           | _ \<Rightarrow> vr_then (Inr (block_validate_over b (base_block new)))
                    (\<lambda>_. Inr (vr_failure ''New block is not an ACB'')))
      | GB b \<Rightarrow>
          (case new of
             GB n \<Rightarrow> acb_validate_over b n
           | _ \<Rightarrow> vr_then (Inr (block_validate_over b (base_block new)))
                    (\<lambda>_. Inr (vr_failure ''New block is not an ACB'')))
      | _ \<Rightarrow> Inr (block_validate_over (base_block b) (base_block new)))"

text \<open>
  \<^verbatim>\<open>BaseACB::_validate_remove\<close> for group blocks, and \<^verbatim>\<open>Block::validate_remove\<close> for a block of
  any class. \<open>tail\<close> is what follows the literal that \<^verbatim>\<open>NB\<close> reads past its end.
\<close>

definition gb_validate_remove ::
  "('k, 's) crypto \<Rightarrow> ('k, 's) doughnut \<Rightarrow> ('k, 's) remove_signature \<Rightarrow> ('k, 's) gb
     \<Rightarrow> blk_error + validation_result" where
  "gb_validate_remove ci d rs b =
     (case rs_block rs of
        None \<Rightarrow> Inr (vr_failure ''remove signature has no block'')
      | Some (GB mb) \<Rightarrow>
          if \<not> acb_deleted mb
          then Inr (vr_failure ''remove signature block's not marked for deletion'')
          else
            vr_then (bind_res (block_validate (gb_validate ci d True) mb) (\<lambda>(r, _). Inr r)) (\<lambda>_.
              if acb_data_version b \<ge> acb_data_version mb then Inr (vr_conflict ''invalid version'')
              else vr_then (acb_validate_over b mb) (\<lambda>_. Inr vr_ok))
      | Some _ \<Rightarrow> Inr (vr_failure ''remove signature block is not mutable''))"

definition validate_remove ::
  "('k, 's) crypto \<Rightarrow> ('k, 's) doughnut \<Rightarrow> buffer \<Rightarrow> ('k, 's) remove_signature \<Rightarrow> ('k, 's) any_block
     \<Rightarrow> blk_error + validation_result" where
  "validate_remove ci d tail rs b =
     (case b of
        PlainBlock b \<Rightarrow> Inr vr_ok
      | CHB b \<Rightarrow> chb_validate_remove ci d rs b
      | NB b \<Rightarrow> nb_validate_remove ci d tail rs b
      | UB b \<Rightarrow> ub_validate_remove ci d rs b
      | OKB b \<Rightarrow> Inr vr_ok
      | ACB b \<Rightarrow> acb_validate_remove ci d rs b
      | GB b \<Rightarrow> gb_validate_remove ci d rs b)"

section \<open>The node\<close>

datatype store_mode = STORE_INSERT | STORE_UPDATE

datatype ('k, 's) local_error =
    BlockFailure blk_error
  | ReadFailure ser_error
  | SiloFailure silo_error
  | Conflict string "('k, 's) any_block"
  | ValidationFailed string
  | BlockMissing key
  | AccessDenied string

text \<open>
  What a node is given: the wire format, the cryptography, the network, the cipher of its
  silos and the bytes after the literal of \<^verbatim>\<open>NB\<close>. Its state is its silo.
\<close>

record ('k, 's) node =
  no_wire :: "'k wire"
  no_crypto :: "('k, 's) crypto"
  no_doughnut :: "('k, 's) doughnut"
  no_cipher :: cipher
  no_tail :: buffer

abbreviation block_key :: "('k, 's) any_block \<Rightarrow> key" where
  "block_key b \<equiv> addr_value (block_address b)"

text \<open>What \<^verbatim>\<open>Local::store\<close> checks against the block it replaces; \<open>None\<close> is a null pointer.\<close>

definition check_previous ::
  "('k, 's) any_block option \<Rightarrow> ('k, 's) any_block \<Rightarrow> ('k, 's) local_error + unit" where
  "check_previous prev b =
     (let over = (\<lambda>p. case validate_over p b of
            Inl e \<Rightarrow> Inl (BlockFailure e)
          | Inr vr \<Rightarrow> if vr_success vr then Inr ()
                      else if vr_is_conflict vr then Inl (Conflict (vr_reason vr) p)
                      else Inl (ValidationFailed (vr_reason vr))) in
      case mutable_version b of
        Some v \<Rightarrow>
          (case prev of
             None \<Rightarrow> Inl (ValidationFailed ''overwriting a non-mutable block'')
           | Some p \<Rightarrow>
               (case mutable_version p of
                  None \<Rightarrow> Inl (ValidationFailed ''overwriting a non-mutable block'')
                | Some w \<Rightarrow> if v \<le> w then Inl (Conflict ''version is not superior to current version'' p) else over p))
      | None \<Rightarrow> (case prev of None \<Rightarrow> Inl (BlockFailure UndefinedBehaviour) | Some p \<Rightarrow> over p))"

definition local_write ::
  "('k, 's) node \<Rightarrow> ('k, 's) any_block \<Rightarrow> store_mode \<Rightarrow> silo \<Rightarrow> (('k, 's) local_error + unit) \<times> silo" where
  "local_write n b mode s =
     (case silo_set (no_cipher n) s (block_key b) (serialize_any (no_wire n) b)
             (mode = STORE_INSERT) (mode = STORE_UPDATE) of
        (Inl (MissingKey k), s') \<Rightarrow> (Inl (BlockMissing (block_key b)), s')
      | (Inl e, s') \<Rightarrow> (Inl (SiloFailure e), s')
      | (Inr _, s') \<Rightarrow> (Inr (), s'))"

definition local_store ::
  "('k, 's) node \<Rightarrow> ('k, 's) any_block \<Rightarrow> store_mode \<Rightarrow> silo \<Rightarrow> (('k, 's) local_error + unit) \<times> silo" where
  "local_store n b mode s =
     (case validate_block (no_crypto n) (no_doughnut n) True b of
        Inl e \<Rightarrow> (Inl (BlockFailure e), s)
      | Inr res \<Rightarrow>
          if \<not> vr_success res then (Inl (ValidationFailed (vr_reason res)), s)
          else
            (case silo_get (no_cipher n) s (block_key b) of
               (Inl (MissingKey _), s') \<Rightarrow> local_write n b mode s'
             | (Inl e, s') \<Rightarrow> (Inl (SiloFailure e), s')
             | (Inr buf, s') \<Rightarrow>
                 (case deserialize_any (no_wire n) (no_crypto n) (no_doughnut n) buf of
                    Inl e \<Rightarrow> (Inl (ReadFailure e), s')
                  | Inr (prev, _) \<Rightarrow>
                      (case check_previous prev b of
                         Inl e \<Rightarrow> (Inl e, s')
                       | Inr _ \<Rightarrow> local_write n b mode s'))))"

definition local_fetch ::
  "('k, 's) node \<Rightarrow> key \<Rightarrow> silo \<Rightarrow> (('k, 's) local_error + ('k, 's) any_block option) \<times> silo" where
  "local_fetch n k s =
     (case silo_get (no_cipher n) s k of
        (Inl (MissingKey k'), s') \<Rightarrow> (Inl (BlockMissing k'), s')
      | (Inl e, s') \<Rightarrow> (Inl (SiloFailure e), s')
      | (Inr buf, s') \<Rightarrow>
          (case deserialize_any (no_wire n) (no_crypto n) (no_doughnut n) buf of
             Inl e \<Rightarrow> (Inl (ReadFailure e), s')
           | Inr (b, _) \<Rightarrow> (Inr b, s')))"

definition local_erase :: "key \<Rightarrow> silo \<Rightarrow> (('k, 's) local_error + unit) \<times> silo" where
  "local_erase k s =
     (case silo_erase s k of
        (Inl (MissingKey k'), s') \<Rightarrow> (Inl (BlockMissing k'), s')
      | (Inl e, s') \<Rightarrow> (Inl (SiloFailure e), s')
      | (Inr _, s') \<Rightarrow> (Inr (), s'))"

text \<open>Before version 0.4.0 removals are not checked.\<close>

definition local_remove ::
  "('k, 's) node \<Rightarrow> key \<Rightarrow> ('k, 's) remove_signature \<Rightarrow> silo \<Rightarrow> (('k, 's) local_error + unit) \<times> silo" where
  "local_remove n k rs s =
     (if dn_version (no_doughnut n) < Version 0 4 0 then local_erase k s
      else
        case local_fetch n k s of
          (Inl e, s') \<Rightarrow> (Inl e, s')
        | (Inr None, s') \<Rightarrow> (Inl (BlockFailure UndefinedBehaviour), s')
        | (Inr (Some prev), s') \<Rightarrow>
            (case validate_remove (no_crypto n) (no_doughnut n) (no_tail n) rs prev of
               Inl e \<Rightarrow> (Inl (BlockFailure e), s')
             | Inr val \<Rightarrow>
                 if vr_success val then local_erase k s'
                 else if vr_is_conflict val then (Inl (Conflict (vr_reason val) prev), s')
                 else (Inl (ValidationFailed (vr_reason val)), s')))"

section \<open>Remote calls\<close>

text \<open>
  The session of a remote caller: the challenge it was sent, the passport it presented
  (\<^verbatim>\<open>_passports\<close> of its server), the key of the session once it is authenticated and the
  identifier it gave.
\<close>

record 'k session =
  se_challenge :: buffer
  se_passport :: "'k passport option"
  se_key :: "buffer option"
  se_id :: "address option"

definition session_new :: "'k session" where
  "session_new = \<lparr>se_challenge = [], se_passport = None, se_key = None, se_id = None\<rparr>"

text \<open>
  \<^verbatim>\<open>auth_syn\<close>: \<open>n\<close> is the fuel of the verification of passports, \<open>self\<close> the identifier of the
  node and \<open>challenge\<close> the generated one. A second call does not replace the passport of
  the first.
\<close>

definition auth_syn_passport ::
  "nat \<Rightarrow> ('k, 's) node \<Rightarrow> 'k passport \<Rightarrow> buffer \<Rightarrow> 'k session \<Rightarrow> (('k, 's) local_error + unit) \<times> 'k session" where
  "auth_syn_passport n no p challenge se =
     (case doughnut_verify n (no_crypto no) (no_doughnut no) p False False False of
        Inl e \<Rightarrow> (Inl (BlockFailure e), se)
      | Inr False \<Rightarrow> (Inl (AccessDenied ''Passport validation failed''), se)
      | Inr True \<Rightarrow>
          (Inr (), se\<lparr>se_challenge := challenge,
                      se_passport := (case se_passport se of None \<Rightarrow> Some p | Some q \<Rightarrow> Some q)\<rparr>))"

definition auth_syn ::
  "nat \<Rightarrow> ('k, 's) node \<Rightarrow> address \<Rightarrow> address \<Rightarrow> 'k passport \<Rightarrow> version \<Rightarrow> buffer \<Rightarrow> 'k session
     \<Rightarrow> (('k, 's) local_error + unit) \<times> 'k session" where
  "auth_syn n no self i p v challenge se =
     (let dv = dn_version (no_doughnut no); wrong = major v \<noteq> major dv \<or> minor v \<noteq> minor dv in
      if Version 0 7 0 \<le> dv then
        let se' = se\<lparr>se_id := Some i\<rparr> in
        if addr_eq self i then (Inl (AccessDenied ''incoming peer has same id as us''), se')
        else if wrong then (Inl (AccessDenied ''invalid version''), se')
        else auth_syn_passport n no p challenge se'
      else if Version 0 4 0 \<le> dv then
        if wrong then (Inl (AccessDenied ''invalid version''), se)
        else auth_syn_passport n no p challenge se
      else auth_syn_passport n no p challenge se)"

text \<open>\<^verbatim>\<open>_passports.at\<close> throws \<^verbatim>\<open>std::out_of_range\<close>.\<close>

definition auth_ack ::
  "bool \<Rightarrow> ('k, 's) node \<Rightarrow> buffer \<Rightarrow> buffer \<Rightarrow> 'k session \<Rightarrow> (('k, 's) local_error + unit) \<times> 'k session" where
  "auth_ack encrypt_rpc no enc_key signed_challenge se =
     (if se_challenge se = [] then (Inl (AccessDenied ''auth_syn must be called before auth_ack''), se)
      else case se_passport se of
             None \<Rightarrow> (Inl (AccessDenied ''out_of_range''), se)
           | Some p \<Rightarrow>
               if \<not> ci_verify (no_crypto no) (pp_user p) signed_challenge (Bytes (se_challenge se))
               then (Inl (AccessDenied ''Challenge verification failed''), se)
               else case ci_open (no_crypto no) (dn_k (no_doughnut no)) enc_key of
                      None \<Rightarrow> (Inl (BlockFailure (ElleErr ''unable to open'')), se)
                    | Some password \<Rightarrow>
                        (Inr (), if encrypt_rpc then se\<lparr>se_key := Some password\<rparr> else se))"

definition require_auth :: "bool \<Rightarrow> 'k session \<Rightarrow> bool \<Rightarrow> ('k, 's) local_error + unit" where
  "require_auth encrypt_rpc se write_op =
     (if \<not> encrypt_rpc then Inr ()
      else if se_key se = None then Inl (AccessDenied ''Authentication required'')
      else if write_op then
        (case se_passport se of
           None \<Rightarrow> Inl (AccessDenied ''out_of_range'')
         | Some p \<Rightarrow> if \<not> pp_allow_write p then Inl (AccessDenied ''Write permission denied'') else Inr ())
      else Inr ())"

datatype ('k, 's) request =
    RpcStore "('k, 's) any_block" store_mode
  | RpcFetch key
  | RpcRemove key "('k, 's) remove_signature"

datatype ('k, 's) reply = Done | Fetched "('k, 's) any_block option"

definition reply_with :: "('a \<Rightarrow> ('k, 's) reply) \<Rightarrow> (('k, 's) local_error + 'a) \<times> silo
    \<Rightarrow> (('k, 's) local_error + ('k, 's) reply) \<times> silo" where
  "reply_with f r = (bind_res (fst r) (\<lambda>x. Inr (f x)), snd r)"

text \<open>The procedures \<^verbatim>\<open>store\<close>, \<^verbatim>\<open>fetch\<close> and \<^verbatim>\<open>remove\<close>; the last takes no signature before 0.4.0.\<close>

definition local_rpc ::
  "bool \<Rightarrow> ('k, 's) node \<Rightarrow> 'k session \<Rightarrow> ('k, 's) request \<Rightarrow> silo
     \<Rightarrow> (('k, 's) local_error + ('k, 's) reply) \<times> silo" where
  "local_rpc encrypt_rpc n se req s =
     (case require_auth encrypt_rpc se (case req of RpcFetch _ \<Rightarrow> False | _ \<Rightarrow> True) of
        Inl e \<Rightarrow> (Inl e, s)
      | Inr _ \<Rightarrow>
          (case req of
             RpcStore b mode \<Rightarrow> reply_with (\<lambda>_. Done) (local_store n b mode s)
           | RpcFetch k \<Rightarrow> reply_with Fetched (local_fetch n k s)
           | RpcRemove k rs \<Rightarrow>
               reply_with (\<lambda>_. Done)
                 (local_remove n k
                    (if dn_version (no_doughnut n) < Version 0 4 0 then rs_empty else rs) s)))"

text \<open>What a caller may send, with the challenge a synchronisation is answered with.\<close>

datatype ('k, 's) event =
    Syn address "'k passport" version buffer
  | Ack buffer buffer
  | Call "('k, 's) request"

fun session_step ::
  "nat \<Rightarrow> bool \<Rightarrow> ('k, 's) node \<Rightarrow> address \<Rightarrow> ('k, 's) event \<Rightarrow> 'k session \<times> silo \<Rightarrow> 'k session \<times> silo" where
  "session_step f enc no self (Syn i p v ch) (se, s) = (snd (auth_syn f no self i p v ch se), s)"
| "session_step f enc no self (Ack key sg) (se, s) = (snd (auth_ack enc no key sg se), s)"
| "session_step f enc no self (Call req) (se, s) = (se, snd (local_rpc enc no se req s))"

definition session_run ::
  "nat \<Rightarrow> bool \<Rightarrow> ('k, 's) node \<Rightarrow> address \<Rightarrow> ('k, 's) event list \<Rightarrow> 'k session \<times> silo \<Rightarrow> 'k session \<times> silo" where
  "session_run f enc no self es st = fold (session_step f enc no self) es st"

section \<open>Effects on the contents of the silo\<close>

lemma silo_get_unbounded:
  "silo_unbounded s \<Longrightarrow> silo_unbounded (snd (silo_get cp s k))"
  "backend_unbounded b be \<Longrightarrow> backend_unbounded b (snd (backend_get cp be k))"
  "all_unbounded ss \<Longrightarrow> all_unbounded (snd (nth_get cp ss i k))"
  by (induction cp s k and cp be k and cp ss i k arbitrary: and b rule: silo_get_backend_get_nth_get.induct)
    (auto simp: Let_def split: prod.splits sum.splits if_splits)

lemma silo_get_effect:
  assumes "silo_good cp s" and "silo_get cp s k = (r, s')"
  shows "r = get_spec (silo_map cp s) k" "silo_map cp s' = silo_map cp s" "silo_good cp s'"
  using assms silo_get_refines [of cp s k] silo_get_unbounded(1) [of s cp k]
  by (auto simp: silo_good_def)


text \<open>The stored bytes, and the block a node reads at a key.\<close>

abbreviation stored :: "('k, 's) node \<Rightarrow> silo \<Rightarrow> key \<Rightarrow> buffer option" where
  "stored n \<equiv> silo_map (no_cipher n)"

abbreviation read_block :: "('k, 's) node \<Rightarrow> buffer \<Rightarrow> ser_error + ('k, 's) any_block option \<times> buffer" where
  "read_block n \<equiv> deserialize_any (no_wire n) (no_crypto n) (no_doughnut n)"

lemma local_write_effect:
  assumes "silo_good (no_cipher n) s" and "length (block_key b) = value_size"
    and "local_write n b mode s = (r, s')"
  shows "silo_good (no_cipher n) s' \<and>
    (case set_error (stored n s) (block_key b) (mode = STORE_INSERT) (mode = STORE_UPDATE) of
       None \<Rightarrow> r = Inr () \<and> stored n s' = (stored n s)(block_key b \<mapsto> serialize_any (no_wire n) b)
     | Some e \<Rightarrow> r = Inl (case e of MissingKey _ \<Rightarrow> BlockMissing (block_key b) | _ \<Rightarrow> SiloFailure e) \<and>
         stored n s' = stored n s)"
proof -
  let ?m = "stored n s" and ?k = "block_key b" and ?i = "mode = STORE_INSERT" and ?u = "mode = STORE_UPDATE"
  obtain q t where t: "silo_set (no_cipher n) s ?k (serialize_any (no_wire n) b) ?i ?u = (q, t)" by fastforce
  have "op_wf (OpSet ?k (serialize_any (no_wire n) b) ?i ?u)" using assms(2) by (cases mode) simp_all
  from store.put_law [OF assms(1) this] t
  have "set_spec ?m ?k (serialize_any (no_wire n) b) ?i ?u q (stored n t)" "silo_good (no_cipher n) t" by simp_all
  with t assms(3) show ?thesis
    by (auto simp: set_spec_def local_write_def split: option.splits silo_error.splits sum.splits)
qed

lemma local_store_effect:
  assumes "silo_good (no_cipher n) s" and "length (block_key b) = value_size"
    and "local_store n b mode s = (r, s')"
  shows "silo_good (no_cipher n) s'" "r \<noteq> Inr () \<Longrightarrow> stored n s' = stored n s"
    "r = Inr () \<Longrightarrow> stored n s' = (stored n s)(block_key b \<mapsto> serialize_any (no_wire n) b) \<and>
       (\<exists>v. validate_block (no_crypto n) (no_doughnut n) True b = Inr v \<and> vr_success v) \<and>
       (\<forall>buf. stored n s (block_key b) = Some buf \<longrightarrow>
          (\<exists>prev rest. read_block n buf = Inr (prev, rest) \<and> check_previous prev b = Inr ()))"
proof -
  obtain q t where t: "silo_get (no_cipher n) s (block_key b) = (q, t)" by fastforce
  note get = silo_get_effect [OF assms(1) t]
  obtain r2 t2 where w: "local_write n b mode t = (r2, t2)" by fastforce
  note wr = local_write_effect [OF get(3) assms(2) w]
  have w2: "silo_good (no_cipher n) t2" "r2 \<noteq> Inr () \<Longrightarrow> stored n t2 = stored n s"
    "r2 = Inr () \<Longrightarrow> stored n t2 = (stored n s)(block_key b \<mapsto> serialize_any (no_wire n) b)"
    using wr get(2) by (auto split: option.splits)
  show "silo_good (no_cipher n) s'" "r \<noteq> Inr () \<Longrightarrow> stored n s' = stored n s"
    "r = Inr () \<Longrightarrow> stored n s' = (stored n s)(block_key b \<mapsto> serialize_any (no_wire n) b) \<and>
       (\<exists>v. validate_block (no_crypto n) (no_doughnut n) True b = Inr v \<and> vr_success v) \<and>
       (\<forall>buf. stored n s (block_key b) = Some buf \<longrightarrow>
          (\<exists>prev rest. read_block n buf = Inr (prev, rest) \<and> check_previous prev b = Inr ()))"
    using assms(1,3) t get w w2
    by (auto simp: local_store_def get_spec_def split: sum.splits if_splits option.splits silo_error.splits prod.splits)
qed

lemma local_fetch_effect:
  assumes "silo_good (no_cipher n) s" and "local_fetch n k s = (r, s')"
  shows "silo_good (no_cipher n) s'" "stored n s' = stored n s"
    "r = (case stored n s k of
            None \<Rightarrow> Inl (BlockMissing k)
          | Some buf \<Rightarrow> (case read_block n buf of Inl e \<Rightarrow> Inl (ReadFailure e) | Inr (b, _) \<Rightarrow> Inr b))"
proof -
  obtain q t where t: "silo_get (no_cipher n) s k = (q, t)" by fastforce
  note get = silo_get_effect [OF assms(1) t]
  show "silo_good (no_cipher n) s'" "stored n s' = stored n s"
    "r = (case stored n s k of
            None \<Rightarrow> Inl (BlockMissing k)
          | Some buf \<Rightarrow> (case read_block n buf of Inl e \<Rightarrow> Inl (ReadFailure e) | Inr (b, _) \<Rightarrow> Inr b))"
    using assms(2) t get
    by (auto simp: local_fetch_def get_spec_def split: sum.splits option.splits prod.splits)
qed

lemma local_erase_effect:
  assumes "silo_good (no_cipher n) s" and "local_erase k s = (r, s')"
  shows "silo_good (no_cipher n) s'" "r \<noteq> Inr () \<Longrightarrow> stored n s' = stored n s"
    "r = Inr () \<Longrightarrow> stored n s' = (stored n s)(k := None)"
proof -
  obtain q t where t: "silo_erase s k = (q, t)" by fastforce
  show "silo_good (no_cipher n) s'" "r \<noteq> Inr () \<Longrightarrow> stored n s' = stored n s"
    "r = Inr () \<Longrightarrow> stored n s' = (stored n s)(k := None)"
    using store.erase_law [OF assms(1), of k] t assms(2)
    by (auto simp: local_erase_def erase_spec_def split: if_splits)
qed

lemma local_remove_effect:
  assumes "silo_good (no_cipher n) s" and "local_remove n k rs s = (r, s')"
  shows "silo_good (no_cipher n) s'" "r \<noteq> Inr () \<Longrightarrow> stored n s' = stored n s"
    "r = Inr () \<Longrightarrow> stored n s' = (stored n s)(k := None) \<and>
       (Version 0 4 0 \<le> dn_version (no_doughnut n) \<longrightarrow>
         (\<exists>buf b rest v. stored n s k = Some buf \<and> read_block n buf = Inr (Some b, rest) \<and>
            validate_remove (no_crypto n) (no_doughnut n) (no_tail n) rs b = Inr v \<and> vr_success v))"
proof -
  obtain q t where t: "local_fetch n k s = (q, t)" by fastforce
  note ft = local_fetch_effect [OF assms(1) t]
  obtain r1 :: "('a, 'b) local_error + unit" and t1 where e1: "local_erase k s = (r1, t1)" by fastforce
  obtain r2 :: "('a, 'b) local_error + unit" and t2 where e2: "local_erase k t = (r2, t2)" by fastforce
  note er = local_erase_effect [OF assms(1) e1] local_erase_effect [OF ft(1) e2]
  show "silo_good (no_cipher n) s'" "r \<noteq> Inr () \<Longrightarrow> stored n s' = stored n s"
    "r = Inr () \<Longrightarrow> stored n s' = (stored n s)(k := None) \<and>
       (Version 0 4 0 \<le> dn_version (no_doughnut n) \<longrightarrow>
         (\<exists>buf b rest v. stored n s k = Some buf \<and> read_block n buf = Inr (Some b, rest) \<and>
            validate_remove (no_crypto n) (no_doughnut n) (no_tail n) rs b = Inr v \<and> vr_success v))"
    using assms t ft e1 e2 er
    by (auto simp: local_remove_def not_less split: sum.splits option.splits if_splits prod.splits)
qed

section \<open>Validity of what is stored\<close>

lemma okb_received_fields [simp]:
  "blk_address (okb_received d b) = blk_address b" "okb_owner_key (okb_received d b) = okb_owner_key b"
  "okb_salt (okb_received d b) = okb_salt b" "okb_signature (okb_received d b) = okb_signature b"
  "owner_object okb_body (okb_received d b) = owner_object okb_body b"
  by (simp_all add: okb_received_def owner_object_def okb_body_def fun_eq_iff)

lemma okb_validate_received [simp]:
  "okb_validate ci d okb_body (okb_received d b) = okb_validate ci d okb_body b"
  by (simp add: okb_validate_def okb_header_validate_def cong del: option.case_cong_weak)

lemma acb_received_fields [simp]:
  "blk_address (acb_received d b) = blk_address b" "okb_owner_key (acb_received d b) = okb_owner_key b"
  "okb_salt (acb_received d b) = okb_salt b" "okb_signature (acb_received d b) = okb_signature b"
  "acb_editor (acb_received d b) = acb_editor b" "acb_acl_entries (acb_received d b) = acb_acl_entries b"
  "acb_acl_group_entries (acb_received d b) = acb_acl_group_entries b"
  "acb_group_version (acb_received d b) = acb_group_version b"
  "acb_data_signature (acb_received d b) = acb_data_signature b"
  "acb_world_writable (acb_received d b) = acb_world_writable b"
  "owner_object acb_body (acb_received d b) = owner_object acb_body b"
  "acb_data_object (acb_received d b) = acb_data_object b"
  by (simp_all add: acb_received_def owner_object_def acb_body_def acb_data_object_def fun_eq_iff)

text \<open>Validation reads these fields only.\<close>

lemma acb_validate_with_cong:
  assumes "blk_address c = blk_address b" "okb_owner_key c = okb_owner_key b" "okb_salt c = okb_salt b"
    "okb_signature c = okb_signature b" "acb_editor c = acb_editor b" "acb_acl_entries c = acb_acl_entries b"
    "acb_acl_group_entries c = acb_acl_group_entries b" "acb_group_version c = acb_group_version b"
    "acb_data_signature c = acb_data_signature b" "acb_world_writable c = acb_world_writable b"
    "owner_object body c = owner_object body b" "dobj c = dobj b"
  shows "acb_validate_with ci d body dobj w c = acb_validate_with ci d body dobj w b"
proof -
  have "okb_validate ci d body c = okb_validate ci d body b"
    by (simp add: okb_validate_def okb_header_validate_def assms cong del: option.case_cong_weak)
  moreover have "author_entry c = author_entry b" by (simp only: author_entry_def assms)
  moreover have vd: "verify_data ci key dobj c = verify_data ci key dobj b" for key by (simp only: verify_data_def assms)
  moreover have "validate_author ci d dobj a c = validate_author ci d dobj a b" for a
    by (simp only: validate_author_def validate_group_author_def assms vd)
  moreover have "validate_admin_keys d c = validate_admin_keys d b"
    by (simp add: validate_admin_keys_def missing_admin_def assms)
  ultimately show ?thesis by (simp only: acb_validate_with_def assms(10))
qed

lemma unvalidated: "\<not> blk_validated b \<Longrightarrow> b\<lparr>blk_validated := False\<rparr> = b"
  by (cases b) simp

lemma gb_received_form:
  assumes "gb_received ci d g = Inr g'"
  shows "\<exists>pk. g' = (acb_received d g)\<lparr>gb_keys := [], okb_owner_private_key := pk\<rparr>"
proof (cases "gb_admin_keys (acb_received d g) (dn_K d)")
  case None
  then have "g' = (acb_received d g)\<lparr>gb_keys := [], okb_owner_private_key := okb_owner_private_key (acb_received d g)\<rparr>"
    using assms by (intro gb.equality) (auto simp: gb_received_def Let_def)
  then show ?thesis by blast
next
  case (Some sealed)
  then show ?thesis using assms by (auto simp: gb_received_def Let_def split: option.splits)
qed

lemma validate_received:
  assumes "block_received ci d b = Inr b'" and "\<not> blk_validated (base_block b)"
  shows "validate_block ci d w b' = validate_block ci d w b" "block_address b' = block_address b"
    "mutable_version b' = mutable_version b"
proof -
  have "validate_block ci d w b' = validate_block ci d w b \<and> block_address b' = block_address b \<and>
      mutable_version b' = mutable_version b"
  proof (cases b)
    case (GB g)
    obtain g' pk where g': "b' = GB g'" "g' = (acb_received d g)\<lparr>gb_keys := [], okb_owner_private_key := pk\<rparr>"
      using assms(1) gb_received_form unfolding GB block_received_def any_block.case bind_res_eq_Inr by blast
    have "gb_validate ci d w g' = gb_validate ci d w g" unfolding gb_validate_def
      by (rule acb_validate_with_cong)
        (simp_all add: g' acb_received_def owner_object_def gb_body_def gb_data_object_def acb_body_def
          acb_data_object_def fun_eq_iff)
    moreover have "blk_address g' = blk_address g" "blk_validated g' = False" "acb_data_version g' = acb_data_version g"
      by (simp_all add: g' acb_received_def)
    ultimately show ?thesis
      using assms(2) by (simp add: GB g'(1) validate_block_def base_block_def block_address_def mutable_version_def
          block.truncate_def)
  next
    case (ACB a)
    have "acb_validate ci d w (acb_received d a) = acb_validate ci d w a" unfolding acb_validate_def
      by (rule acb_validate_with_cong) simp_all
    then show ?thesis using assms
      by (auto simp: ACB block_received_def validate_block_def base_block_def block_address_def mutable_version_def
          block.truncate_def acb_received_def)
  next
    case (OKB c)
    have "blk_validated (okb_received d c) = False" "okb_version (okb_received d c) = okb_version c"
      by (simp_all add: okb_received_def)
    then show ?thesis using assms
      by (auto simp: OKB block_received_def validate_block_def base_block_def block_address_def mutable_version_def
          block.truncate_def)
  qed (use assms in \<open>auto simp: block_received_def base_block_def block.truncate_def unvalidated\<close>)
  then show "validate_block ci d w b' = validate_block ci d w b" "block_address b' = block_address b"
    "mutable_version b' = mutable_version b" by blast+
qed

section \<open>The node over time\<close>

definition node_ok :: "('k, 's) node \<Rightarrow> bool" where
  "node_ok n \<longleftrightarrow> wire_laws (no_wire n) \<and> Version 0 8 0 \<le> wi_memo (no_wire n)"

text \<open>
  A block received from a caller: its sizes fit, it was not validated before, and the node
  can read it back.
\<close>

definition block_acceptable :: "('k, 's) node \<Rightarrow> ('k, 's) any_block \<Rightarrow> bool" where
  "block_acceptable n b \<longleftrightarrow> wire_ok (no_wire n) (no_doughnut n) b \<and> \<not> blk_validated (base_block b) \<and>
     (\<exists>b'. block_received (no_crypto n) (no_doughnut n) b = Inr b')"

definition valid_at :: "('k, 's) node \<Rightarrow> key \<Rightarrow> buffer \<Rightarrow> bool" where
  "valid_at n k buf \<longleftrightarrow>
     (\<exists>b v. read_block n buf = Inr (Some b, []) \<and> block_key b = k \<and>
        validate_block (no_crypto n) (no_doughnut n) True b = Inr v \<and> vr_success v)"

text \<open>Every stored buffer is a block that validates for writing, at its address.\<close>

definition holds_valid :: "('k, 's) node \<Rightarrow> silo \<Rightarrow> bool" where
  "holds_valid n s \<longleftrightarrow> (\<forall>k buf. stored n s k = Some buf \<longrightarrow> valid_at n k buf)"

text \<open>The data version of the access-controlled block stored at a key.\<close>

definition acl_version :: "('k, 's) node \<Rightarrow> silo \<Rightarrow> key \<Rightarrow> int option" where
  "acl_version n s k = Option.bind (stored n s k) (\<lambda>buf.
     case read_block n buf of
       Inr (Some (ACB b), _) \<Rightarrow> Some (acb_data_version b)
     | Inr (Some (GB b), _) \<Rightarrow> Some (acb_data_version b)
     | _ \<Rightarrow> None)"

lemma acceptable_key:
  assumes "block_acceptable n b"
  shows "length (block_key b) = value_size"
  using assms
  by (cases b) (auto simp: block_acceptable_def wire_ok_def acb_ok_def okb_ok_def gb_ok_def block_ok_def addr_ok_def addr_wf_def
      block_address_def base_block_def block.truncate_def)

lemma acceptable_read:
  assumes "node_ok n" and "block_acceptable n b"
    and "block_received (no_crypto n) (no_doughnut n) b = Inr b'"
  shows "read_block n (serialize_any (no_wire n) b) = Inr (Some b', [])"
  using assms by (intro any_read) (simp_all add: node_ok_def block_acceptable_def)

lemma stored_valid_at:
  assumes "node_ok n" and "block_acceptable n b"
    and "validate_block (no_crypto n) (no_doughnut n) True b = Inr v" and "vr_success v"
  shows "valid_at n (block_key b) (serialize_any (no_wire n) b)"
proof -
  obtain b' where b': "block_received (no_crypto n) (no_doughnut n) b = Inr b'" "\<not> blk_validated (base_block b)"
    using assms(2) by (auto simp: block_acceptable_def)
  with acceptable_read [OF assms(1,2) b'(1)] validate_received [OF b'] assms(3,4)
  show ?thesis by (auto simp: valid_at_def)
qed

text \<open>A block that replaces an access-controlled one is of its class and has a greater version.\<close>

lemma check_previous_acl:
  assumes "check_previous (Some p) b = Inr ()"
  shows "p = ACB a \<Longrightarrow> \<exists>c. b = ACB c \<and> acb_data_version a < acb_data_version c"
    and "p = GB g \<Longrightarrow> \<exists>c. b = GB c \<and> acb_data_version g < acb_data_version c"
  using assms
  by (cases b; auto simp: check_previous_def mutable_version_def validate_over_def vr_then_def Let_def
      split: if_splits sum.splits)+

lemma acl_version_update:
  assumes "node_ok n" and "block_acceptable n b" and "check_previous prev b = Inr ()"
    and "stored n s (block_key b) = Some buf" and "read_block n buf = Inr (prev, rest)"
    and "stored n s' = (stored n s)(block_key b \<mapsto> serialize_any (no_wire n) b)"
  shows "acl_version n s (block_key b) \<le> acl_version n s' (block_key b)"
proof -
  obtain b' where b': "block_received (no_crypto n) (no_doughnut n) b = Inr b'" "\<not> blk_validated (base_block b)"
    using assms(2) by (auto simp: block_acceptable_def)
  note rd = acceptable_read [OF assms(1,2) b'(1)]
  show ?thesis
  proof (cases "acl_version n s (block_key b)")
    case (Some v)
    then obtain p where p: "prev = Some p" "(\<exists>a. p = ACB a \<and> v = acb_data_version a) \<or> (\<exists>g. p = GB g \<and> v = acb_data_version g)"
      using assms(4,5) by (auto simp: acl_version_def split: option.splits any_block.splits)
    then have "\<exists>w. v < w \<and> ((\<exists>a. b = ACB a \<and> w = acb_data_version a) \<or> (\<exists>g. b = GB g \<and> w = acb_data_version g))"
      using check_previous_acl [OF assms(3) [unfolded p(1)]] by blast
    then have "\<exists>w. v < w \<and> acl_version n s' (block_key b) = Some w"
      using b'(1) rd assms(6)
      by (auto simp: acl_version_def block_received_def acb_received_def bind_res_eq_Inr dest!: gb_received_form)
    with Some show ?thesis by auto
  qed simp
qed

definition request_ok :: "('k, 's) node \<Rightarrow> ('k, 's) event \<Rightarrow> bool" where
  "request_ok n e \<longleftrightarrow> (\<forall>b mode. e = Call (RpcStore b mode) \<longrightarrow> block_acceptable n b)"

text \<open>The invariant of the storage, and what a step keeps at a key that is not removed.\<close>

lemma local_store_keeps:
  assumes "node_ok n" and "silo_good (no_cipher n) s" and "holds_valid n s" and "block_acceptable n b"
    and "local_store n b mode s = (r, s')"
  shows "silo_good (no_cipher n) s' \<and> holds_valid n s' \<and> acl_version n s k \<le> acl_version n s' k"
proof -
  note eff = local_store_effect [OF assms(2) acceptable_key [OF assms(4)] assms(5)]
  show ?thesis
  proof (cases "r = Inr ()")
    case True
    note ok = eff(3) [OF True]
    then have "holds_valid n s'"
      using assms(3) stored_valid_at [OF assms(1,4)] by (auto simp: holds_valid_def)
    moreover have "acl_version n s k \<le> acl_version n s' k"
    proof (cases "k = block_key b \<and> stored n s k \<noteq> None")
      case True
      then show ?thesis using ok acl_version_update [OF assms(1,4)] by blast
    next
      case False
      then show ?thesis using ok by (auto simp: acl_version_def)
    qed
    ultimately show ?thesis using eff(1) by blast
  next
    case False
    then show ?thesis using eff(1,2) assms(3) by (simp add: holds_valid_def acl_version_def)
  qed
qed

lemma local_remove_keeps:
  assumes "silo_good (no_cipher n) s" and "holds_valid n s" and "local_remove n k' rs s = (r, s')"
  shows "silo_good (no_cipher n) s' \<and> holds_valid n s' \<and> (k \<noteq> k' \<longrightarrow> acl_version n s k \<le> acl_version n s' k)"
  using local_remove_effect [OF assms(1,3)] assms(2)
  by (cases "r = Inr ()") (auto simp: holds_valid_def acl_version_def)

lemma local_fetch_keeps:
  assumes "silo_good (no_cipher n) s" and "holds_valid n s" and "local_fetch n k' s = (r, s')"
  shows "silo_good (no_cipher n) s' \<and> holds_valid n s' \<and> acl_version n s k = acl_version n s' k"
  using local_fetch_effect [OF assms(1,3)] assms(2) by (simp add: holds_valid_def acl_version_def)

lemma session_step_keeps:
  assumes "node_ok n" and "silo_good (no_cipher n) s" and "holds_valid n s" and "request_ok n e"
    and "session_step f enc n self e (se, s) = (se', s')"
  shows "silo_good (no_cipher n) s' \<and> holds_valid n s' \<and>
    ((\<forall>rs. e \<noteq> Call (RpcRemove k rs)) \<longrightarrow> acl_version n s k \<le> acl_version n s' k)"
proof (cases "s' = s")
  case False
  then obtain req where e: "e = Call req" "s' = snd (local_rpc enc n se req s)"
    using assms(5) by (cases e) auto
  with False have auth: "require_auth enc se (case req of RpcFetch _ \<Rightarrow> False | _ \<Rightarrow> True) = (Inr () :: ('a, 'b) local_error + unit)"
    by (cases "require_auth enc se (case req of RpcFetch _ \<Rightarrow> False | _ \<Rightarrow> True) :: ('a, 'b) local_error + unit")
      (auto simp: local_rpc_def)
  show ?thesis
  proof (cases req)
    case (RpcStore b mode)
    with e auth have "s' = snd (local_store n b mode s)" by (simp add: local_rpc_def reply_with_def)
    moreover have "block_acceptable n b" using assms(4) e RpcStore by (simp add: request_ok_def)
    ultimately show ?thesis using local_store_keeps [OF assms(1-3)] by (metis prod.collapse)
  next
    case (RpcFetch k')
    with e auth have "s' = snd (local_fetch n k' s)" by (simp add: local_rpc_def reply_with_def)
    then show ?thesis using local_fetch_keeps [OF assms(2,3)] by (metis order.refl prod.collapse)
  next
    case (RpcRemove k' rs)
    with e auth obtain rs' where "s' = snd (local_remove n k' rs' s)"
      by (simp add: local_rpc_def reply_with_def)
    then show ?thesis using local_remove_keeps [OF assms(2,3)] e RpcRemove by (metis prod.collapse)
  qed
qed (use assms in simp)

lemma session_run_Cons [simp]:
  "session_run f enc n self (e # es) st = session_run f enc n self es (session_step f enc n self e st)"
  "session_run f enc n self [] st = st"
  by (simp_all add: session_run_def)

text \<open>What the session of a caller knows, given the events so far.\<close>

definition session_inv :: "nat \<Rightarrow> ('k, 's) node \<Rightarrow> ('k, 's) event set \<Rightarrow> 'k session \<Rightarrow> bool" where
  "session_inv f n E se \<longleftrightarrow>
     (\<forall>p. se_passport se = Some p \<longrightarrow>
        doughnut_verify f (no_crypto n) (no_doughnut n) p False False False = Inr True \<and>
        (\<exists>i v ch. Syn i p v ch \<in> E)) \<and>
     (se_challenge se \<noteq> [] \<longrightarrow> (\<exists>i q v. Syn i q v (se_challenge se) \<in> E)) \<and>
     (se_key se \<noteq> None \<longrightarrow> (\<exists>p i q v ch key sg. se_passport se = Some p \<and> Syn i q v ch \<in> E \<and> Ack key sg \<in> E \<and>
        ci_verify (no_crypto n) (pp_user p) sg (Bytes ch)))"

lemma session_inv_mono: "session_inv f n E se \<Longrightarrow> E \<subseteq> E' \<Longrightarrow> session_inv f n E' se"
  unfolding session_inv_def by (meson subsetD)

lemma session_inv_id [simp]: "session_inv f n E (se\<lparr>se_id := i\<rparr>) = session_inv f n E se"
  by (simp add: session_inv_def)

lemma auth_syn_passport_inv:
  assumes "session_inv f n E se" and "Syn i p v ch \<in> E"
  shows "session_inv f n E (snd (auth_syn_passport f n p ch se))"
proof (cases "doughnut_verify f (no_crypto n) (no_doughnut n) p False False False = Inr True")
  case True
  then show ?thesis using assms
    unfolding session_inv_def auth_syn_passport_def
    by (cases "se_passport se") auto
next
  case False
  then have "snd (auth_syn_passport f n p ch se) = se"
    by (auto simp: auth_syn_passport_def split: sum.splits bool.splits)
  then show ?thesis using assms(1) by simp
qed

lemma auth_ack_inv:
  assumes "session_inv f n E se" and "Ack key sg \<in> E"
  shows "session_inv f n E (snd (auth_ack enc n key sg se))"
proof (cases "snd (auth_ack enc n key sg se) = se")
  case False
  then obtain p pw where p: "se_challenge se \<noteq> []" "se_passport se = Some p"
    "ci_verify (no_crypto n) (pp_user p) sg (Bytes (se_challenge se))"
    "snd (auth_ack enc n key sg se) = se\<lparr>se_key := Some pw\<rparr>"
    by (auto simp: auth_ack_def split: if_splits option.splits)
  then show ?thesis using assms unfolding session_inv_def by fastforce
qed (use assms in simp)

lemma session_step_inv:
  assumes "session_inv f n E se" and "session_step f enc n self e (se, s) = (se', s')"
  shows "session_inv f n (insert e E) se'"
proof -
  note inv = session_inv_mono [OF assms(1) subset_insertI, of e]
  show ?thesis
  proof (cases e)
    case (Syn i p v ch)
    then have "Syn i p v ch \<in> insert e E" by simp
    note psp = auth_syn_passport_inv [OF _ this]
    have "se' = snd (auth_syn f n self i p v ch se)" using assms(2) Syn by simp
    then show ?thesis using inv psp [of f n se] psp [of f n "se\<lparr>se_id := Some i\<rparr>"]
      by (auto simp: auth_syn_def Let_def)
  next
    case (Ack key sg)
    then show ?thesis using assms(2) auth_ack_inv [OF inv, of key sg enc] by simp
  qed (use assms(2) inv in simp)
qed

lemma session_run_inv:
  assumes "session_inv f n E se" and "session_run f enc n self es (se, s) = (se', s')"
  shows "session_inv f n (set es \<union> E) se'"
  using assms
proof (induction es arbitrary: E se s)
  case (Cons e es)
  obtain se1 s1 where st: "session_step f enc n self e (se, s) = (se1, s1)" by fastforce
  from session_step_inv [OF Cons.prems(1) this] have "session_inv f n (insert e E) se1" .
  from Cons.IH [OF this] Cons.prems(2) st show ?case by simp
qed simp

section \<open>Properties of a node\<close>

text \<open>
  C7. On a silo without a limit, whatever sequence of requests callers send, as long as the
  blocks in them can be read back (their sizes fit, a block with an owner key was sealed),
  everything the node stores is a block that validates for writing at the address it is
  stored at; and the access-controlled block at an address stays one, and its version never
  decreases, until it is removed.
\<close>

theorem node_history:
  assumes "node_ok n" and "silo_good (no_cipher n) s" and "holds_valid n s" and "list_all (request_ok n) es"
    and "session_run f enc n self es (se, s) = (se', s')"
  shows "silo_good (no_cipher n) s' \<and> holds_valid n s' \<and>
    ((\<forall>rs. Call (RpcRemove k rs) \<notin> set es) \<longrightarrow> acl_version n s k \<le> acl_version n s' k)"
  using assms
proof (induction es arbitrary: se s)
  case (Cons e es)
  obtain se1 s1 where st: "session_step f enc n self e (se, s) = (se1, s1)" by fastforce
  have "silo_good (no_cipher n) s1 \<and> holds_valid n s1 \<and>
      ((\<forall>rs. e \<noteq> Call (RpcRemove k rs)) \<longrightarrow> acl_version n s k \<le> acl_version n s1 k)"
    using session_step_keeps [OF Cons.prems(1-3) _ st] Cons.prems(4) by simp
  moreover from this have "silo_good (no_cipher n) s' \<and> holds_valid n s' \<and>
      ((\<forall>rs. Call (RpcRemove k rs) \<notin> set es) \<longrightarrow> acl_version n s1 k \<le> acl_version n s' k)"
    using Cons.IH [of s1 se1] Cons.prems st by simp
  ultimately show ?case by (auto intro: order.trans)
qed simp

text \<open>
  C9. When calls are encrypted, a node carries out a store or a removal only for a caller
  that presented a passport the node accepts and that allows writing, and that signed a
  challenge of this session with the key of the passport.
\<close>

theorem authenticated_writes:
  assumes "session_run f True n self es (session_new, s) = (se, s')"
    and "local_rpc True n se req s' = (Inr Done, s'')"
  shows "\<exists>p i v ch j q w ch' key sg. Syn i p v ch \<in> set es \<and> pp_allow_write p \<and>
    doughnut_verify f (no_crypto n) (no_doughnut n) p False False False = Inr True \<and>
    Syn j q w ch' \<in> set es \<and> Ack key sg \<in> set es \<and> ci_verify (no_crypto n) (pp_user p) sg (Bytes ch')"
proof -
  have "session_inv f n (set es \<union> {}) se"
    by (rule session_run_inv [OF _ assms(1)]) (simp add: session_inv_def session_new_def)
  moreover have "\<exists>p. se_key se \<noteq> None \<and> se_passport se = Some p \<and> pp_allow_write p"
    using assms(2)
    by (auto simp: local_rpc_def require_auth_def reply_with_def bind_res_eq_Inr
        split: if_splits option.splits request.splits sum.splits)
  ultimately show ?thesis unfolding session_inv_def by fastforce
qed

lemma store_read_back:
  assumes "node_ok n" and "silo_good (no_cipher n) s" and "block_acceptable n b"
    and "block_received (no_crypto n) (no_doughnut n) b = Inr b'" and "local_store n b mode s = (Inr (), s')"
  shows "fst (local_fetch n k s') = (if k = block_key b then Inr (Some b') else fst (local_fetch n k s))"
proof -
  note eff = local_store_effect [OF assms(2) acceptable_key [OF assms(3)] assms(5)]
  obtain r t where t: "local_fetch n k s' = (r, t)" by fastforce
  obtain r0 t0 where t0: "local_fetch n k s = (r0, t0)" by fastforce
  show ?thesis
    using local_fetch_effect(3) [OF eff(1) t] local_fetch_effect(3) [OF assms(2) t0] eff(3)
      acceptable_read [OF assms(1,3,4)] t t0 by simp
qed

text \<open>
  C25. On a silo without a limit, a block that can be read back (its sizes fit, and if it has
  an owner key it was sealed) and that the node stored with success is given back, as the node
  reads it, and the blocks at other addresses are as before.
\<close>

theorem store_then_fetch:
  assumes "node_ok n" and "silo_good (no_cipher n) s" and "block_acceptable n b"
    and "block_received (no_crypto n) (no_doughnut n) b = Inr b'" and "local_store n b mode s = (Inr (), s')"
  shows "fst (local_fetch n (block_key b) s') = Inr (Some b') \<and>
    (\<forall>k. k \<noteq> block_key b \<longrightarrow> fst (local_fetch n k s') = fst (local_fetch n k s))"
  using store_read_back [OF assms] by simp

text \<open>
  C29. A mutable block whose version is not above that of the block stored at its address is
  refused with a conflict that carries the stored block, and the storage does not change.
\<close>

theorem stale_store_conflict:
  assumes "silo_good (no_cipher n) s"
    and "validate_block (no_crypto n) (no_doughnut n) True b = Inr v" and "vr_success v"
    and "stored n s (block_key b) = Some buf" and "read_block n buf = Inr (Some p, rest)"
    and "mutable_version b = Some i" and "mutable_version p = Some j" and "i \<le> j"
  shows "\<exists>reason s'. local_store n b mode s = (Inl (Conflict reason p), s') \<and> stored n s' = stored n s"
proof -
  obtain q t where t: "silo_get (no_cipher n) s (block_key b) = (q, t)" by fastforce
  note get = silo_get_effect [OF assms(1) t]
  have "q = Inr buf" using get(1) assms(4) by (simp add: get_spec_def)
  then have "local_store n b mode s = (Inl (Conflict ''version is not superior to current version'' p), t)"
    using assms(2,3,5-8) t by (simp add: local_store_def check_previous_def)
  then show ?thesis using get(2) by blast
qed

lemma plain_acceptable:
  assumes "addr_ok a" and "size_ok dat"
  shows "block_acceptable n (PlainBlock (block_new a dat addr_null))"
proof -
  have "addr_ok addr_null"
    by (simp add: addr_ok_def addr_null_def addr_wf_def addr_consistent_def value_size_def flag_byte_def)
  then show ?thesis using assms
    by (simp add: block_acceptable_def wire_ok_def block_ok_def block_new_def base_block_def block_received_def)
qed

text \<open>
  C16. A block of the base class, which anyone can make with any data, replaces any content
  hash block and any owner key block at its address: validation of the base class always
  succeeds, the version is compared only when the new block is mutable, and these classes
  let any block at their address replace them.
\<close>

theorem plain_block_overwrites:
  assumes "node_ok n" and "silo_good (no_cipher n) s" and "addr_ok a" and "size_ok dat"
    and "stored n s (addr_value a) = Some buf" and "read_block n buf = Inr (Some p, rest)"
    and "(\<exists>c. p = CHB c) \<or> (\<exists>c. p = OKB c)" and "block_address p = a"
  shows "\<exists>s'. local_store n (PlainBlock (block_new a dat addr_null)) STORE_UPDATE s = (Inr (), s') \<and>
    fst (local_fetch n (addr_value a) s') = Inr (Some (PlainBlock (block_new a dat addr_null)))"
proof -
  let ?b = "PlainBlock (block_new a dat addr_null) :: ('a, 'b) any_block"
  have k: "block_key ?b = addr_value a" by (simp add: block_address_def base_block_def block_new_def)
  obtain q t where t: "silo_get (no_cipher n) s (addr_value a) = (q, t)" by fastforce
  note get = silo_get_effect [OF assms(2) t]
  have q: "q = Inr buf" using get(1) assms(5) by (simp add: get_spec_def)
  have "validate_over p ?b = Inr vr_ok"
    using assms(7,8) by (auto simp: validate_over_def block_validate_over_def block_address_def base_block_def block_new_def)
  then have "check_previous (Some p) ?b = Inr ()" by (simp add: check_previous_def mutable_version_def)
  then have "local_store n ?b STORE_UPDATE s = local_write n ?b STORE_UPDATE t"
    using t q k assms(6) by (simp add: local_store_def validate_block_def base_block_def block_new_def)
  moreover obtain r s' where w: "local_write n ?b STORE_UPDATE t = (r, s')" by fastforce
  moreover have "r = Inr ()"
    using local_write_effect [OF get(3) acceptable_key [OF plain_acceptable [OF assms(3,4)]] w] get(2) assms(5) k
    by (simp add: set_error_def)
  ultimately have st: "local_store n ?b STORE_UPDATE s = (Inr (), s')" by simp
  have "block_received (no_crypto n) (no_doughnut n) ?b = Inr ?b" by (simp add: block_received_def block_new_def)
  from store_read_back [OF assms(1,2) plain_acceptable [OF assms(3,4)] this st, of "addr_value a"] st k
  show ?thesis by auto
qed

section \<open>Examples\<close>

text \<open>
  A node whose keys are bytes: a signature is the signing key, hashes are constant and
  nothing is enciphered.
\<close>

definition byte_crypto :: "(byte, byte) crypto" where
  "byte_crypto = \<lparr>ci_sha256 = (\<lambda>_. replicate 32 7), ci_der = (\<lambda>k. [k]), ci_json = (\<lambda>k. [k]),
     ci_sign = (\<lambda>s p. [s]), ci_verify = (\<lambda>k sg p. sg = [k]),
     ci_encrypt = (\<lambda>k b. b), ci_decrypt = (\<lambda>s b. Some b), ci_seal = (\<lambda>k b. b), ci_open = (\<lambda>s b. Some b),
     ci_encipher = (\<lambda>k b. b), ci_decipher = (\<lambda>k b. Some b),
     ci_secret_pack = (\<lambda>b. b), ci_secret_unpack = (\<lambda>b. Some b),
     ci_keys_pack = (\<lambda>ks. map fst ks), ci_keys_unpack = (\<lambda>b. Some (map (\<lambda>k. (k, k)) b)),
     ci_private_pack = (\<lambda>s. [s]), ci_private_unpack = (\<lambda>b. case b of [s] \<Rightarrow> Some s | _ \<Rightarrow> None)\<rparr>"

definition toy_local :: "(byte, byte) node" where
  "toy_local = \<lparr>no_wire = toy_wire, no_crypto = byte_crypto, no_doughnut = toy_node,
     no_cipher = reversing_cipher, no_tail = [0, 0]\<rparr>"

definition toy_content :: "(byte, byte) any_block" where
  "toy_content = CHB (chb_new byte_crypto toy_node [1, 2] [3] addr_null)"

text \<open>User 4, whose passport the owner of the network signed.\<close>

definition toy_passport :: "byte passport" where
  "toy_passport = passport_new byte_crypto 4 ''net'' (1, 1) False True False False"

definition toy_events :: "(byte, byte) event list" where
  "toy_events = [Syn (addr_flagged (replicate 32 1) 0 True) toy_passport (Version 0 9 0) [5], Ack [6] [4]]"

lemma toy_run:
  "session_run 1 True toy_local addr_null toy_events (session_new, memory_new) =
     (\<lparr>se_challenge = [5], se_passport = Some toy_passport, se_key = Some [6],
       se_id = Some (addr_flagged (replicate 32 1) 0 True)\<rparr>, memory_new)"
  by code_simp


lemma toy_local_ok: "node_ok toy_local" "silo_good (no_cipher toy_local) memory_new" "holds_valid toy_local memory_new"
proof -
  show "node_ok toy_local" using toy_wire_laws toy_stored_ok(3) by (simp add: node_ok_def toy_local_def)
  show "silo_good (no_cipher toy_local) memory_new"
    by (simp add: silo_good_def toy_local_def cipher_ok_def reversing_cipher_def memory_new_def)
  show "holds_valid toy_local memory_new" by (simp add: holds_valid_def memory_new_def)
qed

lemma toy_address_ok: "addr_ok (addr_flagged (replicate 32 7) flags_immutable_block True)"
  by (simp add: addr_ok_def addr_flagged_consistent addr_flagged_wf value_size_def)

lemma toy_content_form:
  "toy_content = CHB (block.extend (block_new (addr_flagged (replicate 32 7) flags_immutable_block True) [1, 2] addr_null)
     \<lparr>chb_salt = [3]\<rparr>)"
  by code_simp

lemma toy_content_ok:
  "block_acceptable toy_local toy_content"
  "block_received (no_crypto toy_local) (no_doughnut toy_local) toy_content = Inr toy_content"
  "block_key toy_content = addr_value (addr_flagged (replicate 32 7) flags_immutable_block True)"
  using plain_acceptable [OF toy_address_ok, of "[1, 2]" toy_local] unfolding toy_content_form
  by (simp_all add: block_acceptable_def wire_ok_def block_ok_def block_new_def base_block_def block_received_def
      block.extend_def block.truncate_def size_ok_def block_address_def)

definition toy_silo :: silo where
  "toy_silo = snd (local_store toy_local toy_content STORE_INSERT memory_new)"

lemma toy_store: "local_store toy_local toy_content STORE_INSERT memory_new = (Inr (), toy_silo)"
  by (subst toy_silo_def, rule prod_eqI) (simp_all, code_simp)

theorem node_history_witness:
  "holds_valid toy_local (snd (session_run 1 False toy_local addr_null
     [Call (RpcStore toy_content STORE_INSERT), Call (RpcFetch [])] (session_new, memory_new)))"
proof -
  let ?es = "[Call (RpcStore toy_content STORE_INSERT), Call (RpcFetch [])]"
  have "list_all (request_ok toy_local) ?es" using toy_content_ok(1) by (simp add: request_ok_def)
  from node_history [OF toy_local_ok this prod.collapse [symmetric], of 1 False addr_null session_new] show ?thesis
    by blast
qed

theorem authenticated_writes_witness:
  "\<exists>p i v ch. Syn i p v ch \<in> set toy_events \<and> pp_allow_write p \<and>
     doughnut_verify 1 byte_crypto toy_node p False False False = Inr True"
proof -
  have "fst (local_rpc True toy_local
      \<lparr>se_challenge = [5], se_passport = Some toy_passport, se_key = Some [6],
       se_id = Some (addr_flagged (replicate 32 1) 0 True)\<rparr> (RpcStore toy_content STORE_INSERT) memory_new) = Inr Done"
    by code_simp
  then obtain s'' where "local_rpc True toy_local
      \<lparr>se_challenge = [5], se_passport = Some toy_passport, se_key = Some [6],
       se_id = Some (addr_flagged (replicate 32 1) 0 True)\<rparr> (RpcStore toy_content STORE_INSERT) memory_new = (Inr Done, s'')"
    by (metis prod.collapse)
  from authenticated_writes [OF toy_run this] show ?thesis by (auto simp: toy_local_def)
qed

theorem store_then_fetch_witness:
  "fst (local_fetch toy_local (block_key toy_content) toy_silo) = Inr (Some toy_content)"
  using store_then_fetch [OF toy_local_ok(1,2) toy_content_ok(1,2) toy_store] by simp

lemma toy_silo_good: "silo_good (no_cipher toy_local) toy_silo"
  "stored toy_local toy_silo (block_key toy_content) = Some (serialize_any toy_wire toy_content)"
  "read_block toy_local (serialize_any toy_wire toy_content) = Inr (Some toy_content, [])"
  using local_store_effect [OF toy_local_ok(2) acceptable_key [OF toy_content_ok(1)] toy_store]
    acceptable_read [OF toy_local_ok(1) toy_content_ok(1,2)] by (simp_all add: toy_local_def)

theorem plain_block_overwrites_witness:
  "\<exists>s'. local_store toy_local (PlainBlock (block_new (block_address toy_content) [6, 6, 6] addr_null)) STORE_UPDATE toy_silo =
     (Inr (), s') \<and> fst (local_fetch toy_local (block_key toy_content) s') =
     Inr (Some (PlainBlock (block_new (block_address toy_content) [6, 6, 6] addr_null)))"
proof -
  have "\<exists>c. toy_content = CHB c" "block_address toy_content = addr_flagged (replicate 32 7) flags_immutable_block True"
    by (auto simp: toy_content_form block_address_def base_block_def block_new_def block.extend_def block.truncate_def)
  with plain_block_overwrites [OF toy_local_ok(1) toy_silo_good(1) toy_address_ok, of "[6, 6, 6]"]
    toy_silo_good(2,3) toy_content_ok(3) show ?thesis by (fastforce simp: size_ok_def)
qed


text \<open>A sealed owner key block, and the storage with it.\<close>

definition toy_okb :: "(byte, byte) any_block" where
  "toy_okb = OKB (snd (okb_seal byte_crypto toy_node None (okb_new byte_crypto toy_node [1] [2] (2, 2) addr_null)))"

definition toy_okb_silo :: silo where
  "toy_okb_silo = snd (local_store toy_local toy_okb STORE_INSERT memory_new)"

lemma toy_okb_facts:
  "local_store toy_local toy_okb STORE_INSERT memory_new = (Inr (), toy_okb_silo)"
  "length (block_key toy_okb) = value_size"
  "validate_block (no_crypto toy_local) (no_doughnut toy_local) True toy_okb = Inr vr_ok"
  "case read_block toy_local (serialize_any (no_wire toy_local) toy_okb) of
     Inr (Some p, _) \<Rightarrow> mutable_version p = Some 0 | _ \<Rightarrow> False"
  "mutable_version toy_okb = Some 0"
proof -
  show "local_store toy_local toy_okb STORE_INSERT memory_new = (Inr (), toy_okb_silo)"
    by (subst toy_okb_silo_def, rule prod_eqI) (simp_all, code_simp)
qed code_simp+

theorem stale_store_conflict_witness:
  "\<exists>reason p s'. local_store toy_local toy_okb STORE_UPDATE toy_okb_silo = (Inl (Conflict reason p), s') \<and>
     mutable_version p = Some 0 \<and> stored toy_local s' = stored toy_local toy_okb_silo"
proof -
  note eff = local_store_effect [OF toy_local_ok(2) toy_okb_facts(2,1)]
  obtain p rest where p: "read_block toy_local (serialize_any (no_wire toy_local) toy_okb) = Inr (Some p, rest)"
    "mutable_version p = Some 0"
    using toy_okb_facts(4) by (auto split: sum.splits option.splits)
  have "stored toy_local toy_okb_silo (block_key toy_okb) = Some (serialize_any (no_wire toy_local) toy_okb)"
    using eff(3) by simp
  from stale_store_conflict [OF eff(1) toy_okb_facts(3) _ this p(1) toy_okb_facts(5) p(2), of STORE_UPDATE] p(2)
  show ?thesis by auto
qed

end
