(* ===== verification/Memo_Decision.thy ===== *)
theory Memo_Decision
  imports Memo_Local Paxos_Server
begin

text \<open>
  What a node with the Paxos consensus keeps in its silo: \<^verbatim>\<open>BlockOrPaxos\<close> and \<^verbatim>\<open>Decision\<close>
  (src/memo/model/doughnut/consensus/Paxos.cc), with the binary form of an acceptor
  (elle/src/elle/athena/paxos/Server.hxx) and of the variant that a proposed value is
  (elle/src/elle/Option.hxx). The values of the acceptors are pointers to blocks, \<open>None\<close>
  being the null pointer; the identifiers of nodes are addresses, compared as 256-bit
  numbers.
\<close>

section \<open>Data\<close>

type_synonym node_id = "256 word"
type_synonym ('k, 's) pointer = "('k, 's) any_block option"
type_synonym ('k, 's) paxos_server = "(('k, 's) pointer, node_id) server"
type_synonym ('k, 's) paxos_value = "(('k, 's) pointer, node_id) pvalue"

record ('k, 's) decision =
  dec_chosen :: int
  dec_paxos :: "('k, 's) paxos_server"

definition decision_new :: "('k, 's) paxos_server \<Rightarrow> ('k, 's) decision" where
  "decision_new s = \<lparr>dec_chosen = - 1, dec_paxos = s\<rparr>"

section \<open>Binary form\<close>

text \<open>
  A pointer to a block, as it is within an object; \<^const>\<open>serialize_any\<close> is this after the
  first byte of a stream.
\<close>

definition serialize_pointer :: "'k wire \<Rightarrow> ('k, 's) pointer writer" where
  "serialize_pointer wi p = (case p of
     None \<Rightarrow> serialize_bool False
   | Some b \<Rightarrow> serialize_bool True @ serialize_string (block_type b) @
       serialize_version (wi_memo wi) @ serialize_body wi (wi_memo wi) b)"

definition deserialize_pointer ::
  "'k wire \<Rightarrow> ('k, 's) crypto \<Rightarrow> ('k, 's) doughnut \<Rightarrow> ('k, 's) pointer reader" where
  "deserialize_pointer wi ci d = bind_rd deserialize_bool (\<lambda>filled.
     if filled then
       bind_rd deserialize_string (\<lambda>ty.
         if known_type ty then
           bind_rd deserialize_version (\<lambda>v. map_rd Some (deserialize_body wi ci d ty v))
         else fail_rd (UnknownType ty))
     else return_rd None)"

definition id_bytes :: "node_id \<Rightarrow> buffer" where
  "id_bytes i = rev (le_bytes 32 (uint i))"

definition serialize_id :: "node_id writer" where
  "serialize_id i = serialize_buffer (id_bytes i)"

definition deserialize_id :: "node_id reader" where
  "deserialize_id = bind_rd deserialize_address (\<lambda>a. return_rd (addr_id a))"

text \<open>\<open>ids\<close> is the order in which an unordered set of identifiers is traversed.\<close>

type_synonym id_order = "node_id set \<Rightarrow> node_id list"

definition serialize_quorum :: "id_order \<Rightarrow> node_id set writer" where
  "serialize_quorum ids q = serialize_array serialize_id (ids q)"

definition deserialize_quorum :: "node_id set reader" where
  "deserialize_quorum = map_rd set (deserialize_array deserialize_id)"

definition serialize_proposal :: "'k wire \<Rightarrow> node_id proposal writer" where
  "serialize_proposal wi p =
     serialize_version (wi_elle wi) @ serialize_number (prop_version p) @ serialize_number (prop_round p) @
     serialize_id (prop_sender p)"

definition deserialize_proposal :: "node_id proposal reader" where
  "deserialize_proposal = bind_rd deserialize_version (\<lambda>_.
     bind_rd deserialize_int32 (\<lambda>v. bind_rd deserialize_int32 (\<lambda>r. bind_rd deserialize_id (\<lambda>s.
       return_rd (Proposal v r s)))))"

text \<open>\<^verbatim>\<open>elle::Option<std::shared_ptr<Block>, Quorum>\<close>: the index of the type, then the value.\<close>

definition serialize_value :: "'k wire \<Rightarrow> id_order \<Rightarrow> ('k, 's) paxos_value writer" where
  "serialize_value wi ids v = serialize_version (wi_elle wi) @ (case v of
     PVal b \<Rightarrow> serialize_number 0 @ serialize_pointer wi b
   | PQuorum q \<Rightarrow> serialize_number 1 @ serialize_quorum ids q)"

definition deserialize_value ::
  "'k wire \<Rightarrow> ('k, 's) crypto \<Rightarrow> ('k, 's) doughnut \<Rightarrow> ('k, 's) paxos_value reader" where
  "deserialize_value wi ci d = bind_rd deserialize_version (\<lambda>_. bind_rd deserialize_int32 (\<lambda>i.
     if i = 0 then map_rd PVal (deserialize_pointer wi ci d)
     else if i = 1 then map_rd PQuorum deserialize_quorum
     else fail_rd Assertion))"

definition serialize_accepted ::
  "'k wire \<Rightarrow> id_order \<Rightarrow> (('k, 's) pointer, node_id) wire_accepted writer" where
  "serialize_accepted wi ids a =
     serialize_version (wi_elle wi) @ serialize_proposal wi (wa_proposal a) @
     (case wa_value a of WireOption v \<Rightarrow> serialize_value wi ids v | WireBare b \<Rightarrow> serialize_pointer wi b) @
     (case wa_confirmed a of None \<Rightarrow> [] | Some c \<Rightarrow> serialize_bool c)"

definition deserialize_accepted ::
  "'k wire \<Rightarrow> ('k, 's) crypto \<Rightarrow> ('k, 's) doughnut \<Rightarrow> (('k, 's) pointer, node_id) accepted reader" where
  "deserialize_accepted wi ci d = bind_rd deserialize_version (\<lambda>v. bind_rd deserialize_proposal (\<lambda>p.
     if v \<ge> Version 0 1 0 then
       bind_rd (deserialize_value wi ci d) (\<lambda>x. bind_rd deserialize_bool (\<lambda>c.
         return_rd \<lparr>acc_proposal = p, acc_value = x, acc_confirmed = c\<rparr>))
     else bind_rd (deserialize_pointer wi ci d) (\<lambda>b.
       return_rd \<lparr>acc_proposal = p, acc_value = PVal b, acc_confirmed = True\<rparr>)))"

definition serialize_state ::
  "'k wire \<Rightarrow> id_order \<Rightarrow> (node_id proposal \<times> (('k, 's) pointer, node_id) wire_accepted option) writer" where
  "serialize_state wi ids st =
     serialize_version (wi_elle wi) @ serialize_proposal wi (fst st) @
     serialize_option (serialize_accepted wi ids) (snd st)"

definition deserialize_state ::
  "'k wire \<Rightarrow> ('k, 's) crypto \<Rightarrow> ('k, 's) doughnut
     \<Rightarrow> (node_id proposal \<times> (('k, 's) pointer, node_id) accepted option) reader" where
  "deserialize_state wi ci d = bind_rd deserialize_version (\<lambda>_. bind_rd deserialize_proposal (\<lambda>p.
     bind_rd (deserialize_option (deserialize_accepted wi ci d)) (\<lambda>a. return_rd (p, a))))"

text \<open>\<open>None\<close> is \<^verbatim>\<open>ELLE_ABORT\<close>: a quorum cannot be written before version 0.1.0.\<close>

definition serialize_paxos :: "'k wire \<Rightarrow> id_order \<Rightarrow> ('k, 's) paxos_server \<Rightarrow> buffer option" where
  "serialize_paxos wi ids s = map_option (\<lambda>w.
     serialize_version (wi_elle wi) @ serialize_id (ws_id w) @ serialize_quorum ids (ws_quorum w) @
     (case ws_value w of None \<Rightarrow> [] | Some v \<Rightarrow> serialize_option (serialize_pointer wi) v) @
     serialize_array (serialize_state wi ids) (ws_state w) @
     (case ws_partial w of None \<Rightarrow> [] | Some p \<Rightarrow> serialize_bool p))
     (server_serialize (wi_elle wi) s)"

text \<open>The version of the acceptor itself comes from the context of the reader.\<close>

definition deserialize_paxos ::
  "'k wire \<Rightarrow> ('k, 's) crypto \<Rightarrow> ('k, 's) doughnut \<Rightarrow> ('k, 's) paxos_server reader" where
  "deserialize_paxos wi ci d = bind_rd deserialize_version (\<lambda>v. bind_rd deserialize_id (\<lambda>i.
     bind_rd deserialize_quorum (\<lambda>q.
     bind_rd (if v \<ge> Version 0 1 0 then deserialize_option (deserialize_pointer wi ci d) else return_rd None) (\<lambda>x.
     bind_rd (deserialize_array (deserialize_state wi ci d)) (\<lambda>sts.
     bind_rd (if v \<ge> Version 0 2 0 then deserialize_bool else return_rd False) (\<lambda>partial.
       return_rd \<lparr>srv_id = i, srv_quorum = q, srv_value = x, srv_version = wi_elle wi, srv_partial = partial,
         srv_state = map_option (\<lambda>(p, a). \<lparr>vs_proposal = p, vs_accepted = a\<rparr>) (last_state sts)\<rparr>))))))"

definition serialize_decision :: "'k wire \<Rightarrow> id_order \<Rightarrow> ('k, 's) decision \<Rightarrow> buffer option" where
  "serialize_decision wi ids dec = map_option
     (\<lambda>s. serialize_version (wi_memo wi) @ serialize_number (dec_chosen dec) @ s)
     (serialize_paxos wi ids (dec_paxos dec))"

definition deserialize_decision ::
  "'k wire \<Rightarrow> ('k, 's) crypto \<Rightarrow> ('k, 's) doughnut \<Rightarrow> ('k, 's) decision reader" where
  "deserialize_decision wi ci d = bind_rd deserialize_version (\<lambda>_. bind_rd deserialize_int32 (\<lambda>c.
     bind_rd (deserialize_paxos wi ci d) (\<lambda>s. return_rd \<lparr>dec_chosen = c, dec_paxos = s\<rparr>)))"

text \<open>\<^verbatim>\<open>BlockOrPaxos\<close>: two pointers, one of which is null.\<close>

definition stored_block :: "'k wire \<Rightarrow> ('k, 's) any_block \<Rightarrow> buffer" where
  "stored_block wi b =
     write_magic @ serialize_version (wi_memo wi) @ serialize_pointer wi (Some b) @ serialize_bool False"

definition stored_paxos :: "'k wire \<Rightarrow> id_order \<Rightarrow> ('k, 's) decision \<Rightarrow> buffer option" where
  "stored_paxos wi ids dec = map_option
     (\<lambda>s. write_magic @ serialize_version (wi_memo wi) @ serialize_bool False @ serialize_bool True @ s)
     (serialize_decision wi ids dec)"

definition deserialize_stored ::
  "'k wire \<Rightarrow> ('k, 's) crypto \<Rightarrow> ('k, 's) doughnut \<Rightarrow> (('k, 's) pointer \<times> ('k, 's) decision option) reader" where
  "deserialize_stored wi ci d = bind_rd check_magic (\<lambda>_. bind_rd deserialize_version (\<lambda>_.
     bind_rd (deserialize_pointer wi ci d) (\<lambda>b.
       bind_rd (deserialize_option (deserialize_decision wi ci d)) (\<lambda>p. return_rd (b, p)))))"

section \<open>Blocks as a node reads them\<close>

lemma serialize_any_pointer: "serialize_any wi b = write_magic @ serialize_pointer wi (Some b)"
  by (simp add: serialize_any_def serialize_pointer_def)

lemma deserialize_any_pointer: "deserialize_any wi ci d = bind_rd check_magic (\<lambda>_. deserialize_pointer wi ci d)"
  by (simp add: deserialize_any_def deserialize_pointer_def)

text \<open>
  A block that is equal to what is read of it: it has no cached validation, no clear data
  and the private key only if the node is its owner.
\<close>

definition block_read_form :: "'k wire \<Rightarrow> ('k, 's) crypto \<Rightarrow> ('k, 's) doughnut \<Rightarrow> ('k, 's) any_block \<Rightarrow> bool" where
  "block_read_form wi ci d b \<longleftrightarrow> wire_ok wi d b \<and> block_received ci d b = Inr b"

lemma body_read:
  assumes "wire_laws wi" and "Version 0 8 0 \<le> v" and "wire_ok wi d b" and "block_received ci d b = Inr b'"
  shows "deserialize_body wi ci d (block_type b) v (serialize_body wi v b @ rest) = Inr (b', rest)"
proof (cases b)
  case (GB g)
  then show ?thesis using mutable_read [OF assms] by blast
qed (use immutable_read [OF assms] mutable_read [OF assms] in metis)+

lemma pointer_codec:
  assumes "wire_laws wi" and "Version 0 8 0 \<le> wi_memo wi"
  shows "codec (serialize_pointer wi) (deserialize_pointer wi ci d) (pred_option (block_read_form wi ci d))"
proof
  fix p :: "('a, 'b) pointer" and rest
  assume ok: "pred_option (block_read_form wi ci d) p"
  show "deserialize_pointer wi ci d (serialize_pointer wi p @ rest) = Inr (p, rest)"
  proof (cases p)
    case (Some b)
    have "known_type (block_type b)" "int (length (block_type b)) < 2 ^ 31"
      by (auto simp: known_type_def block_type_def split: any_block.splits)
    with body_read [OF assms, of d b ci b] ok show ?thesis
      by (simp add: Some block_read_form_def serialize_pointer_def deserialize_pointer_def map_rd_def bind_rd_Inr)
  qed (simp add: serialize_pointer_def deserialize_pointer_def)
qed

text \<open>What is read of a block, and that it is in the form it is read in.\<close>

definition as_read :: "('k, 's) crypto \<Rightarrow> ('k, 's) doughnut \<Rightarrow> ('k, 's) any_block \<Rightarrow> ('k, 's) any_block" where
  "as_read ci d b = (case block_received ci d b of Inr b' \<Rightarrow> b' | Inl _ \<Rightarrow> b)"

lemma okb_received_wire:
  "okb_ok (okb_received d b) = okb_ok b"
  "blk_data b \<noteq> [] \<Longrightarrow> serialize_okb wi v (okb_received d b) = serialize_okb wi v b"
  by (simp_all add: okb_received_def okb_ok_def block_ok_def serialize_okb_def serialize_block_def)

lemma acb_received_wire:
  "acb_ok (acb_received d b) = acb_ok b"
  "blk_data b \<noteq> [] \<Longrightarrow> serialize_acb wi v (acb_received d b) = serialize_acb wi v b"
  by (simp_all add: acb_received_def acb_ok_def okb_ok_def block_ok_def serialize_acb_def serialize_okb_def serialize_block_def)

lemma gb_received_wire:
  assumes "gb_received ci d g = Inr g'"
  shows "gb_ok wi g' = gb_ok wi g" "blk_data g' = blk_data g" "blk_data g \<noteq> [] \<Longrightarrow> serialize_gb wi v g' = serialize_gb wi v g"
    "gb_received ci d g' = Inr g'"
proof -
  obtain pk where g': "g' = (acb_received d g)\<lparr>gb_keys := [], okb_owner_private_key := pk\<rparr>"
    using gb_received_form [OF assms] by blast
  then show "gb_ok wi g' = gb_ok wi g" "blk_data g' = blk_data g" "blk_data g \<noteq> [] \<Longrightarrow> serialize_gb wi v g' = serialize_gb wi v g"
    by (simp_all add: gb_ok_def acb_received_def acb_ok_def okb_ok_def block_ok_def serialize_gb_def serialize_acb_def
        serialize_okb_def serialize_block_def)
  have "acb_received d g' = acb_received d g\<lparr>gb_keys := []\<rparr>" "gb_admin_keys (acb_received d g') = gb_admin_keys (acb_received d g)"
    by (simp_all add: g' acb_received_def)
  then show "gb_received ci d g' = Inr g'"
    using assms by (simp add: gb_received_def Let_def acb_received_def split: option.splits)
qed

lemma received_wire:
  assumes "block_received ci d b = Inr b'" and "wire_ok wi d b"
  shows "serialize_pointer wi (Some b') = serialize_pointer wi (Some b)" "block_read_form wi ci d b'"
proof -
  have "wire_ok wi d b' \<and> block_received ci d b' = Inr b' \<and> block_type b' = block_type b \<and>
      serialize_body wi v b' = serialize_body wi v b" for v
  proof (cases b)
    case (OKB c)
    then show ?thesis using assms okb_received_wire [where b = c and d = d]
      by (auto simp: block_received_def wire_ok_def block_type_def serialize_body_def okb_received_def)
  next
    case (ACB c)
    then show ?thesis using assms acb_received_wire [where b = c and d = d]
      by (auto simp: block_received_def wire_ok_def block_type_def serialize_body_def acb_received_def)
  next
    case (GB g)
    then show ?thesis using assms gb_received_wire [where g = g and ci = ci and d = d]
      by (auto simp: block_received_def wire_ok_def block_type_def serialize_body_def bind_res_eq_Inr)
  qed (use assms in \<open>auto simp: block_received_def wire_ok_def block_type_def serialize_body_def block_ok_def
      serialize_block_def serialize_chb_def serialize_nb_def serialize_ub_def\<close>)
  then show "serialize_pointer wi (Some b') = serialize_pointer wi (Some b)" "block_read_form wi ci d b'"
    by (simp_all add: serialize_pointer_def block_read_form_def)
qed

section \<open>Round trips\<close>

lemma be_value_le_value: "int (be_value (rev xs)) = le_value xs"
proof -
  have app: "be_value (xs @ [b]) = be_value xs * 256 + unat b" for xs b
    by (induction xs) (simp_all add: algebra_simps)
  show ?thesis by (induction xs) (simp_all add: app)
qed

lemma length_id_bytes [simp]: "length (id_bytes i) = 32"
  by (simp add: id_bytes_def)

lemma addr_id_bytes: "addr_id (addr_of_value (id_bytes i)) = i"
proof -
  have "int (be_value (id_bytes i)) = uint i"
    using uint_lt2p [of i] by (simp add: id_bytes_def be_value_le_value le_value_le_bytes)
  then have "be_value (id_bytes i) = unat i" by (metis nat_int unat_eq_nat_uint)
  then show ?thesis by (simp add: addr_id_def addr_of_value_def addr_flagged_def value_size_def)
qed

interpretation nid: codec serialize_id deserialize_id "\<lambda>_. True"
proof
  fix i :: node_id and rest
  have "addr_of_buffer (id_bytes i) = Inr (addr_of_value (id_bytes i))"
    by (simp add: addr_of_buffer_def value_size_def flip: length_0_conv)
  then show "deserialize_id (serialize_id i @ rest) = Inr (i, rest)"
    by (simp add: deserialize_id_def serialize_id_def deserialize_address_def addr_id_bytes)
qed

definition order_ok :: "id_order \<Rightarrow> bool" where
  "order_ok ids \<longleftrightarrow> (\<forall>q. set (ids q) = q \<and> distinct (ids q))"

definition quorum_ok :: "'c set \<Rightarrow> bool" where
  "quorum_ok q \<longleftrightarrow> int (card q) < 2 ^ 31"

lemma quorum_codec:
  assumes "order_ok ids"
  shows "codec (serialize_quorum ids) deserialize_quorum quorum_ok"
proof
  fix q :: "node_id set" and rest
  assume "quorum_ok q"
  moreover have "length (ids q) = card q" using assms distinct_card [of "ids q"] by (simp add: order_ok_def)
  moreover have "list_all (\<lambda>_. True) (ids q)" by (simp add: list.pred_True)
  ultimately show "deserialize_quorum (serialize_quorum ids q @ rest) = Inr (q, rest)"
    using assms by (simp add: order_ok_def quorum_ok_def serialize_quorum_def deserialize_quorum_def map_rd_def
        codec.bind_roundtrip [OF codec_array [OF nid.codec_axioms]])
qed

definition proposal_ok :: "node_id proposal \<Rightarrow> bool" where
  "proposal_ok p \<longleftrightarrow> int_ok (prop_version p) \<and> int_ok (prop_round p)"

lemma proposal_codec: "codec (serialize_proposal wi) deserialize_proposal proposal_ok"
  by unfold_locales (simp add: serialize_proposal_def deserialize_proposal_def proposal_ok_def int_ok_def)

definition value_ok :: "('a \<Rightarrow> bool) \<Rightarrow> ('a, 'c) pvalue \<Rightarrow> bool" where
  "value_ok P v = (case v of PVal b \<Rightarrow> P b | PQuorum q \<Rightarrow> quorum_ok q)"

abbreviation pointer_ok :: "'k wire \<Rightarrow> ('k, 's) crypto \<Rightarrow> ('k, 's) doughnut \<Rightarrow> ('k, 's) pointer \<Rightarrow> bool" where
  "pointer_ok wi ci d \<equiv> pred_option (block_read_form wi ci d)"

lemma value_codec:
  assumes "wire_laws wi" and "Version 0 8 0 \<le> wi_memo wi" and "order_ok ids"
  shows "codec (serialize_value wi ids) (deserialize_value wi ci d) (value_ok (pointer_ok wi ci d))"
  by unfold_locales
    (auto simp: serialize_value_def deserialize_value_def value_ok_def map_rd_def
      codec.bind_roundtrip [OF pointer_codec [OF assms(1,2)]]
      codec.bind_roundtrip [OF quorum_codec [OF assms(3)]] split: pvalue.splits)

definition accepted_ok :: "('a \<Rightarrow> bool) \<Rightarrow> ('a, node_id) accepted \<Rightarrow> bool" where
  "accepted_ok P a \<longleftrightarrow> proposal_ok (acc_proposal a) \<and> value_ok P (acc_value a)"

definition server_ok :: "('a \<Rightarrow> bool) \<Rightarrow> ('a, node_id) server \<Rightarrow> bool" where
  "server_ok P s \<longleftrightarrow> quorum_ok (srv_quorum s) \<and> pred_option P (srv_value s) \<and>
     pred_option (\<lambda>st. proposal_ok (vs_proposal st) \<and> pred_option (accepted_ok P) (vs_accepted st)) (srv_state s)"

text \<open>The form in which an accepted value is written from version 0.1.0 on.\<close>

lemma accepted_read:
  assumes "wire_laws wi" and "Version 0 8 0 \<le> wi_memo wi" and "order_ok ids" and "Version 0 2 0 \<le> wi_elle wi"
    and "accepted_ok (pointer_ok wi ci d) a"
  shows "\<exists>w. accepted_serialize (wi_elle wi) a = Some w \<and>
    deserialize_accepted wi ci d (serialize_accepted wi ids w @ rest) = Inr (a, rest)"
proof -
  have v: "wi_elle wi \<ge> Version 0 1 0" using assms(4) by (rule order_trans [rotated]) (simp add: version_le_def)
  let ?w = "\<lparr>wa_proposal = acc_proposal a, wa_value = WireOption (acc_value a), wa_confirmed = Some (acc_confirmed a)\<rparr>"
  have "deserialize_accepted wi ci d (serialize_accepted wi ids ?w @ rest) = Inr (a, rest)"
    using assms(5) v
    by (simp add: serialize_accepted_def deserialize_accepted_def accepted_ok_def
        codec.bind_roundtrip [OF proposal_codec] codec.bind_roundtrip [OF value_codec [OF assms(1-3)]])
  then show ?thesis using v by (simp add: accepted_serialize_def)
qed

lemma state_read:
  assumes "wire_laws wi" and "Version 0 8 0 \<le> wi_memo wi" and "order_ok ids" and "Version 0 2 0 \<le> wi_elle wi"
    and "proposal_ok (vs_proposal st)" and "pred_option (accepted_ok (pointer_ok wi ci d)) (vs_accepted st)"
  shows "\<exists>w. state_serialize (wi_elle wi) st = Some w \<and>
    deserialize_state wi ci d (serialize_state wi ids w @ rest) = Inr ((vs_proposal st, vs_accepted st), rest)"
proof (cases "vs_accepted st")
  case (Some a)
  then obtain w where w: "accepted_serialize (wi_elle wi) a = Some w"
    "deserialize_accepted wi ci d (serialize_accepted wi ids w @ rest) = Inr (a, rest)"
    using accepted_read [OF assms(1-4), of ci d a rest] assms(6) by auto
  then have "deserialize_state wi ci d (serialize_state wi ids (vs_proposal st, Some w) @ rest) =
      Inr ((vs_proposal st, Some a), rest)"
    using assms(5)
    by (simp add: deserialize_state_def serialize_state_def codec.bind_roundtrip [OF proposal_codec]
        serialize_option_def deserialize_option_def bind_rd_Inr)
  then show ?thesis using Some w(1) by (simp add: state_serialize_def)
qed (use assms(5) in \<open>simp add: state_serialize_def deserialize_state_def serialize_state_def
    codec.bind_roundtrip [OF proposal_codec] serialize_option_def deserialize_option_def\<close>)

lemma paxos_read:
  assumes "wire_laws wi" and "Version 0 8 0 \<le> wi_memo wi" and "order_ok ids" and "Version 0 2 0 \<le> wi_elle wi"
    and "server_ok (pointer_ok wi ci d) s" and "srv_version s = wi_elle wi"
  shows "\<exists>w. serialize_paxos wi ids s = Some w \<and> deserialize_paxos wi ci d (w @ rest) = Inr (s, rest)"
proof -
  have v: "wi_elle wi \<ge> Version 0 1 0" using assms(4) by (rule order_trans [rotated]) (simp add: version_le_def)
  note rd = codec.bind_roundtrip [OF quorum_codec [OF assms(3)]]
    codec.bind_roundtrip [OF codec_option [OF pointer_codec [OF assms(1,2)]]]
  show ?thesis
  proof (cases "srv_state s")
    case None
    then show ?thesis using assms(4-6) v
      by (simp add: serialize_paxos_def server_serialize_def deserialize_paxos_def Let_def rd server_ok_def
          serialize_array_def deserialize_array_def int32_def last_state_def)
  next
    case (Some st)
    obtain w where w: "state_serialize (wi_elle wi) st = Some w"
      "deserialize_state wi ci d (serialize_state wi ids w @ serialize_bool (srv_partial s) @ rest) =
        Inr ((vs_proposal st, vs_accepted st), serialize_bool (srv_partial s) @ rest)"
      using state_read [OF assms(1-4), of st ci d "serialize_bool (srv_partial s) @ rest"] assms(5) Some
      by (auto simp: server_ok_def)
    have "bind_rd (deserialize_array (deserialize_state wi ci d)) f
        (serialize_array (serialize_state wi ids) [w] @ serialize_bool (srv_partial s) @ rest) =
      f [(vs_proposal st, vs_accepted st)] (serialize_bool (srv_partial s) @ rest)"
      for f :: "(node_id proposal \<times> (('a, 'b) pointer, node_id) accepted option) list \<Rightarrow> ('a, 'b) paxos_server reader"
      using w(2) by (simp add: serialize_array_def deserialize_array_def int32_def bind_rd_Inr)
    then show ?thesis using assms(4-6) v Some w(1)
      by (simp add: serialize_paxos_def server_serialize_def deserialize_paxos_def Let_def rd server_ok_def last_state_def)
  qed
qed

section \<open>Acceptors as a node reads them\<close>

definition map_accepted :: "('a \<Rightarrow> 'b) \<Rightarrow> ('a, 'c) accepted \<Rightarrow> ('b, 'c) accepted" where
  "map_accepted f a = \<lparr>acc_proposal = acc_proposal a, acc_value = map_pvalue f (acc_value a), acc_confirmed = acc_confirmed a\<rparr>"

definition map_vstate :: "('a \<Rightarrow> 'b) \<Rightarrow> ('a, 'c) version_state \<Rightarrow> ('b, 'c) version_state" where
  "map_vstate f st = \<lparr>vs_proposal = vs_proposal st, vs_accepted = map_option (map_accepted f) (vs_accepted st)\<rparr>"

definition map_server :: "('a \<Rightarrow> 'b) \<Rightarrow> ('a, 'c) server \<Rightarrow> ('b, 'c) server" where
  "map_server f s = \<lparr>srv_id = srv_id s, srv_quorum = srv_quorum s, srv_value = map_option f (srv_value s),
     srv_version = srv_version s, srv_partial = srv_partial s, srv_state = map_option (map_vstate f) (srv_state s)\<rparr>"

lemmas map_server_simps = map_server_def map_vstate_def map_accepted_def

lemma map_server_promise [simp]: "srv_promise (map_server f s) = srv_promise s"
  by (simp add: srv_promise_def map_server_simps option.map_comp comp_def)

lemma map_server_quorum [simp]: "current_quorum (map_server f s) = current_quorum s"
  by (auto simp: current_quorum_def srv_accepted_def map_server_simps split: option.splits pvalue.splits)

definition block_writable :: "'k wire \<Rightarrow> ('k, 's) crypto \<Rightarrow> ('k, 's) doughnut \<Rightarrow> ('k, 's) any_block \<Rightarrow> bool" where
  "block_writable wi ci d b \<longleftrightarrow> wire_ok wi d b \<and> (\<exists>b'. block_received ci d b = Inr b')"

abbreviation writable :: "'k wire \<Rightarrow> ('k, 's) crypto \<Rightarrow> ('k, 's) doughnut \<Rightarrow> ('k, 's) pointer \<Rightarrow> bool" where
  "writable wi ci d \<equiv> pred_option (block_writable wi ci d)"

abbreviation server_as_read :: "('k, 's) crypto \<Rightarrow> ('k, 's) doughnut \<Rightarrow> ('k, 's) paxos_server \<Rightarrow> ('k, 's) paxos_server" where
  "server_as_read ci d \<equiv> map_server (map_option (as_read ci d))"

lemma as_read_pointer:
  assumes "writable wi ci d p"
  shows "serialize_pointer wi (map_option (as_read ci d) p) = serialize_pointer wi p"
    "pointer_ok wi ci d (map_option (as_read ci d) p)"
proof -
  have "serialize_pointer wi (map_option (as_read ci d) p) = serialize_pointer wi p \<and>
    pointer_ok wi ci d (map_option (as_read ci d) p)"
  proof (cases p)
    case (Some b)
    with assms obtain b' where "block_received ci d b = Inr b'" "wire_ok wi d b" by (auto simp: block_writable_def)
    with received_wire [OF this] show ?thesis by (simp add: Some as_read_def)
  qed simp
  then show "serialize_pointer wi (map_option (as_read ci d) p) = serialize_pointer wi p"
    "pointer_ok wi ci d (map_option (as_read ci d) p)" by blast+
qed

lemma as_read_value:
  assumes "value_ok (writable wi ci d) v"
  shows "serialize_value wi ids (map_pvalue (map_option (as_read ci d)) v) = serialize_value wi ids v"
    "value_ok (pointer_ok wi ci d) (map_pvalue (map_option (as_read ci d)) v)"
  using assms as_read_pointer [of wi ci d]
  by (cases v; simp add: serialize_value_def value_ok_def)+

lemma map_option_through: "map_option f x = map_option f y \<Longrightarrow> map_option (\<lambda>z. g (f z)) x = map_option (\<lambda>z. g (f z)) y"
  by (cases x; cases y) simp_all

lemma as_read_server:
  assumes "server_ok (writable wi ci d) s" and "Version 0 2 0 \<le> wi_elle wi"
  shows "serialize_paxos wi ids (server_as_read ci d s) = serialize_paxos wi ids s"
    "server_ok (pointer_ok wi ci d) (server_as_read ci d s)"
proof -
  have v: "wi_elle wi \<ge> Version 0 1 0" using assms(2) by (rule order_trans [rotated]) (simp add: version_le_def)
  show "server_ok (pointer_ok wi ci d) (server_as_read ci d s)"
    using assms(1) as_read_pointer(2) [of wi ci d] as_read_value(2) [of wi ci d]
    by (cases "srv_value s"; cases "srv_state s"; cases "vs_accepted (the (srv_state s))")
      (simp_all add: server_ok_def accepted_ok_def map_server_def map_vstate_def map_accepted_def)
  have "serialize_option (serialize_pointer wi) (map_option (map_option (as_read ci d)) (srv_value s)) =
      serialize_option (serialize_pointer wi) (srv_value s)"
    using assms(1) as_read_pointer(1) [of wi ci d]
    by (auto simp: serialize_option_def server_ok_def split: option.splits)
  moreover have "map_option (serialize_state wi ids) (state_serialize (wi_elle wi) (map_vstate (map_option (as_read ci d)) st)) =
      map_option (serialize_state wi ids) (state_serialize (wi_elle wi) st)" if "srv_state s = Some st" for st
    using assms(1) that as_read_value(1) [of wi ci d] v
    by (auto simp: server_ok_def accepted_ok_def state_serialize_def map_vstate_def map_accepted_def serialize_state_def
        accepted_serialize_def serialize_accepted_def serialize_option_def split: option.splits)
  ultimately show "serialize_paxos wi ids (server_as_read ci d s) = serialize_paxos wi ids s"
    using v assms(2)
    by (cases "srv_state s")
      (auto simp: serialize_paxos_def server_serialize_def map_server_def Let_def serialize_array_def option.map_comp
        comp_def intro!: map_option_through [where f = "serialize_state wi ids" and
          g = "\<lambda>z. serialize_version (wi_elle wi) @ serialize_id (srv_id s) @ serialize_quorum ids (srv_quorum s) @
            serialize_option (serialize_pointer wi) (srv_value s) @ serialize_number (int32 1) @ z @
            serialize_bool (srv_partial s)"])
qed

definition decision_as_read :: "('k, 's) crypto \<Rightarrow> ('k, 's) doughnut \<Rightarrow> ('k, 's) decision \<Rightarrow> ('k, 's) decision" where
  "decision_as_read ci d dec = dec\<lparr>dec_paxos := server_as_read ci d (dec_paxos dec)\<rparr>"

definition decision_ok :: "'k wire \<Rightarrow> ('k, 's) crypto \<Rightarrow> ('k, 's) doughnut \<Rightarrow> ('k, 's) decision \<Rightarrow> bool" where
  "decision_ok wi ci d dec \<longleftrightarrow> server_ok (writable wi ci d) (dec_paxos dec) \<and>
     srv_version (dec_paxos dec) = wi_elle wi \<and> int_ok (dec_chosen dec)"

definition wire_current :: "'k wire \<Rightarrow> id_order \<Rightarrow> bool" where
  "wire_current wi ids \<longleftrightarrow> wire_laws wi \<and> Version 0 8 0 \<le> wi_memo wi \<and> order_ok ids \<and> Version 0 2 0 \<le> wi_elle wi"

lemma stored_paxos_read:
  assumes "wire_current wi ids" and "decision_ok wi ci d dec"
  shows "\<exists>buf. stored_paxos wi ids dec = Some buf \<and>
    deserialize_stored wi ci d buf = Inr ((None, Some (decision_as_read ci d dec)), [])"
proof -
  let ?s = "dec_paxos dec"
  note w = assms(1) [unfolded wire_current_def]
  have "server_ok (pointer_ok wi ci d) (server_as_read ci d ?s)" "srv_version (server_as_read ci d ?s) = wi_elle wi"
    "serialize_paxos wi ids (server_as_read ci d ?s) = serialize_paxos wi ids ?s"
    using as_read_server [where s = ?s and wi = wi and ci = ci and d = d] assms(2) w by (simp_all add: decision_ok_def map_server_def)
  then obtain x where x: "serialize_paxos wi ids ?s = Some x"
    "deserialize_paxos wi ci d (x @ []) = Inr (server_as_read ci d ?s, [])"
    using paxos_read [of wi ids ci d "server_as_read ci d ?s" "[]"] w by auto
  have "deserialize_decision wi ci d (serialize_version (wi_memo wi) @ serialize_number (dec_chosen dec) @ x) =
      Inr (decision_as_read ci d dec, [])"
    using x(2) assms(2) by (simp add: deserialize_decision_def decision_as_read_def decision_ok_def int_ok_def bind_rd_Inr)
  then have "deserialize_stored wi ci d (write_magic @ serialize_version (wi_memo wi) @ serialize_bool False @
      serialize_bool True @ serialize_version (wi_memo wi) @ serialize_number (dec_chosen dec) @ x) =
      Inr ((None, Some (decision_as_read ci d dec)), [])"
    by (simp add: deserialize_stored_def write_magic_def deserialize_pointer_def deserialize_option_def bind_rd_Inr)
  then show ?thesis by (simp add: stored_paxos_def serialize_decision_def x(1))
qed

lemma stored_block_read:
  assumes "wire_current wi ids" and "block_writable wi ci d b"
  shows "deserialize_stored wi ci d (stored_block wi b) = Inr ((Some (as_read ci d b), None), [])"
proof -
  have "deserialize_stored wi ci d (stored_block wi (as_read ci d b)) = Inr ((Some (as_read ci d b), None), [])"
    using as_read_pointer(2) [of wi ci d "Some b"] assms
    by (simp add: deserialize_stored_def stored_block_def write_magic_def wire_current_def
        codec.bind_roundtrip [OF pointer_codec] deserialize_option_def bind_rd_Inr [where r = deserialize_bool, OF bl.whole]
        bind_rd_Inr [where r = check_magic])
  moreover have "stored_block wi (as_read ci d b) = stored_block wi b"
    using as_read_pointer(1) [of wi ci d "Some b"] assms(2) by (simp add: stored_block_def)
  ultimately show ?thesis by simp
qed

section \<open>Acceptors do not look at the blocks\<close>

text \<open>
  The operations of an acceptor commute with a change of the blocks it holds, so an
  acceptor that was written and read again goes on as it would have.
\<close>

definition map_response :: "('a \<Rightarrow> 'b) \<Rightarrow> ('a, 'c) response \<Rightarrow> ('b, 'c) response" where
  "map_response f r = resp_of (resp_proposal r) (map_option (map_pvalue f) (resp_value r)) (resp_confirmed r)"

lemma map_server_fields [simp]:
  "srv_id (map_server f s) = srv_id s" "srv_quorum (map_server f s) = srv_quorum s"
  "srv_value (map_server f s) = map_option f (srv_value s)" "srv_version (map_server f s) = srv_version s"
  "srv_partial (map_server f s) = srv_partial s" "srv_state (map_server f s) = map_option (map_vstate f) (srv_state s)"
  "vs_proposal (map_vstate f st) = vs_proposal st" "vs_accepted (map_vstate f st) = map_option (map_accepted f) (vs_accepted st)"
  "vs_version (map_vstate f st) = vs_version st"
  "acc_proposal (map_accepted f a) = acc_proposal a" "acc_value (map_accepted f a) = map_pvalue f (acc_value a)"
  "acc_confirmed (map_accepted f a) = acc_confirmed a"
  by (simp_all add: map_server_simps vs_version_def)

lemma map_server_update [simp]:
  "map_server f (s\<lparr>srv_state := x\<rparr>) = (map_server f s)\<lparr>srv_state := map_option (map_vstate f) x\<rparr>"
  "map_server f (s\<lparr>srv_partial := b\<rparr>) = (map_server f s)\<lparr>srv_partial := b\<rparr>"
  "map_server f (s\<lparr>srv_quorum := q\<rparr>) = (map_server f s)\<lparr>srv_quorum := q\<rparr>"
  "map_server f (s\<lparr>srv_value := y\<rparr>) = (map_server f s)\<lparr>srv_value := map_option f y\<rparr>"
  "map_vstate f (st\<lparr>vs_accepted := z\<rparr>) = (map_vstate f st)\<lparr>vs_accepted := map_option (map_accepted f) z\<rparr>"
  "map_vstate f (st\<lparr>vs_proposal := p\<rparr>) = (map_vstate f st)\<lparr>vs_proposal := p\<rparr>"
  "map_accepted f (a\<lparr>acc_confirmed := b\<rparr>) = (map_accepted f a)\<lparr>acc_confirmed := b\<rparr>"
  "map_accepted f (a\<lparr>acc_proposal := p\<rparr>) = (map_accepted f a)\<lparr>acc_proposal := p\<rparr>"
  "map_accepted f (a\<lparr>acc_value := v\<rparr>) = (map_accepted f a)\<lparr>acc_value := map_pvalue f v\<rparr>"
  "map_accepted f \<lparr>acc_proposal = p, acc_value = v, acc_confirmed = b\<rparr> =
     \<lparr>acc_proposal = p, acc_value = map_pvalue f v, acc_confirmed = b\<rparr>"
  "map_vstate f \<lparr>vs_proposal = p, vs_accepted = z\<rparr> = \<lparr>vs_proposal = p, vs_accepted = map_option (map_accepted f) z\<rparr>"
  by (simp_all add: map_server_simps)

lemma map_server_accepted [simp]: "srv_accepted (map_server f s) = map_option (map_accepted f) (srv_accepted s)"
  by (simp add: srv_accepted_def split: option.splits)

lemma map_server_vote: "srv_vote (map_server f s) = map_option (\<lambda>(p, v). (p, map_pvalue f v)) (srv_vote s)"
  by (simp add: srv_vote_def option.map_comp comp_def)

lemma map_current_proposal [simp]: "current_proposal (map_server f s) = current_proposal s"
  by (simp add: current_proposal_def split: option.splits)

lemma map_current_value: "current_value (map_server f s) = map_option (map_accepted f) (current_value s)"
  by (auto simp: current_value_def Let_def split: option.splits pvalue.splits)

lemma map_check_quorum [simp]: "check_quorum (map_server f s) q p = check_quorum s q p"
  by (auto simp: check_quorum_def Let_def split: option.splits pvalue.splits)

lemma map_check_confirmed [simp]: "check_confirmed (map_server f s) p = check_confirmed s p"
  by (auto simp: check_confirmed_def Let_def split: option.splits)

lemma map_commit_accepted: "commit_accepted (map_server f s) (map_accepted f a) = map_server f (commit_accepted s a)"
  by (simp add: commit_accepted_def split: pvalue.splits)

lemma map_propose_advance:
  "propose_advance (map_server f s) q p = map_sum id (map_server f) (propose_advance s q p)"
  by (cases "srv_state s"; cases "check_quorum s q (Some p)"; cases "vs_accepted (the (srv_state s))")
    (simp_all add: propose_advance_def map_commit_accepted)

lemma map_propose_register:
  "propose_register (map_server f s) p = map_prod (map_response f) (map_server f) (propose_register s p)"
  by (cases "srv_state s"; cases "vs_accepted (the (srv_state s))")
    (simp_all add: propose_register_def map_response_def resp_of_def)

lemma map_propose:
  "propose (map_server f s) q p = map_sum id (map_prod (map_response f) (map_server f)) (propose s q p)"
  by (cases "propose_advance s q p")
    (simp_all add: propose_def map_propose_advance map_propose_register map_response_def resp_of_def split: option.splits)

lemma map_accept:
  "accept (map_server f s) q p (map_pvalue f v) = map_sum id (map_prod id (map_server f)) (accept s q p v)"
  by (cases "srv_state s"; cases "check_quorum s q (Some p)"; cases "vs_accepted (the (srv_state s))")
    (simp_all add: accept_def accept_value_def)

lemma map_confirm: "confirm (map_server f s) q p = map_sum id (map_server f) (confirm s q p)"
  by (cases "srv_state s"; cases "check_quorum s q (Some p)"; cases "vs_accepted (the (srv_state s))")
    (simp_all add: confirm_def Let_def)

fun map_op :: "('a \<Rightarrow> 'b) \<Rightarrow> ('a, 'c) server_op \<Rightarrow> ('b, 'c) server_op" where
  "map_op f (OpPropose q p) = OpPropose q p"
| "map_op f (OpAccept q p v) = OpAccept q p (map_pvalue f v)"
| "map_op f (OpConfirm q p) = OpConfirm q p"

lemma map_server_step: "server_step (map_server f s) (map_op f op) = map_server f (server_step s op)"
  by (cases op) (auto simp: map_propose map_accept map_confirm split: sum.splits)

lemma map_server_run: "server_run (map_server f s) (map (map_op f) ops) = map_server f (server_run s ops)"
  by (induction ops arbitrary: s) (simp_all add: server_run_def map_server_step)

end
