(* ===== verification/Memo_Replica.thy ===== *)
theory Memo_Replica
  imports Memo_Decision
begin

text \<open>
  A replica: \<^verbatim>\<open>Paxos::LocalPeer\<close> (src/memo/model/doughnut/consensus/Paxos.cc), the storage
  of a node that takes part in the consensus. It keeps an acceptor per mutable block and
  a plain copy of each immutable block, all in the silo of the node, with a cache of the
  acceptors in use (\<^verbatim>\<open>_addresses\<close>) and, in memory only, the quorum of each known block
  (\<^verbatim>\<open>_quorums\<close>, \<^verbatim>\<open>_node_blocks\<close>), the blocks to rebalance and the nodes seen.

  An operation is a function from the state to an exception or a result and the state it
  leaves; it runs without being interleaved with another one on the same node, so no
  other operation holds an acceptor of the cache. The time of last use, which orders the
  cache, is the position in a list: the clock is taken to advance between two uses. The
  signals \<^verbatim>\<open>on_store\<close> and \<^verbatim>\<open>on_remove\<close> are not modelled. The overlay is a parameter.
\<close>

section \<open>State\<close>

datatype ('k, 's) replica_error =
    PaxosFailure "node_id paxos_error"
  | LocalFailure "('k, 's) local_error"
  | ReplicaErr string   \<comment> \<open>\<^verbatim>\<open>elle::err\<close>\<close>
  | ReplicaAbort        \<comment> \<open>\<^verbatim>\<open>ELLE_ABORT\<close>, a failed assertion or a null pointer being dereferenced\<close>

datatype task = RebalanceBlock key | RebalanceTo node_id

record ('k, 's) replica_env =
  re_node :: "('k, 's) node"
  re_id :: node_id
  re_ids :: id_order
  re_factor :: int
  re_auto_expand :: bool
  re_max_addresses :: int
  re_lookup :: "key \<Rightarrow> int \<Rightarrow> node_id list"

record ('k, 's) replica =
  rp_silo :: silo
  rp_addresses :: "(key \<times> ('k, 's) decision) list" \<comment> \<open>the least recently used first\<close>
  rp_quorums :: "key \<rightharpoonup> bool \<times> node_id set"         \<comment> \<open>immutable, quorum\<close>
  rp_node_blocks :: "(node_id \<times> key) set"
  rp_rebalancable :: "task list"
  rp_nodes :: "node_id set"
  rp_node_timeouts :: "node_id set"

type_synonym ('k, 's, 'a) action =
  "('k, 's) replica \<Rightarrow> (('k, 's) replica_error + 'a) \<times> ('k, 's) replica"

definition ret :: "'a \<Rightarrow> ('k, 's, 'a) action" where
  "ret x r = (Inr x, r)"

definition throw :: "('k, 's) replica_error \<Rightarrow> ('k, 's, 'a) action" where
  "throw e r = (Inl e, r)"

definition bind_st :: "('k, 's, 'a) action \<Rightarrow> ('a \<Rightarrow> ('k, 's, 'b) action) \<Rightarrow> ('k, 's, 'b) action" where
  "bind_st m f r = (case m r of (Inl e, r') \<Rightarrow> (Inl e, r') | (Inr x, r') \<Rightarrow> f x r')"

definition modify :: "(('k, 's) replica \<Rightarrow> ('k, 's) replica) \<Rightarrow> ('k, 's, unit) action" where
  "modify f r = (Inr (), f r)"

text \<open>\<^verbatim>\<open>catch (silo::MissingKey const& k) { throw MissingBlock(k.key()); }\<close>\<close>

definition missing_block :: "('k, 's, 'a) action \<Rightarrow> ('k, 's, 'a) action" where
  "missing_block m r = (case m r of
     (Inl (LocalFailure (SiloFailure (MissingKey k))), r') \<Rightarrow> (Inl (LocalFailure (BlockMissing k)), r')
   | x \<Rightarrow> x)"

definition lift_res :: "('e \<Rightarrow> ('k, 's) replica_error) \<Rightarrow> 'e + 'a \<Rightarrow> ('k, 's, 'a) action" where
  "lift_res f x = (case x of Inl e \<Rightarrow> throw (f e) | Inr v \<Rightarrow> ret v)"

text \<open>The calls to the silo.\<close>

definition silo_action :: "(silo \<Rightarrow> (silo_error + 'a) \<times> silo) \<Rightarrow> ('k, 's, 'a) action" where
  "silo_action f r = (case f (rp_silo r) of
     (Inl e, s) \<Rightarrow> (Inl (LocalFailure (SiloFailure e)), r\<lparr>rp_silo := s\<rparr>)
   | (Inr x, s) \<Rightarrow> (Inr x, r\<lparr>rp_silo := s\<rparr>))"

abbreviation re_wire :: "('k, 's) replica_env \<Rightarrow> 'k wire" where
  "re_wire e \<equiv> no_wire (re_node e)"

abbreviation re_crypto :: "('k, 's) replica_env \<Rightarrow> ('k, 's) crypto" where
  "re_crypto e \<equiv> no_crypto (re_node e)"

abbreviation re_doughnut :: "('k, 's) replica_env \<Rightarrow> ('k, 's) doughnut" where
  "re_doughnut e \<equiv> no_doughnut (re_node e)"

definition storage_get :: "('k, 's) replica_env \<Rightarrow> key \<Rightarrow> ('k, 's, buffer) action" where
  "storage_get e k = silo_action (\<lambda>s. silo_get (no_cipher (re_node e)) s k)"

definition storage_set ::
  "('k, 's) replica_env \<Rightarrow> key \<Rightarrow> buffer \<Rightarrow> bool \<Rightarrow> bool \<Rightarrow> ('k, 's, unit) action" where
  "storage_set e k buf ins upd =
     bind_st (silo_action (\<lambda>s. silo_set (no_cipher (re_node e)) s k buf ins upd)) (\<lambda>_. ret ())"

definition storage_erase :: "key \<Rightarrow> ('k, 's, unit) action" where
  "storage_erase k = bind_st (silo_action (\<lambda>s. silo_erase s k)) (\<lambda>_. ret ())"

definition read_stored ::
  "('k, 's) replica_env \<Rightarrow> buffer \<Rightarrow> ('k, 's, ('k, 's) pointer \<times> ('k, 's) decision option) action" where
  "read_stored e buf =
     lift_res (\<lambda>x. LocalFailure (ReadFailure x))
       (bind_res (deserialize_stored (re_wire e) (re_crypto e) (re_doughnut e) buf) (\<lambda>(x, _). Inr x))"

section \<open>Quorums of the known blocks\<close>

definition schedule :: "task \<Rightarrow> ('k, 's) replica \<Rightarrow> ('k, 's) replica" where
  "schedule t r = r\<lparr>rp_rebalancable := rp_rebalancable r @ [t]\<rparr>"

definition replica_cache :: "key \<Rightarrow> bool \<Rightarrow> node_id set \<Rightarrow> ('k, 's) replica \<Rightarrow> ('k, 's) replica" where
  "replica_cache k imm q r =
     (let nb = (case rp_quorums r k of
          Some (_, old) \<Rightarrow> rp_node_blocks r - (\<lambda>n. (n, k)) ` old
        | None \<Rightarrow> rp_node_blocks r)
      in r\<lparr>rp_quorums := (rp_quorums r)(k \<mapsto> (imm, q)), rp_node_blocks := nb \<union> (\<lambda>n. (n, k)) ` q\<rparr>)"

definition under_factor :: "('k, 's) replica_env \<Rightarrow> node_id set \<Rightarrow> bool" where
  "under_factor e q \<longleftrightarrow> int (card q) < re_factor e"

section \<open>Loading\<close>

text \<open>
  The loop that drops the least recently used acceptors: the bound is computed again at
  each turn, and the acceptor just inserted, the last one, is in use and is not dropped.
\<close>

function evict_loop :: "nat \<Rightarrow> int \<Rightarrow> 'a list \<Rightarrow> 'a list" where
  "evict_loop i m xs =
     (if int i < int (length xs) - m then
        evict_loop (Suc i) m (case xs of x # y # ys \<Rightarrow> y # ys | _ \<Rightarrow> xs)
      else xs)"
  by pat_completeness auto

termination
  by (relation "measure (\<lambda>(i, m, xs). nat (int (length xs) - m - int i))") (auto split: list.splits)

declare evict_loop.simps [simp del]

definition insert_decision ::
  "('k, 's) replica_env \<Rightarrow> key \<Rightarrow> ('k, 's) decision \<Rightarrow> ('k, 's) replica \<Rightarrow> ('k, 's) replica" where
  "insert_decision e k dec r =
     (let q = current_quorum (dec_paxos dec);
          r1 = replica_cache k False q r;
          r2 = (if re_auto_expand e \<and> current_value (dec_paxos dec) \<noteq> None \<and> under_factor e q
                then schedule (RebalanceBlock k) r1 else r1)
      in r2\<lparr>rp_addresses := evict_loop 0 (re_max_addresses e) (rp_addresses r2 @ [(k, dec)])\<rparr>)"

definition touch :: "key \<Rightarrow> ('k, 's) decision \<Rightarrow> ('k, 's) replica \<Rightarrow> ('k, 's) replica" where
  "touch k dec r = r\<lparr>rp_addresses := AList.delete k (rp_addresses r) @ [(k, dec)]\<rparr>"

definition load_block :: "('k, 's) replica_env \<Rightarrow> key \<Rightarrow> ('k, 's) replica \<Rightarrow> ('k, 's) replica" where
  "load_block e k r =
     (if re_auto_expand e \<and> rp_quorums r k = None then
        let q = set (re_lookup e k (re_factor e)); r1 = replica_cache k True q r in
        if under_factor e q then schedule (RebalanceBlock k) r1 else r1
      else r)"

datatype ('k, 's) stored_item = IsBlock "('k, 's) any_block" | IsPaxos "('k, 's) decision"

definition replica_load :: "('k, 's) replica_env \<Rightarrow> key \<Rightarrow> ('k, 's, ('k, 's) stored_item) action" where
  "replica_load e k r =
     (case map_of (rp_addresses r) k of
        Some dec \<Rightarrow> (Inr (IsPaxos dec), touch k dec r)
      | None \<Rightarrow>
          bind_st (storage_get e k) (\<lambda>buf. bind_st (read_stored e buf) (\<lambda>x.
            case x of
              (Some b, _) \<Rightarrow> bind_st (modify (load_block e k)) (\<lambda>_. ret (IsBlock b))
            | (None, Some dec) \<Rightarrow> bind_st (modify (insert_decision e k dec)) (\<lambda>_. ret (IsPaxos dec))
            | (None, None) \<Rightarrow> throw ReplicaAbort)) r)"

text \<open>
  \<^verbatim>\<open>_load_paxos\<close>: the acceptor of a block. When it is missing and a quorum is given, a new
  one is made with it, which fails an assertion if the node is not in the quorum.
\<close>

definition create_paxos ::
  "('k, 's) replica_env \<Rightarrow> key \<Rightarrow> node_id set \<Rightarrow> ('k, 's) pointer \<Rightarrow> ('k, 's, ('k, 's) decision) action" where
  "create_paxos e k q b =
     bind_st (lift_res (\<lambda>_. ReplicaAbort)
       (server_new (re_id e) q (case b of None \<Rightarrow> None | Some _ \<Rightarrow> Some b) (wi_elle (re_wire e)))) (\<lambda>s.
       bind_st (modify (insert_decision e k (decision_new s))) (\<lambda>_. ret (decision_new s)))"

definition load_paxos ::
  "('k, 's) replica_env \<Rightarrow> key \<Rightarrow> node_id set option \<Rightarrow> ('k, 's) pointer \<Rightarrow> ('k, 's, ('k, 's) decision) action" where
  "load_paxos e k peers b r =
     (case replica_load e k r of
        (Inr (IsBlock _), r') \<Rightarrow> (Inl (ReplicaErr ''immutable block found when paxos was expected''), r')
      | (Inr (IsPaxos dec), r') \<Rightarrow> (Inr dec, r')
      | (Inl (LocalFailure (SiloFailure (MissingKey k'))), r') \<Rightarrow>
          (case peers of
             Some q \<Rightarrow> create_paxos e k q b r'
           | None \<Rightarrow> (Inl (LocalFailure (BlockMissing k')), r'))
      | (Inl x, r') \<Rightarrow> (Inl x, r'))"

text \<open>
  An acceptor is changed in place, hence in the cache, and then written to the silo.
\<close>

definition put_decision :: "key \<Rightarrow> ('k, 's) decision \<Rightarrow> ('k, 's) replica \<Rightarrow> ('k, 's) replica" where
  "put_decision k dec r = r\<lparr>rp_addresses := map (\<lambda>(k', d). if k' = k then (k', dec) else (k', d)) (rp_addresses r)\<rparr>"

definition save_decision :: "('k, 's) replica_env \<Rightarrow> key \<Rightarrow> ('k, 's) decision \<Rightarrow> ('k, 's, unit) action" where
  "save_decision e k dec =
     bind_st (modify (put_decision k dec)) (\<lambda>_.
       case stored_paxos (re_wire e) (re_ids e) dec of
         None \<Rightarrow> throw ReplicaAbort
       | Some buf \<Rightarrow> storage_set e k buf True True)"

section \<open>Operations of the consensus\<close>

definition replica_erase :: "key \<Rightarrow> ('k, 's, unit) action" where
  "replica_erase k = bind_st (missing_block (storage_erase k)) (\<lambda>_.
     modify (\<lambda>r. r\<lparr>rp_node_blocks := {nb \<in> rp_node_blocks r. snd nb \<noteq> k},
                    rp_addresses := AList.delete k (rp_addresses r)\<rparr>))"

definition replica_propose ::
  "('k, 's) replica_env \<Rightarrow> node_id set \<Rightarrow> key \<Rightarrow> node_id proposal \<Rightarrow> bool
     \<Rightarrow> ('k, 's, (('k, 's) pointer, node_id) response) action" where
  "replica_propose e q k p ins =
     bind_st (load_paxos e k (if ins then Some q else None) None) (\<lambda>dec.
       bind_st (lift_res PaxosFailure (propose (dec_paxos dec) q p)) (\<lambda>(res, s).
         bind_st (save_decision e k (dec\<lparr>dec_paxos := s\<rparr>)) (\<lambda>_. ret res)))"

text \<open>A block that was validated remembers it.\<close>

definition mark_validated :: "('k, 's) any_block \<Rightarrow> ('k, 's) any_block" where
  "mark_validated b = (case b of
     PlainBlock b \<Rightarrow> PlainBlock (b\<lparr>blk_validated := True\<rparr>) | CHB b \<Rightarrow> CHB (b\<lparr>blk_validated := True\<rparr>)
   | NB b \<Rightarrow> NB (b\<lparr>blk_validated := True\<rparr>) | UB b \<Rightarrow> UB (b\<lparr>blk_validated := True\<rparr>)
   | OKB b \<Rightarrow> OKB (b\<lparr>blk_validated := True\<rparr>) | ACB b \<Rightarrow> ACB (b\<lparr>blk_validated := True\<rparr>)
   | GB b \<Rightarrow> GB (b\<lparr>blk_validated := True\<rparr>))"

definition validate_value ::
  "('k, 's) replica_env \<Rightarrow> ('k, 's) paxos_value \<Rightarrow> ('k, 's) replica_error + ('k, 's) paxos_value" where
  "validate_value e v = (case v of
     PVal (Some b) \<Rightarrow>
       (case validate_block (re_crypto e) (re_doughnut e) True b of
          Inl x \<Rightarrow> Inl (LocalFailure (BlockFailure x))
        | Inr res \<Rightarrow> if vr_success res then Inr (PVal (Some (mark_validated b)))
                     else Inl (LocalFailure (ValidationFailed (vr_reason res))))
   | _ \<Rightarrow> Inr v)"

text \<open>The check against the block that the new one replaces.\<close>

definition validate_previous ::
  "('k, 's) paxos_server \<Rightarrow> ('k, 's) paxos_value \<Rightarrow> ('k, 's) replica_error + unit" where
  "validate_previous s v = (case v of
     PVal (Some b) \<Rightarrow>
       (case current_value s of
          None \<Rightarrow> Inr ()
        | Some prev \<Rightarrow>
            (case acc_value prev of
               PVal (Some p) \<Rightarrow>
                 (case validate_over p b of
                    Inl x \<Rightarrow> Inl (LocalFailure (BlockFailure x))
                  | Inr res \<Rightarrow> if vr_success res then Inr ()
                               else Inl (LocalFailure (Conflict ''peer validation failed'' b)))
             | _ \<Rightarrow> Inl ReplicaAbort))
   | _ \<Rightarrow> Inr ())"

definition replica_accept ::
  "('k, 's) replica_env \<Rightarrow> node_id set \<Rightarrow> key \<Rightarrow> node_id proposal \<Rightarrow> ('k, 's) paxos_value
     \<Rightarrow> ('k, 's, node_id proposal) action" where
  "replica_accept e q k p v =
     bind_st (lift_res id (validate_value e v)) (\<lambda>v'.
       bind_st (load_paxos e k None None) (\<lambda>dec.
         bind_st (lift_res id (validate_previous (dec_paxos dec) v')) (\<lambda>_.
           bind_st (lift_res PaxosFailure (accept (dec_paxos dec) q p v')) (\<lambda>(res, s).
             bind_st (save_decision e k (dec\<lparr>dec_paxos := s\<rparr>)) (\<lambda>_. ret res)))))"

text \<open>
  The quorum that the replica takes for the current one after a confirmation: with a
  value before it, the last accepted quorum, confirmed or not.
\<close>

definition confirmed_quorum :: "bool \<Rightarrow> ('k, 's) paxos_server \<Rightarrow> node_id set option" where
  "confirmed_quorum had_value s =
     (if \<not> had_value then Some (current_quorum s)
      else case srv_accepted s of
             Some a \<Rightarrow> (case acc_value a of PQuorum q \<Rightarrow> Some q | PVal _ \<Rightarrow> None)
           | None \<Rightarrow> None)"

definition confirm_quorum ::
  "('k, 's) replica_env \<Rightarrow> key \<Rightarrow> ('k, 's) paxos_server \<Rightarrow> node_id set \<Rightarrow> ('k, 's, unit) action" where
  "confirm_quorum e k s q =
     (if re_id e \<notin> q then replica_erase k
      else modify (\<lambda>r. let r1 = replica_cache k False q r in
             if re_auto_expand e \<and> current_value s \<noteq> None \<and> under_factor e q
             then schedule (RebalanceBlock k) r1 else r1))"

definition replica_confirm ::
  "('k, 's) replica_env \<Rightarrow> node_id set \<Rightarrow> key \<Rightarrow> node_id proposal \<Rightarrow> ('k, 's, unit) action" where
  "replica_confirm e q k p =
     bind_st (missing_block (replica_load e k)) (\<lambda>x. case x of
       IsPaxos dec \<Rightarrow>
         bind_st (lift_res PaxosFailure (confirm (dec_paxos dec) q p)) (\<lambda>s.
           bind_st (save_decision e k (dec\<lparr>dec_paxos := s\<rparr>)) (\<lambda>_.
             case confirmed_quorum (current_value (dec_paxos dec) \<noteq> None) s of
               Some q' \<Rightarrow> confirm_quorum e k s q'
             | None \<Rightarrow> ret ()))
     | IsBlock b \<Rightarrow>
         modify (\<lambda>r. let r1 = replica_cache k True q r in
           if re_auto_expand e \<and> under_factor e q then schedule (RebalanceBlock k) r1 else r1))"

text \<open>The block is left out when the caller has this version of it; it must be mutable.\<close>

definition honor_local_version ::
  "int option \<Rightarrow> (('k, 's) pointer, node_id) accepted option
     \<Rightarrow> ('k, 's) replica_error + (('k, 's) pointer, node_id) accepted option" where
  "honor_local_version lv acc = (case (lv, acc) of
     (Some v, Some a) \<Rightarrow>
       (case acc_value a of
          PVal p \<Rightarrow>
            (case Option.bind p mutable_version of
               None \<Rightarrow> Inl ReplicaAbort
             | Some w \<Rightarrow> if w = v then Inr (Some (a\<lparr>acc_value := PVal None\<rparr>)) else Inr acc)
        | PQuorum _ \<Rightarrow> Inr acc)
   | _ \<Rightarrow> Inr acc)"

definition replica_get ::
  "('k, 's) replica_env \<Rightarrow> node_id set \<Rightarrow> key \<Rightarrow> int option
     \<Rightarrow> ('k, 's, (('k, 's) pointer, node_id) accepted option) action" where
  "replica_get e q k lv =
     bind_st (load_paxos e k None None) (\<lambda>dec.
       bind_st (lift_res PaxosFailure (server_get (dec_paxos dec) q)) (\<lambda>acc.
         lift_res id (honor_local_version lv acc)))"

text \<open>
  \<^verbatim>\<open>propagate\<close>: another owner sends the block and the quorum elected at \<open>p\<close>. Nothing is
  validated. A block that is not in the cache may be in the silo already.
\<close>

definition replica_propagate ::
  "('k, 's) replica_env \<Rightarrow> node_id set \<Rightarrow> ('k, 's) pointer \<Rightarrow> node_id proposal \<Rightarrow> ('k, 's, unit) action" where
  "replica_propagate e q b p = (case b of
     None \<Rightarrow> throw ReplicaAbort
   | Some blk \<Rightarrow>
      (\<lambda>r. if map_of (rp_addresses r) (block_key blk) \<noteq> None then (Inr (), r)
       else
         let k = block_key blk; put = (\<lambda>dec s. modify (put_decision k (dec\<lparr>dec_paxos := s\<rparr>))) in
         bind_st (load_paxos e k (Some q) b) (\<lambda>dec.
           bind_st (lift_res PaxosFailure (propose (dec_paxos dec) q p)) (\<lambda>(_, s1).
             bind_st (put dec s1) (\<lambda>_.
               bind_st (lift_res PaxosFailure (accept s1 q p (PQuorum q))) (\<lambda>(_, s2).
                 bind_st (put dec s2) (\<lambda>_.
                   bind_st (lift_res PaxosFailure (confirm s2 q p)) (\<lambda>s3.
                     save_decision e k (dec\<lparr>dec_paxos := s3\<rparr>))))))) r))"

section \<open>Immutable blocks and removals\<close>

definition is_immutable :: "('k, 's) any_block \<Rightarrow> bool" where
  "is_immutable b = (case b of CHB _ \<Rightarrow> True | NB _ \<Rightarrow> True | UB _ \<Rightarrow> True | _ \<Rightarrow> False)"

definition replica_fetch :: "('k, 's) replica_env \<Rightarrow> key \<Rightarrow> ('k, 's, ('k, 's) any_block) action" where
  "replica_fetch e k =
     bind_st (storage_get e k) (\<lambda>buf. bind_st (read_stored e buf) (\<lambda>(b, _).
       case b of None \<Rightarrow> throw (ReplicaErr ''plain fetch called on mutable block'') | Some b \<Rightarrow> ret b))"

definition over_result ::
  "('k, 's) any_block \<Rightarrow> blk_error + validation_result \<Rightarrow> ('k, 's) replica_error + unit" where
  "over_result prev res = (case res of
     Inl x \<Rightarrow> Inl (LocalFailure (BlockFailure x))
   | Inr vr \<Rightarrow> if vr_success vr then Inr ()
               else if vr_is_conflict vr then Inl (LocalFailure (Conflict (vr_reason vr) prev))
               else Inl (LocalFailure (ValidationFailed (vr_reason vr))))"

definition store_previous ::
  "('k, 's) replica_env \<Rightarrow> ('k, 's) any_block \<Rightarrow> ('k, 's, unit) action" where
  "store_previous e b =
     bind_st (storage_get e (block_key b)) (\<lambda>buf. bind_st (read_stored e buf) (\<lambda>(p, _).
       case p of
         None \<Rightarrow> throw (LocalFailure (ValidationFailed ''storing immutable block on mutable block''))
       | Some prev \<Rightarrow> lift_res id (over_result prev (validate_over prev b))))"

definition replica_store ::
  "('k, 's) replica_env \<Rightarrow> ('k, 's) any_block \<Rightarrow> store_mode \<Rightarrow> ('k, 's, unit) action" where
  "replica_store e b mode =
     bind_st (lift_res id (validate_value e (PVal (Some b)))) (\<lambda>_.
       if \<not> is_immutable b then throw (LocalFailure (ValidationFailed ''bypassing Paxos for a mutable block''))
       else (\<lambda>r.
         let write = storage_set e (block_key b) (stored_block (re_wire e) b) (mode = STORE_INSERT) (mode = STORE_UPDATE)
         in case store_previous e b r of
              (Inl (LocalFailure (SiloFailure (MissingKey _))), r') \<Rightarrow> write r'
            | (Inl x, r') \<Rightarrow> (Inl x, r')
            | (Inr _, r') \<Rightarrow> write r'))"

definition replica_remove ::
  "('k, 's) replica_env \<Rightarrow> key \<Rightarrow> ('k, 's) remove_signature \<Rightarrow> ('k, 's, unit) action" where
  "replica_remove e k rs =
     (let chk = (\<lambda>b. lift_res id (over_result b
            (validate_remove (re_crypto e) (re_doughnut e) (no_tail (re_node e)) rs b))) in
      bind_st (missing_block (bind_st (replica_load e k) (\<lambda>x. case x of
          IsBlock b \<Rightarrow> chk b
        | IsPaxos dec \<Rightarrow>
            (case current_value (dec_paxos dec) of
               None \<Rightarrow> ret ()
             | Some a \<Rightarrow>
                 (case acc_value a of PVal (Some b) \<Rightarrow> chk b | _ \<Rightarrow> throw ReplicaAbort)))))
        (\<lambda>_. replica_erase k))"

text \<open>
  \<^verbatim>\<open>reconcile\<close>: \<open>run\<close> asks the current quorum for the state of the block, through a Paxos
  client; a block that the others have lost is dropped.
\<close>

definition replica_reconcile ::
  "('k, 's) replica_env \<Rightarrow> (node_id set \<Rightarrow> ('k, 's, unit) action) \<Rightarrow> address \<Rightarrow> ('k, 's, bool) action" where
  "replica_reconcile e run a =
     (if \<not> addr_mutable a then ret False
      else (\<lambda>r. case bind_st (load_paxos e (addr_value a) None None) (\<lambda>dec. run (current_quorum (dec_paxos dec))) r of
        (Inr _, r') \<Rightarrow> (Inr False, r')
      | (Inl (LocalFailure (BlockMissing _)), r') \<Rightarrow>
          (case replica_erase (addr_value a) r' of
             (Inr _, r'') \<Rightarrow> (Inr True, r'')
           | (Inl (LocalFailure (BlockMissing _)), r'') \<Rightarrow> (Inr True, r'')
           | (Inl x, r'') \<Rightarrow> (Inl x, r''))
      | (Inl x, r') \<Rightarrow> (Inl x, r')))"

section \<open>Nodes that come and go\<close>

definition replica_discovered :: "('k, 's) replica_env \<Rightarrow> node_id \<Rightarrow> ('k, 's) replica \<Rightarrow> ('k, 's) replica" where
  "replica_discovered e i r =
     (let r1 = r\<lparr>rp_nodes := insert i (rp_nodes r), rp_node_timeouts := rp_node_timeouts r - {i}\<rparr> in
      if re_auto_expand e then schedule (RebalanceTo i) r1 else r1)"

definition replica_disappeared :: "node_id \<Rightarrow> ('k, 's) replica \<Rightarrow> ('k, 's) replica" where
  "replica_disappeared i r =
     (if i \<in> rp_nodes r
      then r\<lparr>rp_nodes := rp_nodes r - {i}, rp_node_timeouts := insert i (rp_node_timeouts r)\<rparr> else r)"

text \<open>The part of \<^verbatim>\<open>_disappeared_evict\<close> for an immutable block the lost node kept.\<close>

definition evict_immutable ::
  "('k, 's) replica_env \<Rightarrow> node_id \<Rightarrow> key \<Rightarrow> ('k, 's, unit) action" where
  "evict_immutable e lost k r =
     (case rp_quorums r k of
        None \<Rightarrow> (Inl ReplicaAbort, r)
      | Some (_, q) \<Rightarrow>
          if lost \<in> q then
            let r1 = replica_cache k True (q - {lost}) r in
            (Inr (), if under_factor e (q - {lost}) then schedule (RebalanceBlock k) r1 else r1)
          else (Inr (), r))"

text \<open>The body of the inspector, for a listed block.\<close>

definition replica_inspect :: "('k, 's) replica_env \<Rightarrow> key \<Rightarrow> ('k, 's, unit) action" where
  "replica_inspect e k r =
     (case replica_load e k r of
        (Inr (IsPaxos _), r') \<Rightarrow>
          (case rp_quorums r' k of
             None \<Rightarrow> (Inl ReplicaAbort, r')
           | Some (_, q) \<Rightarrow>
               (Inr (), if under_factor e q then r' else r'\<lparr>rp_addresses := AList.delete k (rp_addresses r')\<rparr>))
      | (Inr (IsBlock _), r') \<Rightarrow> (Inr (), r')
      | (Inl (LocalFailure (BlockMissing _)), r') \<Rightarrow> (Inr (), r')
      | (Inl x, r') \<Rightarrow> (Inl x, r'))"

section \<open>Remote calls\<close>

datatype ('k, 's) replica_request =
    ReqPropose "node_id set" key "node_id proposal" bool
  | ReqAccept "node_id set" key "node_id proposal" "('k, 's) paxos_value"
  | ReqConfirm "node_id set" key "node_id proposal"
  | ReqGet "node_id set" key "int option"
  | ReqPropagate "node_id set" "('k, 's) pointer" "node_id proposal"
  | ReqStore "('k, 's) any_block" store_mode
  | ReqFetch key
  | ReqRemove key "('k, 's) remove_signature"

datatype ('k, 's) replica_reply =
    RepResponse "(('k, 's) pointer, node_id) response"
  | RepProposal "node_id proposal"
  | RepAccepted "(('k, 's) pointer, node_id) accepted option"
  | RepBlock "('k, 's) any_block"
  | RepDone

text \<open>\<^verbatim>\<open>confirm\<close> and \<^verbatim>\<open>get\<close> do not ask for an authenticated caller.\<close>

definition request_auth :: "('k, 's) replica_request \<Rightarrow> bool option" where
  "request_auth req = (case req of
     ReqConfirm _ _ _ \<Rightarrow> None | ReqGet _ _ _ \<Rightarrow> None | ReqFetch _ \<Rightarrow> Some False | _ \<Rightarrow> Some True)"

definition replica_run ::
  "('k, 's) replica_env \<Rightarrow> ('k, 's) replica_request \<Rightarrow> ('k, 's, ('k, 's) replica_reply) action" where
  "replica_run e req = (case req of
     ReqPropose q k p ins \<Rightarrow> bind_st (replica_propose e q k p ins) (\<lambda>x. ret (RepResponse x))
   | ReqAccept q k p v \<Rightarrow> bind_st (replica_accept e q k p v) (\<lambda>x. ret (RepProposal x))
   | ReqConfirm q k p \<Rightarrow> bind_st (replica_confirm e q k p) (\<lambda>_. ret RepDone)
   | ReqGet q k lv \<Rightarrow> bind_st (replica_get e q k lv) (\<lambda>x. ret (RepAccepted x))
   | ReqPropagate q b p \<Rightarrow> bind_st (replica_propagate e q b p) (\<lambda>_. ret RepDone)
   | ReqStore b mode \<Rightarrow> bind_st (replica_store e b mode) (\<lambda>_. ret RepDone)
   | ReqFetch k \<Rightarrow> bind_st (replica_fetch e k) (\<lambda>b. ret (RepBlock b))
   | ReqRemove k rs \<Rightarrow> bind_st (replica_remove e k rs) (\<lambda>_. ret RepDone))"

definition replica_rpc ::
  "bool \<Rightarrow> ('k, 's) replica_env \<Rightarrow> 'k session \<Rightarrow> ('k, 's) replica_request \<Rightarrow> ('k, 's, ('k, 's) replica_reply) action" where
  "replica_rpc encrypt_rpc e se req =
     (case request_auth req of
        None \<Rightarrow> replica_run e req
      | Some write_op \<Rightarrow>
          bind_st (lift_res LocalFailure (require_auth encrypt_rpc se write_op)) (\<lambda>_. replica_run e req))"

end
