(* ===== verification/Memo_Durable.thy ===== *)
theory Memo_Durable
  imports Memo_Replica
begin

text \<open>
  What a replica keeps through its requests, reconciliations and restarts. The invariant ties the cache of
  acceptors to the silo: every acceptor in the cache was written after its last change, so
  the silo alone holds every promise and vote of the node. Each operation is then shown to
  be a run of steps of the acceptor it works on (Paxos_Server), or its removal, and the
  properties of an acceptor carry over to the replica and across restarts.
\<close>

section \<open>Invariant\<close>

lemma st_simps [simp]:
  "ret x r = (Inr x, r)" "throw e r = (Inl e, r)" "modify f r = (Inr (), f r)"
  "bind_st (ret x) g = g x" "bind_st (throw e) h = throw e"
  by (simp_all add: ret_def throw_def modify_def bind_st_def fun_eq_iff)

lemma bind_st_Inl: "m r = (Inl x, r') \<Longrightarrow> bind_st m f r = (Inl x, r')"
  by (simp add: bind_st_def)

lemma bind_st_Inr: "m r = (Inr x, r') \<Longrightarrow> bind_st m f r = f x r'"
  by (simp add: bind_st_def)

lemma bind_st_modify [simp]: "bind_st (modify g) f r = f () (g r)"
  by (simp add: bind_st_def)

lemma lift_res_simps [simp]: "lift_res f (Inl x) = throw (f x)" "lift_res f (Inr v) = ret v"
  by (simp_all add: lift_res_def)

lemma bind_stE:
  assumes "bind_st m f r = (x, r')"
  obtains e where "m r = (Inl e, r')" "x = Inl e" | y r1 where "m r = (Inr y, r1)" "f y r1 = (x, r')"
  using assms by (auto simp: bind_st_def split: prod.splits sum.splits)

abbreviation disk :: "('k, 's) replica_env \<Rightarrow> ('k, 's) replica \<Rightarrow> key \<Rightarrow> buffer option" where
  "disk e r \<equiv> stored (re_node e) (rp_silo r)"

definition env_ok :: "('k, 's) replica_env \<Rightarrow> bool" where
  "env_ok e \<longleftrightarrow> wire_current (re_wire e) (re_ids e)"

definition fit_decision :: "('k, 's) replica_env \<Rightarrow> ('k, 's) decision \<Rightarrow> bool" where
  "fit_decision e dec \<longleftrightarrow> decision_ok (re_wire e) (re_crypto e) (re_doughnut e) dec \<and> server_inv (dec_paxos dec)"

definition fit_block :: "('k, 's) replica_env \<Rightarrow> ('k, 's) any_block \<Rightarrow> bool" where
  "fit_block e b \<longleftrightarrow> block_writable (re_wire e) (re_crypto e) (re_doughnut e) b"

definition written :: "('k, 's) replica_env \<Rightarrow> ('k, 's) decision \<Rightarrow> buffer option" where
  "written e dec = stored_paxos (re_wire e) (re_ids e) dec"

text \<open>
  Every stored buffer was written by the node, and every acceptor of the cache is the one
  in the silo: it was written after its last change.
\<close>

definition replica_inv :: "('k, 's) replica_env \<Rightarrow> ('k, 's) replica \<Rightarrow> bool" where
  "replica_inv e r \<longleftrightarrow>
     silo_good (no_cipher (re_node e)) (rp_silo r) \<and> distinct (map fst (rp_addresses r)) \<and>
     (\<forall>k buf. disk e r k = Some buf \<longrightarrow> length k = value_size \<and>
        ((\<exists>b. fit_block e b \<and> buf = stored_block (re_wire e) b) \<or> (\<exists>dec. fit_decision e dec \<and> written e dec = Some buf))) \<and>
     (\<forall>k dec. (k, dec) \<in> set (rp_addresses r) \<longrightarrow> fit_decision e dec \<and> written e dec = disk e r k)"

text \<open>The acceptor of a block in the silo, as a node that restarts reads it.\<close>

definition disk_server :: "('k, 's) replica_env \<Rightarrow> ('k, 's) replica \<Rightarrow> key \<Rightarrow> ('k, 's) paxos_server option" where
  "disk_server e r k = Option.bind (disk e r k) (\<lambda>buf.
     case deserialize_stored (re_wire e) (re_crypto e) (re_doughnut e) buf of
       Inr ((None, Some dec), _) \<Rightarrow> Some (dec_paxos dec)
     | _ \<Rightarrow> None)"

definition disk_block :: "('k, 's) replica_env \<Rightarrow> ('k, 's) replica \<Rightarrow> key \<Rightarrow> ('k, 's) any_block option" where
  "disk_block e r k = Option.bind (disk e r k) (\<lambda>buf.
     case deserialize_stored (re_wire e) (re_crypto e) (re_doughnut e) buf of
       Inr ((b, _), _) \<Rightarrow> b
     | _ \<Rightarrow> None)"

abbreviation seen :: "('k, 's) replica_env \<Rightarrow> ('k, 's) paxos_server \<Rightarrow> ('k, 's) paxos_server" where
  "seen e \<equiv> server_as_read (re_crypto e) (re_doughnut e)"

lemma disk_server_cong: "disk e r k = disk e r' k \<Longrightarrow> disk_server e r k = disk_server e r' k"
  by (simp add: disk_server_def)

lemma written_read:
  assumes "env_ok e" and "fit_decision e dec"
  shows "\<exists>buf. written e dec = Some buf \<and>
    deserialize_stored (re_wire e) (re_crypto e) (re_doughnut e) buf =
      Inr ((None, Some (decision_as_read (re_crypto e) (re_doughnut e) dec)), [])"
  unfolding written_def using assms by (intro stored_paxos_read) (simp_all add: env_ok_def fit_decision_def)

lemma disk_server_written:
  assumes "env_ok e" and "fit_decision e dec" and "disk e r k = written e dec"
  shows "disk_server e r k = Some (seen e (dec_paxos dec))"
  using written_read [OF assms(1,2)] assms(3) by (auto simp: disk_server_def decision_as_read_def)

lemma map_server_inv [simp]: "server_inv (map_server f s) = server_inv s"
  by (auto simp: server_inv_def split: option.splits)

lemma server_ok_mono:
  assumes "\<And>x. P x \<Longrightarrow> Q x" and "server_ok P s"
  shows "server_ok Q s"
  using assms
  by (cases "srv_value s"; cases "srv_state s"; cases "vs_accepted (the (srv_state s))")
    (auto simp: server_ok_def accepted_ok_def value_ok_def split: pvalue.splits)

text \<open>An acceptor that was read is written as it was.\<close>

lemma fit_as_read:
  assumes "env_ok e" and "fit_decision e dec"
  shows "fit_decision e (decision_as_read (re_crypto e) (re_doughnut e) dec)"
    "written e (decision_as_read (re_crypto e) (re_doughnut e) dec) = written e dec"
proof -
  note s = as_read_server [where s = "dec_paxos dec" and wi = "re_wire e" and ci = "re_crypto e" and d = "re_doughnut e"]
  have ok: "server_ok (writable (re_wire e) (re_crypto e) (re_doughnut e)) (dec_paxos dec)" "Version 0 2 0 \<le> wi_elle (re_wire e)"
    using assms by (simp_all add: fit_decision_def decision_ok_def env_ok_def wire_current_def)
  show "written e (decision_as_read (re_crypto e) (re_doughnut e) dec) = written e dec"
    using s(1) [OF ok] by (simp add: written_def stored_paxos_def serialize_decision_def decision_as_read_def)
  have "pointer_ok wi ci d p \<Longrightarrow> writable wi ci d p" for wi ci d and p :: "('a, 'b) pointer"
    by (cases p) (auto simp: block_read_form_def block_writable_def)
  then have "server_ok (writable (re_wire e) (re_crypto e) (re_doughnut e)) (seen e (dec_paxos dec))"
    using server_ok_mono [OF _ s(2) [OF ok]] by blast
  then show "fit_decision e (decision_as_read (re_crypto e) (re_doughnut e) dec)"
    using assms(2) by (simp add: fit_decision_def decision_ok_def decision_as_read_def)
qed

lemma seen_idem:
  assumes "env_ok e" and "fit_decision e dec"
  shows "seen e (seen e (dec_paxos dec)) = seen e (dec_paxos dec)"
proof -
  obtain buf where buf: "written e dec = Some buf"
    "deserialize_stored (re_wire e) (re_crypto e) (re_doughnut e) buf =
      Inr ((None, Some (decision_as_read (re_crypto e) (re_doughnut e) dec)), [])"
    using written_read [OF assms] by blast
  with written_read [OF assms(1) fit_as_read(1) [OF assms]] fit_as_read(2) [OF assms] show ?thesis
    by (auto simp: decision_as_read_def dest: arg_cong [where f = dec_paxos])
qed

text \<open>What is true while an acceptor is in the cache and not yet written.\<close>

definition replica_inv_but :: "('k, 's) replica_env \<Rightarrow> key \<Rightarrow> ('k, 's) replica \<Rightarrow> bool" where
  "replica_inv_but e k r \<longleftrightarrow>
     silo_good (no_cipher (re_node e)) (rp_silo r) \<and> distinct (map fst (rp_addresses r)) \<and>
     (\<forall>k' buf. disk e r k' = Some buf \<longrightarrow> length k' = value_size \<and>
        ((\<exists>b. fit_block e b \<and> buf = stored_block (re_wire e) b) \<or> (\<exists>dec. fit_decision e dec \<and> written e dec = Some buf))) \<and>
     (\<forall>k' dec. (k', dec) \<in> set (rp_addresses r) \<longrightarrow> k' \<noteq> k \<longrightarrow> fit_decision e dec \<and> written e dec = disk e r k')"

lemma inv_but: "replica_inv e r \<Longrightarrow> replica_inv_but e k r"
  by (auto simp: replica_inv_def replica_inv_but_def)

section \<open>Loading and saving\<close>

lemma evict_loop_suffix: "\<exists>zs. xs = zs @ evict_loop i m xs"
proof (induction i m xs rule: evict_loop.induct)
  case (1 i m xs)
  show ?case
  proof (cases "int i < int (length xs) - m")
    case True
    let ?ys = "case xs of x # y # ys \<Rightarrow> y # ys | _ \<Rightarrow> xs"
    obtain zs where "?ys = zs @ evict_loop (Suc i) m ?ys" using 1 True by blast
    moreover have "evict_loop i m xs = evict_loop (Suc i) m ?ys" using True by (subst evict_loop.simps) simp
    moreover have "\<exists>us. xs = us @ ?ys" by (auto split: list.splits intro: exI [of _ "[_]"])
    ultimately show ?thesis by (metis append.assoc)
  qed (simp add: evict_loop.simps)
qed

lemma evict_loop_nonempty: "xs \<noteq> [] \<Longrightarrow> evict_loop i m xs \<noteq> []"
proof (induction i m xs rule: evict_loop.induct)
  case (1 i m xs)
  then show ?case
    by (cases "int i < int (length xs) - m") (subst evict_loop.simps, auto split: list.splits simp: evict_loop.simps)
qed

text \<open>The acceptor just inserted stays in the cache, with some of the others.\<close>

lemma evict_loop_last:
  assumes "evict_loop i m (xs @ [x]) = ys"
  shows "x \<in> set ys \<and> set ys \<subseteq> insert x (set xs) \<and> (distinct (map fst (xs @ [x])) \<longrightarrow> distinct (map fst ys))"
proof -
  obtain zs where zs: "xs @ [x] = zs @ ys" using evict_loop_suffix [of "xs @ [x]" i m] assms by auto
  moreover have "ys \<noteq> []" using assms evict_loop_nonempty by blast
  ultimately have "last ys = x" by (metis last_appendR last_snoc)
  then have "x \<in> set ys" using \<open>ys \<noteq> []\<close> last_in_set by blast
  moreover have "set ys \<subseteq> set (xs @ [x])" unfolding zs by simp
  moreover have "distinct (map fst (xs @ [x])) \<longrightarrow> distinct (map fst ys)" unfolding zs by simp
  ultimately show ?thesis by auto
qed

lemma cache_fields [simp]:
  "rp_silo (replica_cache k i q r) = rp_silo r" "rp_addresses (replica_cache k i q r) = rp_addresses r"
  "rp_silo (schedule t r) = rp_silo r" "rp_addresses (schedule t r) = rp_addresses r"
  "rp_silo (load_block e k r) = rp_silo r" "rp_addresses (load_block e k r) = rp_addresses r"
  "rp_silo (insert_decision e k dec r) = rp_silo r" "rp_silo (touch k dec r) = rp_silo r"
  "rp_silo (put_decision k dec r) = rp_silo r"
  by (simp_all add: replica_cache_def schedule_def load_block_def insert_decision_def touch_def put_decision_def Let_def)

lemma inv_cong:
  assumes "replica_inv e r" and "rp_silo r' = rp_silo r" and "rp_addresses r' = rp_addresses r"
  shows "replica_inv e r'"
  using assms by (simp add: replica_inv_def)

lemma inv_insert:
  assumes "replica_inv e r" and "map_of (rp_addresses r) k = None" and "fit_decision e dec" and "written e dec = disk e r k"
  shows "replica_inv e (insert_decision e k dec r)" "map_of (rp_addresses (insert_decision e k dec r)) k = Some dec"
proof -
  let ?ys = "evict_loop 0 (re_max_addresses e) (rp_addresses r @ [(k, dec)])"
  have a: "rp_addresses (insert_decision e k dec r) = ?ys" by (simp add: insert_decision_def Let_def)
  have "distinct (map fst (rp_addresses r @ [(k, dec)]))"
    using assms(1,2) by (simp add: replica_inv_def map_of_eq_None_iff)
  with evict_loop_last [OF refl, where i = 0 and m = "re_max_addresses e" and xs = "rp_addresses r" and x = "(k, dec)"]
  have ys: "(k, dec) \<in> set ?ys" "set ?ys \<subseteq> insert (k, dec) (set (rp_addresses r))" "distinct (map fst ?ys)" by blast+
  show "map_of (rp_addresses (insert_decision e k dec r)) k = Some dec" using ys(1,3) by (simp add: a)
  show "replica_inv e (insert_decision e k dec r)"
    using assms ys unfolding replica_inv_def a by (auto dest: subsetD)
qed

lemma inv_touch:
  assumes "replica_inv e r" and "map_of (rp_addresses r) k = Some dec"
  shows "replica_inv e (touch k dec r)" "map_of (rp_addresses (touch k dec r)) k = Some dec"
proof -
  have d: "distinct (map fst (rp_addresses r))" "(k, dec) \<in> set (rp_addresses r)"
    using assms map_of_SomeD by (auto simp: replica_inv_def)
  have s: "set (AList.delete k (rp_addresses r)) \<subseteq> set (rp_addresses r)" by (auto simp: AList.delete_eq)
  then have "set (rp_addresses (touch k dec r)) \<subseteq> set (rp_addresses r)" using d(2) by (auto simp: touch_def)
  moreover have "distinct (map fst (rp_addresses (touch k dec r)))"
    using d(1) by (auto simp: touch_def delete_keys distinct_removeAll)
  ultimately show "replica_inv e (touch k dec r)" using assms(1) unfolding replica_inv_def by (auto dest: subsetD)
  show "map_of (rp_addresses (touch k dec r)) k = Some dec" by (simp add: touch_def map_add_def)
qed

lemma storage_get_effect:
  assumes "replica_inv e r" and "storage_get e k r = (x, r')"
  shows "replica_inv e r'" "disk e r' = disk e r" "rp_addresses r' = rp_addresses r"
    "x = (case disk e r k of None \<Rightarrow> Inl (LocalFailure (SiloFailure (MissingKey k))) | Some buf \<Rightarrow> Inr buf)"
proof -
  obtain y s where s: "silo_get (no_cipher (re_node e)) (rp_silo r) k = (y, s)" by fastforce
  have "silo_good (no_cipher (re_node e)) (rp_silo r)" using assms(1) by (simp add: replica_inv_def)
  note g = silo_get_effect [OF this s]
  have r': "r' = r\<lparr>rp_silo := s\<rparr>" using assms(2) s by (auto simp: storage_get_def silo_action_def split: sum.splits)
  show "replica_inv e r'" using assms(1) g by (simp add: replica_inv_def r')
  show "disk e r' = disk e r" "rp_addresses r' = rp_addresses r" using g by (simp_all add: r')
  show "x = (case disk e r k of None \<Rightarrow> Inl (LocalFailure (SiloFailure (MissingKey k))) | Some buf \<Rightarrow> Inr buf)"
    using assms(2) s g(1) by (auto simp: storage_get_def silo_action_def get_spec_def split: sum.splits option.splits)
qed

lemma storage_set_effect:
  assumes "silo_good (no_cipher (re_node e)) (rp_silo r)" and "length k = value_size" and "ins \<or> upd"
    and "storage_set e k buf ins upd r = (x, r')"
  shows "silo_good (no_cipher (re_node e)) (rp_silo r')" "\<exists>s. r' = r\<lparr>rp_silo := s\<rparr>"
    "case set_error (disk e r) k ins upd of
       None \<Rightarrow> x = Inr () \<and> disk e r' = (disk e r)(k \<mapsto> buf)
     | Some err \<Rightarrow> x = Inl (LocalFailure (SiloFailure err)) \<and> disk e r' = disk e r"
proof -
  obtain y s where s: "silo_set (no_cipher (re_node e)) (rp_silo r) k buf ins upd = (y, s)" by fastforce
  have r': "r' = r\<lparr>rp_silo := s\<rparr>" and x: "x = (case y of Inl z \<Rightarrow> Inl (LocalFailure (SiloFailure z)) | Inr _ \<Rightarrow> Inr ())"
    using assms(4) s by (auto simp: storage_set_def silo_action_def bind_st_def split: sum.splits)
  have "op_wf (OpSet k buf ins upd)" using assms(2,3) by simp
  from store.put_law [OF assms(1) this] s
  have p: "set_spec (disk e r) k buf ins upd y (stored (re_node e) s)" "silo_good (no_cipher (re_node e)) s" by simp_all
  then show "silo_good (no_cipher (re_node e)) (rp_silo r')" "\<exists>s. r' = r\<lparr>rp_silo := s\<rparr>" by (auto simp: r')
  show "case set_error (disk e r) k ins upd of
       None \<Rightarrow> x = Inr () \<and> disk e r' = (disk e r)(k \<mapsto> buf)
     | Some err \<Rightarrow> x = Inl (LocalFailure (SiloFailure err)) \<and> disk e r' = disk e r"
    using p(1) by (auto simp: set_spec_def r' x split: option.splits)
qed

lemma put_decision_keys [simp]: "map fst (rp_addresses (put_decision k dec r)) = map fst (rp_addresses r)"
  by (simp add: put_decision_def comp_def case_prod_beta if_distrib cong: if_cong)

lemma put_decision_set:
  "(k', dec') \<in> set (rp_addresses (put_decision k dec r)) \<Longrightarrow>
     (k' = k \<and> dec' = dec) \<or> (k' \<noteq> k \<and> (k', dec') \<in> set (rp_addresses r))"
  by (auto simp: put_decision_def split: if_splits)

text \<open>A changed acceptor of the cache is written: it succeeds, and only that block changes.\<close>

lemma save_decision_effect:
  assumes "env_ok e" and "replica_inv_but e k r" and "fit_decision e dec" and "length k = value_size"
    and "save_decision e k dec r = (x, r')"
  shows "x = Inr ()" "replica_inv e r'" "disk e r' = (disk e r)(k := written e dec)"
proof -
  let ?r = "put_decision k dec r"
  obtain buf where buf: "written e dec = Some buf" using written_read [OF assms(1,3)] by blast
  then have st: "storage_set e k buf True True ?r = (x, r')" using assms(5) by (simp add: save_decision_def written_def)
  have "silo_good (no_cipher (re_node e)) (rp_silo ?r)" using assms(2) by (simp add: replica_inv_but_def)
  note eff = storage_set_effect [OF this assms(4) _ st]
  have "set_error (disk e ?r) k True True = None" by (simp add: set_error_def split: option.splits)
  then have d: "x = Inr ()" "disk e r' = (disk e r)(k \<mapsto> buf)" using eff(3) by simp_all
  then show "x = Inr ()" "disk e r' = (disk e r)(k := written e dec)" by (simp_all add: buf)
  have a: "rp_addresses r' = rp_addresses ?r" using eff(2) by auto
  show "replica_inv e r'"
    unfolding replica_inv_def
  proof (intro conjI allI impI)
    show "silo_good (no_cipher (re_node e)) (rp_silo r')" using eff(1) by simp
    show "distinct (map fst (rp_addresses r'))" using assms(2) by (simp add: a replica_inv_but_def)
  next
    fix k' buf'
    assume "disk e r' k' = Some buf'"
    then show "length k' = value_size"
      "(\<exists>b. fit_block e b \<and> buf' = stored_block (re_wire e) b) \<or> (\<exists>dec. fit_decision e dec \<and> written e dec = Some buf')"
      using d(2) buf assms(2-4) by (auto simp: replica_inv_but_def split: if_splits)
  next
    fix k' dec'
    assume "(k', dec') \<in> set (rp_addresses r')"
    then have "(k' = k \<and> dec' = dec) \<or> (k' \<noteq> k \<and> (k', dec') \<in> set (rp_addresses r))"
      unfolding a by (rule put_decision_set)
    then show "fit_decision e dec'" "written e dec' = disk e r' k'"
      using assms(2,3) buf by (auto simp: replica_inv_but_def d(2))
  qed
qed

text \<open>What \<^verbatim>\<open>_load\<close> gives: the acceptor or the block in the silo; nothing stored changes.\<close>

definition loaded :: "('k, 's) replica_env \<Rightarrow> ('k, 's) replica \<Rightarrow> key \<Rightarrow> ('k, 's) decision \<Rightarrow> bool" where
  "loaded e r k dec \<longleftrightarrow> fit_decision e dec \<and> written e dec = disk e r k \<and> map_of (rp_addresses r) k = Some dec"

lemma block_read_stored:
  assumes "env_ok e" and "fit_block e b"
  shows "deserialize_stored (re_wire e) (re_crypto e) (re_doughnut e) (stored_block (re_wire e) b) =
    Inr ((Some (as_read (re_crypto e) (re_doughnut e) b), None), [])"
  using stored_block_read assms by (simp add: env_ok_def fit_block_def)

lemma replica_load_effect:
  assumes "env_ok e" and "replica_inv e r" and "replica_load e k r = (x, r')"
  shows "replica_inv e r' \<and> disk e r' = disk e r \<and>
    ((disk e r k = None \<and> x = Inl (LocalFailure (SiloFailure (MissingKey k))) \<and> map_of (rp_addresses r') k = None) \<or>
     (\<exists>b. x = Inr (IsBlock b) \<and> disk_block e r k = Some b \<and> disk_server e r k = None) \<or>
     (\<exists>dec. x = Inr (IsPaxos dec) \<and> loaded e r' k dec))"
proof (cases "map_of (rp_addresses r) k")
  case (Some dec)
  then have "(k, dec) \<in> set (rp_addresses r)" by (rule map_of_SomeD)
  then have "fit_decision e dec" "written e dec = disk e r k" using assms(2) by (auto simp: replica_inv_def)
  then show ?thesis using Some assms(3) inv_touch [OF assms(2) Some] by (auto simp: replica_load_def loaded_def)
next
  case None
  obtain y r1 where g: "storage_get e k r = (y, r1)" by fastforce
  note get = storage_get_effect [OF assms(2) g]
  show ?thesis
  proof (cases "disk e r k")
    case None2: None
    then show ?thesis using None assms(3) g get by (auto simp: replica_load_def bind_st_def)
  next
    case (Some buf)
    then consider (blk) b where "fit_block e b" "buf = stored_block (re_wire e) b"
      | (pax) dec where "fit_decision e dec" "written e dec = Some buf"
      using assms(2) unfolding replica_inv_def by metis
    then show ?thesis
    proof cases
      case blk
      let ?b = "as_read (re_crypto e) (re_doughnut e) b"
      note rd = block_read_stored [OF assms(1) blk(1)]
      have "replica_load e k r = (Inr (IsBlock ?b), load_block e k r1)"
        using None g get(4) Some rd blk(2) by (simp add: replica_load_def bind_st_def read_stored_def)
      moreover have "disk_block e r k = Some ?b" "disk_server e r k = None"
        using Some rd blk(2) by (simp_all add: disk_block_def disk_server_def)
      ultimately show ?thesis using assms(3) get inv_cong [OF get(1), of "load_block e k r1"] by simp
    next
      case pax
      let ?dec = "decision_as_read (re_crypto e) (re_doughnut e) dec"
      note rd = written_read [OF assms(1) pax(1)]
      have "replica_load e k r = (Inr (IsPaxos ?dec), insert_decision e k ?dec r1)"
        using None g get(4) Some rd pax(2) by (auto simp: replica_load_def bind_st_def read_stored_def)
      moreover have "fit_decision e ?dec" "written e ?dec = disk e r1 k" "map_of (rp_addresses r1) k = None"
        using fit_as_read [OF assms(1) pax(1)] pax(2) Some get None by simp_all
      ultimately show ?thesis using assms(3) get(2) inv_insert [OF get(1)] by (auto simp: loaded_def)
    qed
  qed
qed

lemma loaded_disk: "env_ok e \<Longrightarrow> loaded e r k dec \<Longrightarrow> disk_server e r k = Some (seen e (dec_paxos dec))"
  by (rule disk_server_written) (simp_all add: loaded_def)

lemma load_paxos_effect:
  assumes "env_ok e" and "replica_inv e r" and "load_paxos e k None b r = (x, r')"
  shows "replica_inv e r' \<and> disk e r' = disk e r \<and>
    ((\<exists>z. x = Inl z) \<or> (\<exists>dec. x = Inr dec \<and> loaded e r' k dec))"
proof -
  obtain y r1 where l: "replica_load e k r = (y, r1)" by fastforce
  from replica_load_effect [OF assms(1,2) l] assms(3) l show ?thesis by (auto simp: load_paxos_def)
qed

text \<open>A new acceptor is in the cache only, until it is saved.\<close>

definition fresh_decision ::
  "('k, 's) replica_env \<Rightarrow> ('k, 's) replica \<Rightarrow> key \<Rightarrow> node_id set \<Rightarrow> ('k, 's) pointer \<Rightarrow> ('k, 's) decision \<Rightarrow> bool" where
  "fresh_decision e r k q b dec \<longleftrightarrow> disk e r k = None \<and> re_id e \<in> q \<and>
     dec = decision_new \<lparr>srv_id = re_id e, srv_quorum = q, srv_value = (case b of None \<Rightarrow> None | Some _ \<Rightarrow> Some b),
       srv_version = wi_elle (re_wire e), srv_partial = False, srv_state = None\<rparr>"

lemma inv_insert_but:
  assumes "replica_inv e r" and "map_of (rp_addresses r) k = None"
  shows "replica_inv_but e k (insert_decision e k dec r)"
proof -
  let ?ys = "evict_loop 0 (re_max_addresses e) (rp_addresses r @ [(k, dec)])"
  have a: "rp_addresses (insert_decision e k dec r) = ?ys" by (simp add: insert_decision_def Let_def)
  have "distinct (map fst (rp_addresses r @ [(k, dec)]))"
    using assms by (simp add: replica_inv_def map_of_eq_None_iff)
  with evict_loop_last [OF refl, where i = 0 and m = "re_max_addresses e" and xs = "rp_addresses r" and x = "(k, dec)"]
  have ys: "set ?ys \<subseteq> insert (k, dec) (set (rp_addresses r))" "distinct (map fst ?ys)" by blast+
  then show ?thesis using assms unfolding replica_inv_def replica_inv_but_def a by (auto dest: subsetD)
qed

lemma load_paxos_create:
  assumes "env_ok e" and "replica_inv e r" and "load_paxos e k (Some q) b r = (x, r')"
  shows "disk e r' = disk e r \<and>
    ((replica_inv e r' \<and> (\<exists>z. x = Inl z)) \<or>
     (replica_inv e r' \<and> (\<exists>dec. x = Inr dec \<and> loaded e r' k dec)) \<or>
     (replica_inv_but e k r' \<and> (\<exists>dec. x = Inr dec \<and> fresh_decision e r k q b dec)))"
proof -
  obtain y r1 where l: "replica_load e k r = (y, r1)" by fastforce
  note eff = replica_load_effect [OF assms(1,2) l]
  show ?thesis
  proof (cases "y = Inl (LocalFailure (SiloFailure (MissingKey k))) \<and> re_id e \<in> q")
    case True
    then have "map_of (rp_addresses r1) k = None" "disk e r k = None" "replica_inv e r1" "disk e r1 = disk e r" using eff by auto
    with inv_insert_but [OF this(3,1)] True assms(3) l show ?thesis
      by (auto simp: load_paxos_def create_paxos_def server_new_def fresh_decision_def)
  next
    case False
    with eff assms(3) l show ?thesis
      by (auto simp: load_paxos_def create_paxos_def server_new_def bind_st_def)
  qed
qed

section \<open>Effect of the requests\<close>

lemma commit_server_ok:
  assumes "server_ok P s" and "srv_state s = Some st" and "vs_accepted st = Some a"
  shows "server_ok P (commit_accepted s a) \<and> srv_version (commit_accepted s a) = srv_version s"
  using assms by (cases "acc_value a") (simp_all add: commit_accepted_def server_ok_def accepted_ok_def value_ok_def)

lemma propose_server_ok:
  assumes "server_ok P s" and "proposal_ok p" and "propose s q p = Inr (r, s')"
  shows "server_ok P s' \<and> srv_version s' = srv_version s"
proof -
  have adv: "server_ok P s1 \<and> srv_version s1 = srv_version s" if "propose_advance s q p = Inr s1" for s1
    using propose_advance_cases [OF that] commit_server_ok [OF assms(1)] assms(1)
    by (elim disjE exE conjE) (simp_all add: server_ok_def)
  have reg: "server_ok P s2 \<and> srv_version s2 = srv_version s1"
    if "server_ok P s1" "propose_register s1 p = (r', s2)" for s1 s2 r'
    using that assms(2) by (auto simp: propose_register_def server_ok_def split: option.splits if_splits)
  from assms(3) show ?thesis
  proof (cases rule: propose_cases)
    case (handled s1)
    then show ?thesis using adv [OF handled(1)] reg [OF _ handled(2)] by simp
  qed (use assms(1) in simp)
qed

lemma accept_server_ok:
  assumes "server_ok P s" and "proposal_ok p" and "value_ok P v" and "accept s q p v = Inr (r, s')"
  shows "server_ok P s' \<and> srv_version s' = srv_version s"
  using assms
  by (auto simp: accept_def accept_value_def bind_res_eq_Inr server_ok_def accepted_ok_def split: option.splits if_splits)

lemma confirm_server_ok:
  assumes "server_ok P s" and "quorum_ok q" and "confirm s q p = Inr s'"
  shows "server_ok P s' \<and> srv_version s' = srv_version s"
  using assms
  by (auto simp: confirm_def bind_res_eq_Inr server_ok_def accepted_ok_def Let_def split: option.splits if_splits)

abbreviation fit_pointer :: "('k, 's) replica_env \<Rightarrow> ('k, 's) pointer \<Rightarrow> bool" where
  "fit_pointer e \<equiv> writable (re_wire e) (re_crypto e) (re_doughnut e)"

lemma fit_update:
  assumes "fit_decision e dec" and "server_ok (fit_pointer e) s" and "srv_version s = srv_version (dec_paxos dec)"
    and "server_inv s"
  shows "fit_decision e (dec\<lparr>dec_paxos := s\<rparr>)"
  using assms by (simp add: fit_decision_def decision_ok_def)

lemma fit_server:
  "fit_decision e dec \<Longrightarrow> server_ok (fit_pointer e) (dec_paxos dec)"
  "fit_decision e dec \<Longrightarrow> server_inv (dec_paxos dec)"
  by (simp_all add: fit_decision_def decision_ok_def)

definition fresh_server :: "('k, 's) replica_env \<Rightarrow> node_id set \<Rightarrow> ('k, 's) pointer \<Rightarrow> ('k, 's) paxos_server" where
  "fresh_server e q b = \<lparr>srv_id = re_id e, srv_quorum = q, srv_value = (case b of None \<Rightarrow> None | Some _ \<Rightarrow> Some b),
       srv_version = wi_elle (re_wire e), srv_partial = False, srv_state = None\<rparr>"

lemma fresh_fit:
  assumes "fresh_decision e r k q b dec" and "quorum_ok q" and "fit_pointer e b"
  shows "fit_decision e dec" "dec_paxos dec = fresh_server e q b"
  using assms
  by (auto simp: fresh_decision_def fit_decision_def decision_ok_def decision_new_def server_ok_def int_ok_def
      fresh_server_def server_inv_def split: option.splits)

lemma propose_fresh: "\<exists>s'. propose (fresh_server e q b) q p = Inr (resp_of None None False, s')"
  by (simp add: propose_def propose_advance_def propose_register_def check_confirmed_def check_quorum_def srv_accepted_def
      fresh_server_def)

lemma seen_fresh [simp]: "seen e (fresh_server e q None) = fresh_server e q None"
  by (simp add: map_server_def fresh_server_def)

lemma loaded_inv_but: "replica_inv e r \<Longrightarrow> loaded e r k dec \<Longrightarrow> replica_inv_but e k r"
  by (rule inv_but)

lemma loaded_key:
  assumes "env_ok e" and "replica_inv e r" and "loaded e r k dec"
  shows "length k = value_size"
proof -
  obtain buf where "disk e r k = Some buf"
    using written_read [OF assms(1)] assms(3) unfolding loaded_def by metis
  then show ?thesis using assms(2) by (simp add: replica_inv_def)
qed

text \<open>An acceptor after a change, and what the silo holds of it.\<close>

lemma save_server:
  assumes "env_ok e" and "replica_inv_but e k r" and "length k = value_size" and "fit_decision e (dec\<lparr>dec_paxos := s\<rparr>)"
    and "save_decision e k (dec\<lparr>dec_paxos := s\<rparr>) r = (x, r')"
  shows "x = Inr ()" "replica_inv e r'" "\<forall>k'. k' \<noteq> k \<longrightarrow> disk e r' k' = disk e r k'"
    "disk_server e r' k = Some (seen e s)"
proof -
  note eff = save_decision_effect [OF assms(1,2,4,3,5)]
  then show "x = Inr ()" "replica_inv e r'" "\<forall>k'. k' \<noteq> k \<longrightarrow> disk e r' k' = disk e r k'" by simp_all
  have "disk e r' k = written e (dec\<lparr>dec_paxos := s\<rparr>)" using eff(3) by simp
  from disk_server_written [OF assms(1,4) this] show "disk_server e r' k = Some (seen e s)" by simp
qed

text \<open>The acceptor an operation works on: the stored one, or a new one.\<close>

lemma load_paxos_start:
  assumes "env_ok e" and "replica_inv e r" and "quorum_ok q" and "fit_pointer e b"
    and "load_paxos e k (if ins then Some q else None) b r = (y, r1)"
  shows "disk e r1 = disk e r \<and> ((\<exists>z. y = Inl z) \<and> replica_inv e r1 \<or>
    (\<exists>dec. y = Inr dec \<and> replica_inv_but e k r1 \<and> fit_decision e dec \<and>
      (disk_server e r k = Some (seen e (dec_paxos dec)) \<and> replica_inv e r1 \<or>
       ins \<and> disk e r k = None \<and> re_id e \<in> q \<and> dec_paxos dec = fresh_server e q b)))"
proof -
  have ld: "replica_inv_but e k r1 \<and> fit_decision e dec \<and> disk_server e r k = Some (seen e (dec_paxos dec))"
    if "replica_inv e r1" "loaded e r1 k dec" "disk e r1 = disk e r" for dec
    using that inv_but loaded_disk [OF assms(1) that(2)] disk_server_cong [of e r k r1] by (simp add: loaded_def)
  have fr: "fit_decision e dec \<and> dec_paxos dec = fresh_server e q b \<and> re_id e \<in> q \<and> disk e r k = None"
    if "fresh_decision e r k q b dec" for dec
    using fresh_fit [OF that assms(3,4)] that by (simp add: fresh_decision_def)
  show ?thesis
  proof (cases ins)
    case True
    then show ?thesis using load_paxos_create [OF assms(1,2)] assms(5) ld fr by (simp only: if_True) blast
  next
    case False
    then show ?thesis using load_paxos_effect [OF assms(1,2)] assms(5) ld by (simp only: if_False) blast
  qed
qed

abbreviation seen_response ::
  "('k, 's) replica_env \<Rightarrow> (('k, 's) pointer, node_id) response \<Rightarrow> (('k, 's) pointer, node_id) response" where
  "seen_response e \<equiv> map_response (map_option (as_read (re_crypto e) (re_doughnut e)))"

lemma replica_propose_effect:
  assumes "env_ok e" and "replica_inv e r" and "quorum_ok q" and "proposal_ok p" and "length k = value_size"
    and "replica_propose e q k p ins r = (x, r')"
  shows "replica_inv e r' \<and>
    (case x of
       Inl _ \<Rightarrow> disk e r' = disk e r
     | Inr resp \<Rightarrow> (\<forall>k'. k' \<noteq> k \<longrightarrow> disk e r' k' = disk e r k') \<and>
         (\<exists>s s'. (disk_server e r k = Some s \<or>
              ins \<and> disk e r k = None \<and> re_id e \<in> q \<and> s = fresh_server e q None) \<and>
            propose s q p = Inr (seen_response e resp, s') \<and> disk_server e r' k = Some s'))"
proof -
  obtain y r1 where l: "load_paxos e k (if ins then Some q else None) None r = (y, r1)" by fastforce
  from load_paxos_start [OF assms(1-3) _ l]
  consider (err) z where "y = Inl z" "replica_inv e r1" "disk e r1 = disk e r"
    | (dec) dec where "y = Inr dec" "replica_inv_but e k r1" "disk e r1 = disk e r" "fit_decision e dec"
        "disk_server e r k = Some (seen e (dec_paxos dec)) \<and> replica_inv e r1 \<or>
         ins \<and> disk e r k = None \<and> re_id e \<in> q \<and> dec_paxos dec = fresh_server e q None"
    by (auto split: if_splits)
  then show ?thesis
  proof cases
    case err
    then show ?thesis using assms(6) l by (auto simp: replica_propose_def bind_st_def)
  next
    case dec
    show ?thesis
    proof (cases "propose (dec_paxos dec) q p")
      case (Inl z)
      then have "\<not> (dec_paxos dec = fresh_server e q None)" using propose_fresh [of e q None p] by auto
      then show ?thesis using Inl dec assms(6) l by (simp add: replica_propose_def bind_st_def) auto
    next
      case (Inr rs)
      obtain resp s where rs: "rs = (resp, s)" by fastforce
      have ok: "server_ok (fit_pointer e) s \<and> srv_version s = srv_version (dec_paxos dec) \<and> server_inv s"
        using propose_server_ok [OF fit_server(1) [OF dec(4)] assms(4)] propose_inv [OF fit_server(2) [OF dec(4)]] Inr rs by auto
      obtain z r2 where sv: "save_decision e k (dec\<lparr>dec_paxos := s\<rparr>) r1 = (z, r2)" by fastforce
      have fit: "fit_decision e (dec\<lparr>dec_paxos := s\<rparr>)" using fit_update [OF dec(4)] ok by blast
      note sv' = save_server [OF assms(1) dec(2) assms(5) fit sv]
      have xr: "x = Inr resp" "r' = r2" using assms(6) l Inr rs dec(1) sv sv'(1) by (auto simp: replica_propose_def bind_st_def)
      have pr: "propose (seen e (dec_paxos dec)) q p = Inr (seen_response e resp, seen e s)"
        using Inr rs by (simp add: map_propose)
      have "\<exists>s s'. (disk_server e r k = Some s \<or> ins \<and> disk e r k = None \<and> re_id e \<in> q \<and> s = fresh_server e q None) \<and>
          propose s q p = Inr (seen_response e resp, s') \<and> disk_server e r2 k = Some s'"
        using dec(5) pr sv'(4) by (metis seen_fresh)
      then show ?thesis using sv'(2,3) dec(3) by (simp add: xr)
    qed
  qed
qed

text \<open>
  What every request keeps: an acceptor that is still there has only gone through steps of
  an acceptor.
\<close>

definition acceptors_kept :: "('k, 's) replica_env \<Rightarrow> ('k, 's) replica \<Rightarrow> ('k, 's) replica \<Rightarrow> bool" where
  "acceptors_kept e r r' \<longleftrightarrow> (\<forall>k s. disk_server e r k = Some s \<longrightarrow>
     disk e r' k = None \<or> (\<exists>ops. disk_server e r' k = Some (server_run s ops)))"

lemma kept_refl: "disk e r' = disk e r \<Longrightarrow> acceptors_kept e r r'"
  unfolding acceptors_kept_def by (metis disk_server_cong foldl_Nil server_run_def)

lemma kept_one:
  assumes "\<forall>k'. k' \<noteq> k \<longrightarrow> disk e r' k' = disk e r k'"
    and "\<And>s. disk_server e r k = Some s \<Longrightarrow> disk e r' k = None \<or> (\<exists>ops. disk_server e r' k = Some (server_run s ops))"
  shows "acceptors_kept e r r'"
  unfolding acceptors_kept_def
proof (intro allI impI)
  fix k' s
  assume s: "disk_server e r k' = Some s"
  show "disk e r' k' = None \<or> (\<exists>ops. disk_server e r' k' = Some (server_run s ops))"
  proof (cases "k' = k")
    case False
    then have "disk_server e r' k' = Some (server_run s [])"
      using s assms(1) disk_server_cong [of e r k' r'] by (simp add: server_run_def)
    then show ?thesis by blast
  qed (use s assms(2) in simp)
qed

lemma kept_step: "disk_server e r' k = Some (server_step s op) \<Longrightarrow> \<exists>ops. disk_server e r' k = Some (server_run s ops)"
  by (intro exI [of _ "[op]"]) (simp add: server_run_def)

lemma propose_kept:
  assumes "env_ok e" and "replica_inv e r" and "quorum_ok q" and "proposal_ok p" and "length k = value_size"
    and "replica_propose e q k p ins r = (x, r')"
  shows "replica_inv e r' \<and> acceptors_kept e r r'"
proof (cases x)
  case (Inl z)
  then show ?thesis using replica_propose_effect [OF assms] kept_refl by auto
next
  case (Inr resp)
  note eff = replica_propose_effect [OF assms, unfolded Inr sum.case]
  have "\<exists>ops. disk_server e r' k = Some (server_run s ops)" if "disk_server e r k = Some s" for s
  proof -
    from eff obtain s1 s' where s1: "disk_server e r k = Some s1 \<or> disk e r k = None"
      "propose s1 q p = Inr (seen_response e resp, s')" "disk_server e r' k = Some s'" by blast
    then have "s1 = s" using that by (auto simp: disk_server_def)
    then have "disk_server e r' k = Some (server_step s (OpPropose q p))" using s1 by simp
    then show ?thesis by (rule kept_step)
  qed
  then show ?thesis using eff kept_one [of k e r' r] by blast
qed

text \<open>A change of a loaded acceptor, saved.\<close>

lemma loaded_save:
  assumes "env_ok e" and "replica_inv e r1" and "loaded e r1 k dec"
    and "server_ok (fit_pointer e) s" and "srv_version s = srv_version (dec_paxos dec)"
    and "server_inv s" and "save_decision e k (dec\<lparr>dec_paxos := s\<rparr>) r1 = (x, r')"
  shows "x = Inr ()" "replica_inv e r'" "\<forall>k'. k' \<noteq> k \<longrightarrow> disk e r' k' = disk e r1 k'"
    "disk_server e r' k = Some (seen e s)"
proof -
  have "fit_decision e (dec\<lparr>dec_paxos := s\<rparr>)" using assms(3-6) by (intro fit_update) (simp_all add: loaded_def)
  from save_server [OF assms(1) inv_but [OF assms(2)] loaded_key [OF assms(1-3)] this assms(7)]
  show "x = Inr ()" "replica_inv e r'" "\<forall>k'. k' \<noteq> k \<longrightarrow> disk e r' k' = disk e r1 k'"
    "disk_server e r' k = Some (seen e s)" by blast+
qed

lemma mark_fit: "fit_pointer e (Some (mark_validated b)) = fit_pointer e (Some b)"
proof -
  have "wire_ok wi d (mark_validated b) = wire_ok wi d b" for wi d
    by (cases b) (simp_all add: mark_validated_def wire_ok_def block_ok_def okb_ok_def acb_ok_def gb_ok_def)
  moreover have "block_received ci d (mark_validated b) = block_received ci d b" for ci d
    by (cases b) (simp_all add: mark_validated_def block_received_def okb_received_def acb_received_def gb_received_def)
  ultimately show ?thesis by (simp add: block_writable_def)
qed

lemma validate_value_fit:
  assumes "validate_value e v = Inr v'" and "value_ok (fit_pointer e) v"
  shows "value_ok (fit_pointer e) v'"
proof -
  consider "v' = v" | b where "v = PVal (Some b)" "v' = PVal (Some (mark_validated b))"
    using assms(1) by (auto simp: validate_value_def split: pvalue.splits option.splits sum.splits if_splits)
  then show ?thesis using assms(2) mark_fit [of e] by cases (auto simp: value_ok_def)
qed

abbreviation seen_value :: "('k, 's) replica_env \<Rightarrow> ('k, 's) paxos_value \<Rightarrow> ('k, 's) paxos_value" where
  "seen_value e \<equiv> map_pvalue (map_option (as_read (re_crypto e) (re_doughnut e)))"

lemma replica_accept_effect:
  assumes "env_ok e" and "replica_inv e r" and "proposal_ok p" and "value_ok (fit_pointer e) v"
    and "replica_accept e q k p v r = (x, r')"
  shows "replica_inv e r' \<and>
    (case x of
       Inl _ \<Rightarrow> disk e r' = disk e r
     | Inr m \<Rightarrow> (\<forall>k'. k' \<noteq> k \<longrightarrow> disk e r' k' = disk e r k') \<and>
         (\<exists>v' s s'. validate_value e v = Inr v' \<and> disk_server e r k = Some s \<and>
            accept s q p (seen_value e v') = Inr (m, s') \<and> disk_server e r' k = Some s'))"
proof (cases "validate_value e v")
  case (Inl z)
  then show ?thesis using assms(2,5) by (auto simp: replica_accept_def)
next
  case (Inr v')
  obtain y r1 where l: "load_paxos e k None None r = (y, r1)" by fastforce
  note eff = load_paxos_effect [OF assms(1,2) l]
  show ?thesis
  proof (cases "\<exists>dec s m. y = Inr dec \<and> validate_previous (dec_paxos dec) v' = Inr () \<and> accept (dec_paxos dec) q p v' = Inr (m, s)")
    case True
    then obtain dec s m where d: "y = Inr dec" "validate_previous (dec_paxos dec) v' = Inr ()"
      "accept (dec_paxos dec) q p v' = Inr (m, s)" by blast
    then have ld: "loaded e r1 k dec" "replica_inv e r1" "disk e r1 = disk e r" using eff by auto
    obtain z r2 where sv: "save_decision e k (dec\<lparr>dec_paxos := s\<rparr>) r1 = (z, r2)" by fastforce
    have fit: "server_ok (fit_pointer e) (dec_paxos dec)" "server_inv (dec_paxos dec)"
      using ld(1) fit_server unfolding loaded_def by blast+
    from accept_server_ok [OF fit(1) assms(3) validate_value_fit [OF Inr assms(4)] d(3)] accept_inv [OF d(3) fit(2)]
    have ok: "server_ok (fit_pointer e) s" "srv_version s = srv_version (dec_paxos dec)" "server_inv s" by blast+
    note sv' = loaded_save [OF assms(1) ld(2,1) ok sv]
    have xr: "x = Inr m" "r' = r2"
      using assms(5) Inr l d sv sv'(1) by (auto simp: replica_accept_def bind_st_def)
    have "accept (seen e (dec_paxos dec)) q p (seen_value e v') = Inr (m, seen e s)" using d(3) by (simp add: map_accept)
    moreover have "disk_server e r k = Some (seen e (dec_paxos dec))"
      using loaded_disk [OF assms(1) ld(1)] ld(3) disk_server_cong [of e r k r1] by simp
    ultimately show ?thesis using sv'(2-4) ld(3) Inr by (simp add: xr)
  next
    case False
    then have "\<exists>z. x = Inl z \<and> r' = r1"
      using assms(5) Inr l unfolding replica_accept_def
      by (cases y; cases "validate_previous (dec_paxos (projr y)) v'"; cases "accept (dec_paxos (projr y)) q p v'")
        (auto simp: bind_st_def)
    then show ?thesis using eff by auto
  qed
qed

lemma accept_kept:
  assumes "env_ok e" and "replica_inv e r" and "proposal_ok p" and "value_ok (fit_pointer e) v"
    and "replica_accept e q k p v r = (x, r')"
  shows "replica_inv e r' \<and> acceptors_kept e r r'"
proof (cases x)
  case (Inl z)
  then show ?thesis using replica_accept_effect [OF assms] kept_refl by auto
next
  case (Inr m)
  note eff = replica_accept_effect [OF assms, unfolded Inr sum.case]
  have "\<exists>ops. disk_server e r' k = Some (server_run s ops)" if "disk_server e r k = Some s" for s
  proof -
    from eff that obtain v' s' where "accept s q p (seen_value e v') = Inr (m, s')" "disk_server e r' k = Some s'" by auto
    then have "disk_server e r' k = Some (server_step s (OpAccept q p (seen_value e v')))" by simp
    then show ?thesis by (rule kept_step)
  qed
  then show ?thesis using eff kept_one [of k e r' r] by blast
qed

lemma storage_erase_effect:
  assumes "silo_good (no_cipher (re_node e)) (rp_silo r)" and "storage_erase k r = (x, r')"
  shows "silo_good (no_cipher (re_node e)) (rp_silo r')" "\<exists>s. r' = r\<lparr>rp_silo := s\<rparr>"
    "x \<noteq> Inr () \<Longrightarrow> disk e r' = disk e r" "x = Inr () \<Longrightarrow> disk e r' = (disk e r)(k := None)"
proof -
  obtain y s where s: "silo_erase (rp_silo r) k = (y, s)" by fastforce
  have r': "r' = r\<lparr>rp_silo := s\<rparr>" and x: "x = (case y of Inl z \<Rightarrow> Inl (LocalFailure (SiloFailure z)) | Inr _ \<Rightarrow> Inr ())"
    using assms(2) s by (auto simp: storage_erase_def silo_action_def bind_st_def split: sum.splits)
  from store.erase_law [OF assms(1), of k] s
  have p: "erase_spec (disk e r) k y (stored (re_node e) s)" "silo_good (no_cipher (re_node e)) s" by simp_all
  then show "silo_good (no_cipher (re_node e)) (rp_silo r')" "\<exists>s. r' = r\<lparr>rp_silo := s\<rparr>" by (auto simp: r')
  show "x \<noteq> Inr () \<Longrightarrow> disk e r' = disk e r" "x = Inr () \<Longrightarrow> disk e r' = (disk e r)(k := None)"
    using p(1) by (auto simp: erase_spec_def r' x split: if_splits sum.splits)
qed

lemma missing_block_eval:
  "m r = (Inr x, r1) \<Longrightarrow> missing_block m r = (Inr x, r1)"
  "m r = (Inl z, r1) \<Longrightarrow> \<exists>z'. missing_block m r = (Inl z', r1)"
  by (auto simp: missing_block_def split: replica_error.splits local_error.splits silo_error.splits)

lemma replica_erase_effect:
  assumes "replica_inv e r" and "replica_erase k r = (x, r')"
  shows "replica_inv e r'" "\<forall>k'. k' \<noteq> k \<longrightarrow> disk e r' k' = disk e r k'"
    "(\<exists>z. x = Inl z) \<Longrightarrow> disk e r' = disk e r" "x = Inr () \<Longrightarrow> disk e r' k = None"
proof -
  obtain y r1 where s: "storage_erase k r = (y, r1)" by fastforce
  have good: "silo_good (no_cipher (re_node e)) (rp_silo r)" using assms(1) by (simp add: replica_inv_def)
  note eff = storage_erase_effect [OF good s]
  obtain sl where r1: "r1 = r\<lparr>rp_silo := sl\<rparr>" using eff(2) by blast
  let ?r2 = "r1\<lparr>rp_node_blocks := {nb \<in> rp_node_blocks r1. snd nb \<noteq> k}, rp_addresses := AList.delete k (rp_addresses r1)\<rparr>"
  have "(y = Inr () \<and> x = Inr () \<and> r' = ?r2) \<or> (y \<noteq> Inr () \<and> (\<exists>z. x = Inl z) \<and> r' = r1)"
  proof (cases y)
    case (Inl z)
    then obtain z' where "missing_block (storage_erase k) r = (Inl z', r1)" using missing_block_eval(2) [of "storage_erase k" r z r1] s by auto
    then show ?thesis using assms(2) Inl by (auto simp: replica_erase_def bind_st_def)
  next
    case (Inr u)
    then have "missing_block (storage_erase k) r = (Inr u, r1)" using missing_block_eval(1) [of "storage_erase k" r u r1] s by simp
    then show ?thesis using assms(2) Inr by (simp add: replica_erase_def bind_st_def)
  qed
  then consider (ok) "y = Inr ()" "x = Inr ()" "r' = ?r2" | (err) z where "y \<noteq> Inr ()" "x = Inl z" "r' = r1" by blast
  then have "replica_inv e r' \<and> (\<forall>k'. k' \<noteq> k \<longrightarrow> disk e r' k' = disk e r k') \<and>
      ((\<exists>z. x = Inl z) \<longrightarrow> disk e r' = disk e r) \<and> (x = Inr () \<longrightarrow> disk e r' k = None)"
  proof cases
    case ok
    have d: "disk e r' = (disk e r)(k := None)" using eff(4) ok by simp
    have "set (AList.delete k (rp_addresses r)) = {z \<in> set (rp_addresses r). fst z \<noteq> k}" by (auto simp: AList.delete_eq)
    moreover have "distinct (map fst (AList.delete k (rp_addresses r)))"
      using assms(1) by (simp add: distinct_delete replica_inv_def)
    ultimately have "replica_inv e r'"
      using assms(1) d eff(1) unfolding replica_inv_def by (auto simp: ok(3) r1 split: if_splits)
    then show ?thesis using d ok by simp
  next
    case err
    then show ?thesis using assms(1) eff(1) eff(3) by (auto simp: replica_inv_def r1)
  qed
  then show "replica_inv e r'" "\<forall>k'. k' \<noteq> k \<longrightarrow> disk e r' k' = disk e r k'"
    "(\<exists>z. x = Inl z) \<Longrightarrow> disk e r' = disk e r" "x = Inr () \<Longrightarrow> disk e r' k = None" by blast+
qed

lemma kept_erase:
  assumes "replica_inv e r" and "replica_erase k r = (x, r')"
  shows "replica_inv e r' \<and> acceptors_kept e r r'"
proof (cases x)
  case (Inl z)
  then show ?thesis using replica_erase_effect [OF assms] kept_refl by auto
next
  case (Inr u)
  then have "disk e r' k = None" using replica_erase_effect(4) [OF assms] by simp
  then show ?thesis using replica_erase_effect(1,2) [OF assms] kept_one [of k e r' r] by blast
qed

lemma kept_trans_same:
  assumes "acceptors_kept e r1 r'" and "disk e r1 = disk e r"
  shows "acceptors_kept e r r'"
  using assms disk_server_cong [of e r1 _ r] unfolding acceptors_kept_def by simp

lemma kept_then:
  assumes "\<forall>k'. k' \<noteq> k \<longrightarrow> disk e r1 k' = disk e r k'"
    and "\<And>s. disk_server e r k = Some s \<Longrightarrow> \<exists>ops. disk_server e r1 k = Some (server_run s ops)"
    and "\<forall>k'. k' \<noteq> k \<longrightarrow> disk e r2 k' = disk e r1 k'" and "disk e r2 = disk e r1 \<or> disk e r2 k = None"
  shows "acceptors_kept e r r2"
proof (rule kept_one [of k])
  show "\<forall>k'. k' \<noteq> k \<longrightarrow> disk e r2 k' = disk e r k'" using assms(1,3) by simp
  fix s
  assume "disk_server e r k = Some s"
  with assms(2,4) show "disk e r2 k = None \<or> (\<exists>ops. disk_server e r2 k = Some (server_run s ops))"
    using disk_server_cong [of e r2 k r1] by auto
qed

text \<open>A confirmation may end with the removal of the acceptor.\<close>

lemma confirm_quorum_effect:
  assumes "replica_inv e r" and "confirm_quorum e k s q r = (x, r')"
  shows "replica_inv e r' \<and> (\<forall>k'. k' \<noteq> k \<longrightarrow> disk e r' k' = disk e r k') \<and> (disk e r' = disk e r \<or> disk e r' k = None)"
proof (cases "re_id e \<in> q")
  case True
  then have "rp_silo r' = rp_silo r" "rp_addresses r' = rp_addresses r"
    using assms(2) by (auto simp: confirm_quorum_def Let_def split: if_splits)
  then show ?thesis using inv_cong [OF assms(1)] by simp
next
  case False
  then have "replica_erase k r = (x, r')" using assms(2) by (simp add: confirm_quorum_def)
  from replica_erase_effect [OF assms(1) this] show ?thesis by (cases x) auto
qed

lemma confirm_kept:
  assumes "env_ok e" and "replica_inv e r" and "quorum_ok q" and "replica_confirm e q k p r = (x, r')"
  shows "replica_inv e r' \<and> acceptors_kept e r r'"
proof -
  obtain y r1 where l: "replica_load e k r = (y, r1)" by fastforce
  note eff = replica_load_effect [OF assms(1,2) l]
  show ?thesis
  proof (cases "\<exists>dec s. y = Inr (IsPaxos dec) \<and> confirm (dec_paxos dec) q p = Inr s")
    case True
    then obtain dec s where d: "y = Inr (IsPaxos dec)" "confirm (dec_paxos dec) q p = Inr s" by blast
    then have ld: "loaded e r1 k dec" "replica_inv e r1" "disk e r1 = disk e r" using eff by auto
    have fit: "server_ok (fit_pointer e) (dec_paxos dec)" "server_inv (dec_paxos dec)"
      using ld(1) fit_server unfolding loaded_def by blast+
    from confirm_server_ok [OF fit(1) assms(3) d(2)] confirm_inv [OF d(2) fit(2)]
    have ok: "server_ok (fit_pointer e) s" "srv_version s = srv_version (dec_paxos dec)" "server_inv s" by blast+
    obtain z r2 where sv: "save_decision e k (dec\<lparr>dec_paxos := s\<rparr>) r1 = (z, r2)" by fastforce
    note sv' = loaded_save [OF assms(1) ld(2,1) ok sv]
    have "confirm (seen e (dec_paxos dec)) q p = Inr (seen e s)" using d(2) by (simp add: map_confirm)
    then have step: "disk_server e r2 k = Some (server_step (seen e (dec_paxos dec)) (OpConfirm q p))"
      using sv'(4) by simp
    have "disk_server e r k = Some (seen e (dec_paxos dec))"
      using loaded_disk [OF assms(1) ld(1)] ld(3) disk_server_cong [of e r k r1] by simp
    then have st: "\<exists>ops. disk_server e r2 k = Some (server_run t ops)" if "disk_server e r k = Some t" for t
      using that kept_step [OF step] by simp
    have oth: "\<forall>k'. k' \<noteq> k \<longrightarrow> disk e r2 k' = disk e r k'" using sv'(3) ld(3) by simp
    have "missing_block (replica_load e k) r = (y, r1)" using l d(1) by (simp add: missing_block_eval(1))
    then have run: "(case confirmed_quorum (current_value (dec_paxos dec) \<noteq> None) s of
        Some q' \<Rightarrow> confirm_quorum e k s q' | None \<Rightarrow> ret ()) r2 = (x, r')"
      using assms(4) d sv sv'(1) by (simp add: replica_confirm_def bind_st_def)
    show ?thesis
    proof (cases "confirmed_quorum (current_value (dec_paxos dec) \<noteq> None) s")
      case None
      then show ?thesis using run sv'(2) kept_then [OF oth st] by simp
    next
      case (Some q')
      then have "confirm_quorum e k s q' r2 = (x, r')" using run by simp
      note cq = confirm_quorum_effect [OF sv'(2) this]
      then show ?thesis using kept_then [OF oth st] by simp
    qed
  next
    case False
    have "replica_inv e r' \<and> disk e r' = disk e r"
    proof (cases y)
      case (Inl z)
      then obtain z' where "missing_block (replica_load e k) r = (Inl z', r1)"
        using l missing_block_eval(2) [of "replica_load e k" r z r1] by auto
      then show ?thesis using assms(4) eff by (auto simp: replica_confirm_def bind_st_def)
    next
      case (Inr it)
      then have "missing_block (replica_load e k) r = (Inr it, r1)" using l by (simp add: missing_block_eval(1))
      note run = this assms(4)
      show ?thesis
      proof (cases it)
        case (IsPaxos dec)
        then obtain z where "confirm (dec_paxos dec) q p = Inl z" using False Inr by (cases "confirm (dec_paxos dec) q p") auto
        then show ?thesis using run eff IsPaxos by (simp add: replica_confirm_def bind_st_def)
      next
        case (IsBlock b)
        then have "rp_silo r' = rp_silo r1" "rp_addresses r' = rp_addresses r1"
          using run by (auto simp: replica_confirm_def bind_st_def Let_def split: if_splits)
        then show ?thesis using inv_cong [of e r1 r'] eff by simp
      qed
    qed
    then show ?thesis using kept_refl by blast
  qed
qed

lemma get_kept:
  assumes "env_ok e" and "replica_inv e r" and "replica_get e q k lv r = (x, r')"
  shows "replica_inv e r' \<and> disk e r' = disk e r"
proof -
  obtain y r1 where l: "load_paxos e k None None r = (y, r1)" by fastforce
  have "r' = r1"
  proof (cases y)
    case (Inr dec)
    then show ?thesis using assms(3) l
      by (cases "server_get (dec_paxos dec) q"; cases "honor_local_version lv (projr (server_get (dec_paxos dec) q))")
        (simp_all add: replica_get_def bind_st_def)
  qed (use assms(3) l in \<open>simp add: replica_get_def bind_st_def\<close>)
  then show ?thesis using load_paxos_effect [OF assms(1,2) l] by blast
qed

lemma put_decision_inv_but:
  assumes "replica_inv_but e k r"
  shows "replica_inv_but e k (put_decision k dec r)"
  using assms put_decision_set [of _ _ k dec r] unfolding replica_inv_but_def put_decision_keys cache_fields by blast

lemma propagate_fit:
  assumes "fit_decision e dec" and "quorum_ok q" and "proposal_ok p" and "propose (dec_paxos dec) q p = Inr (rs, s1)"
    and "accept s1 q p (PQuorum q) = Inr (m, s2)" and "confirm s2 q p = Inr s3"
  shows "fit_decision e (dec\<lparr>dec_paxos := s3\<rparr>)"
proof -
  note fit = fit_server [OF assms(1)]
  note ok1 = propose_server_ok [OF fit(1) assms(3,4)] propose_inv [OF fit(2) assms(4)]
  have "value_ok (fit_pointer e) (PQuorum q)" using assms(2) by (simp add: value_ok_def)
  note ok2 = accept_server_ok [OF conjunct1 [OF ok1(1)] assms(3) this assms(5)] accept_inv [OF assms(5) ok1(2)]
  note ok3 = confirm_server_ok [OF conjunct1 [OF ok2(1)] assms(2,6)] confirm_inv [OF assms(6) ok2(2)]
  show ?thesis using ok1 ok2 ok3 by (intro fit_update [OF assms(1)]) simp_all
qed

text \<open>A propagation that succeeds makes three steps of the stored acceptor, or of a new one.\<close>

lemma replica_propagate_effect:
  assumes "env_ok e" and "replica_inv e r" and "quorum_ok q" and "proposal_ok p" and "fit_block e b"
    and "length (block_key b) = value_size" and "map_of (rp_addresses r) (block_key b) = None"
    and "replica_propagate e q (Some b) p r = (Inr (), r')"
  shows "replica_inv e r' \<and> (\<forall>k'. k' \<noteq> block_key b \<longrightarrow> disk e r' k' = disk e r k') \<and>
    (\<exists>s. (disk_server e r (block_key b) = Some s \<or>
         disk e r (block_key b) = None \<and> re_id e \<in> q \<and> s = seen e (fresh_server e q (Some b))) \<and>
       disk_server e r' (block_key b) = Some (server_run s [OpPropose q p, OpAccept q p (PQuorum q), OpConfirm q p]))"
proof -
  let ?k = "block_key b"
  obtain y r1 where l: "load_paxos e ?k (Some q) (Some b) r = (y, r1)" by fastforce
  have fp: "fit_pointer e (Some b)" using assms(5) by (simp add: fit_block_def)
  obtain dec where y: "y = Inr dec" using assms(7,8) l by (cases y) (simp_all add: replica_propagate_def Let_def bind_st_def)
  from load_paxos_start [OF assms(1-3) fp, of ?k True] l y
  have d: "disk e r1 = disk e r" "replica_inv_but e ?k r1" "fit_decision e dec"
    "disk_server e r ?k = Some (seen e (dec_paxos dec)) \<or>
     disk e r ?k = None \<and> re_id e \<in> q \<and> dec_paxos dec = fresh_server e q (Some b)" by auto
  obtain rs s1 where s1: "propose (dec_paxos dec) q p = Inr (rs, s1)" using assms(7,8) l y
    by (cases "propose (dec_paxos dec) q p") (auto simp: replica_propagate_def Let_def bind_st_def)
  obtain m s2 where s2: "accept s1 q p (PQuorum q) = Inr (m, s2)" using assms(7,8) l y s1
    by (cases "accept s1 q p (PQuorum q)") (auto simp: replica_propagate_def Let_def bind_st_def)
  obtain s3 where s3: "confirm s2 q p = Inr s3" using assms(7,8) l y s1 s2
    by (cases "confirm s2 q p") (auto simp: replica_propagate_def Let_def bind_st_def)
  let ?r2 = "put_decision ?k (dec\<lparr>dec_paxos := s2\<rparr>) (put_decision ?k (dec\<lparr>dec_paxos := s1\<rparr>) r1)"
  have sv: "save_decision e ?k (dec\<lparr>dec_paxos := s3\<rparr>) ?r2 = (Inr (), r')"
    using assms(7,8) l y s1 s2 s3 by (simp add: replica_propagate_def Let_def bind_st_def)
  note fit = propagate_fit [OF d(3) assms(3,4) s1 s2 s3]
  from save_server [OF assms(1) put_decision_inv_but [OF put_decision_inv_but [OF d(2)]] assms(6) fit sv]
  have sv': "replica_inv e r'" "\<forall>k'. k' \<noteq> ?k \<longrightarrow> disk e r' k' = disk e r1 k'" "disk_server e r' ?k = Some (seen e s3)"
    by simp_all
  have "server_run (dec_paxos dec) [OpPropose q p, OpAccept q p (PQuorum q), OpConfirm q p] = s3"
    using s1 s2 s3 by (simp add: server_run_def)
  then have "seen e s3 = server_run (seen e (dec_paxos dec)) [OpPropose q p, OpAccept q p (PQuorum q), OpConfirm q p]"
    using map_server_run [of "map_option (as_read (re_crypto e) (re_doughnut e))" "dec_paxos dec"
        "[OpPropose q p, OpAccept q p (PQuorum q), OpConfirm q p]"] by simp
  then show ?thesis using sv' d(1,4) by auto
qed

lemma fit_block_key: "fit_block e b \<Longrightarrow> length (block_key b) = value_size"
  by (cases b) (auto simp: fit_block_def block_writable_def wire_ok_def acb_ok_def okb_ok_def gb_ok_def block_ok_def
      addr_ok_def addr_wf_def block_address_def base_block_def block.truncate_def)

lemma propagate_fresh_run:
  "current_value (server_run (fresh_server e q (Some b)) [OpPropose q p, OpAccept q p (PQuorum q), OpConfirm q p]) =
     Some \<lparr>acc_proposal = p, acc_value = PVal (Some b), acc_confirmed = True\<rparr>"
  "\<exists>m s1 s2 s3. propose (fresh_server e q (Some b)) q p = Inr (resp_of None None False, s1) \<and>
     accept s1 q p (PQuorum q) = Inr (m, s2) \<and> confirm s2 q p = Inr s3"
  by (simp_all add: server_run_def fresh_server_def propose_def propose_advance_def propose_register_def check_confirmed_def
      check_quorum_def srv_accepted_def accept_def accept_value_def confirm_def vs_version_def current_value_def
      current_proposal_def)

lemma inv_put:
  assumes "replica_inv e r" and "loaded e r k dec"
  shows "replica_inv e (put_decision k dec r)"
  using assms put_decision_set [of _ _ k dec r]
  unfolding replica_inv_def put_decision_keys cache_fields loaded_def by metis

lemma put_put: "put_decision k dec (put_decision k dec' r) = put_decision k dec r"
  by (simp add: put_decision_def comp_def case_prod_unfold)

lemma seen_accepted_current [simp]: "accepted_current (seen e s) = accepted_current s"
  by (auto simp: accepted_current_def map_server_def map_vstate_def map_accepted_def vs_version_def split: option.splits)

lemma fit_version:
  assumes "env_ok e" and "fit_decision e dec"
  shows "\<not> srv_version (dec_paxos dec) < Version 0 1 0"
proof -
  have "Version 0 1 0 \<le> Version 0 2 0" by code_simp
  also have "Version 0 2 0 \<le> srv_version (dec_paxos dec)"
    using assms by (simp add: env_ok_def wire_current_def fit_decision_def decision_ok_def)
  finally show ?thesis by simp
qed

text \<open>A propagation that fails has changed nothing.\<close>

lemma propagate_failed:
  assumes "env_ok e" and "replica_inv e r" and "quorum_ok q" and "proposal_ok p" and "fit_block e b"
    and "map_of (rp_addresses r) (block_key b) = None"
    and "\<And>s. disk_server e r (block_key b) = Some s \<Longrightarrow> accepted_current s"
    and "replica_propagate e q (Some b) p r = (Inl z, r')"
  shows "replica_inv e r' \<and> disk e r' = disk e r"
proof -
  let ?k = "block_key b"
  have fp: "fit_pointer e (Some b)" using assms(5) by (simp add: fit_block_def)
  obtain y r1 where l: "load_paxos e ?k (Some q) (Some b) r = (y, r1)" by fastforce
  have run: "bind_st (\<lambda>_. (y, r1)) (\<lambda>dec. bind_st (lift_res PaxosFailure (propose (dec_paxos dec) q p)) (\<lambda>(_, s1).
      bind_st (modify (put_decision ?k (dec\<lparr>dec_paxos := s1\<rparr>))) (\<lambda>_.
        bind_st (lift_res PaxosFailure (accept s1 q p (PQuorum q))) (\<lambda>(_, s2).
          bind_st (modify (put_decision ?k (dec\<lparr>dec_paxos := s2\<rparr>))) (\<lambda>_.
            bind_st (lift_res PaxosFailure (confirm s2 q p)) (\<lambda>s3. save_decision e ?k (dec\<lparr>dec_paxos := s3\<rparr>))))))) r = (Inl z, r')"
    using assms(6,8) l by (simp add: replica_propagate_def Let_def bind_st_def)
  from load_paxos_create [OF assms(1,2) l]
  consider (err) x where "replica_inv e r1" "disk e r1 = disk e r" "y = Inl x"
    | (known) dec where "replica_inv e r1" "disk e r1 = disk e r" "y = Inr dec" "loaded e r1 ?k dec"
    | (fresh) dec where "replica_inv_but e ?k r1" "y = Inr dec" "fresh_decision e r ?k q (Some b) dec" by blast
  then show ?thesis
  proof cases
    case err
    then show ?thesis using run by (simp add: bind_st_def)
  next
    case known
    let ?s = "dec_paxos dec"
    have fit: "fit_decision e dec" using known(4) by (simp add: loaded_def)
    have key: "length ?k = value_size" by (rule loaded_key [OF assms(1) known(1,4)])
    have "accepted_current (seen e ?s)"
      using assms(7) loaded_disk [OF assms(1) known(4)] known(2) disk_server_cong [of e r ?k r1] by simp
    then have cur: "accepted_current ?s" by simp
    have put: "replica_inv e (put_decision ?k dec r1)" "disk e (put_decision ?k dec r1) = disk e r"
      using inv_put [OF known(1,4)] known(2) by (simp_all add: put_decision_def)
    have upd: "dec\<lparr>dec_paxos := ?s\<rparr> = dec" by simp
    show ?thesis
    proof (cases "propose ?s q p")
      case (Inl x)
      then show ?thesis using run known by (simp add: bind_st_def)
    next
      case (Inr rs)
      obtain rsp s1 where p1: "propose ?s q p = Inr (rsp, s1)" using Inr by (cases rs) simp
      from propagate_all_or_nothing [OF fit_version [OF assms(1) fit] fit_server(2) [OF fit] cur p1]
      consider (refused) x where "s1 = ?s" "accept s1 q p (PQuorum q) = Inl x"
        | (unconfirmed) m x where "s1 = ?s" "accept s1 q p (PQuorum q) = Inr (m, ?s)" "confirm ?s q p = Inl x"
        | (all) m s2 s3 where "accept s1 q p (PQuorum q) = Inr (m, s2)" "confirm s2 q p = Inr s3"
        by (metis sum.exhaust_sel)
      then show ?thesis
      proof cases
        case refused
        then show ?thesis using run known(3) p1 put by (simp add: bind_st_def upd)
      next
        case unconfirmed
        then show ?thesis using run known(3) p1 put by (simp add: bind_st_def upd put_put)
      next
        case all
        let ?r2 = "put_decision ?k (dec\<lparr>dec_paxos := s2\<rparr>) (put_decision ?k (dec\<lparr>dec_paxos := s1\<rparr>) r1)"
        have "save_decision e ?k (dec\<lparr>dec_paxos := s3\<rparr>) ?r2 = (Inl z, r')"
          using run known(3) p1 all by (simp add: bind_st_def)
        from save_server(1) [OF assms(1) put_decision_inv_but [OF put_decision_inv_but [OF inv_but [OF known(1)]]] key
            propagate_fit [OF fit assms(3,4) p1 all] this] show ?thesis by simp
      qed
    qed
  next
    case fresh
    note ff = fresh_fit [OF fresh(3) assms(3) fp]
    obtain m s1 s2 s3 where ops: "propose (fresh_server e q (Some b)) q p = Inr (resp_of None None False, s1)"
      "accept s1 q p (PQuorum q) = Inr (m, s2)" "confirm s2 q p = Inr s3" using propagate_fresh_run(2) by metis
    let ?r2 = "put_decision ?k (dec\<lparr>dec_paxos := s2\<rparr>) (put_decision ?k (dec\<lparr>dec_paxos := s1\<rparr>) r1)"
    have "save_decision e ?k (dec\<lparr>dec_paxos := s3\<rparr>) ?r2 = (Inl z, r')"
      using run fresh(2) ff(2) ops by (simp add: bind_st_def)
    from save_server(1) [OF assms(1) put_decision_inv_but [OF put_decision_inv_but [OF fresh(1)]] fit_block_key [OF assms(5)]
        propagate_fit [OF ff(1) assms(3,4) _ ops(2,3)] this] ff(2) ops(1) show ?thesis by simp
  qed
qed

lemma propagate_kept:
  assumes "env_ok e" and "replica_inv e r" and "quorum_ok q" and "proposal_ok p" and "fit_pointer e b"
    and "\<And>k s. disk_server e r k = Some s \<Longrightarrow> accepted_current s"
    and "replica_propagate e q b p r = (x, r')"
  shows "replica_inv e r' \<and> acceptors_kept e r r'"
proof (cases "\<exists>blk. b = Some blk \<and> map_of (rp_addresses r) (block_key blk) = None")
  case False
  then have "r' = r" using assms(7) by (cases b) (auto simp: replica_propagate_def)
  then show ?thesis using assms(2) kept_refl [of e r r] by simp
next
  case True
  then obtain blk where b: "b = Some blk" and nc: "map_of (rp_addresses r) (block_key blk) = None" by blast
  then have fb: "fit_block e blk" using assms(5) by (simp add: fit_block_def)
  show ?thesis
  proof (cases x)
    case (Inl z)
    have "replica_propagate e q (Some blk) p r = (Inl z, r')" using assms(7) b Inl by simp
    from propagate_failed [OF assms(1-4) fb nc _ this] assms(6) show ?thesis using kept_refl by blast
  next
    case (Inr u)
    from replica_propagate_effect [OF assms(1-4) fb fit_block_key [OF fb] nc] assms(7) b Inr
    obtain s where s: "replica_inv e r'" "\<forall>k'. k' \<noteq> block_key blk \<longrightarrow> disk e r' k' = disk e r k'"
      "disk_server e r (block_key blk) = Some s \<or> disk e r (block_key blk) = None"
      "disk_server e r' (block_key blk) = Some (server_run s [OpPropose q p, OpAccept q p (PQuorum q), OpConfirm q p])" by auto
    have "\<exists>ops. disk_server e r' (block_key blk) = Some (server_run t ops)" if "disk_server e r (block_key blk) = Some t" for t
      using that s(3,4) by (auto simp: disk_server_def)
    then show ?thesis using s(1) kept_one [OF s(2)] by blast
  qed
qed

lemma read_stored_state: "read_stored e buf r = (x, r') \<Longrightarrow> r' = r"
  by (auto simp: read_stored_def lift_res_def split: sum.splits)

lemma fetch_kept:
  assumes "replica_inv e r" and "replica_fetch e k r = (x, r')"
  shows "replica_inv e r' \<and> disk e r' = disk e r"
proof -
  obtain y r1 where g: "storage_get e k r = (y, r1)" by fastforce
  have "r' = r1"
  proof (cases y)
    case (Inr buf)
    obtain z r2 where "read_stored e buf r1 = (z, r2)" by fastforce
    with read_stored_state [OF this] show ?thesis using assms(2) g Inr
      by (cases z) (auto simp: replica_fetch_def bind_st_def split: option.splits)
  qed (use assms(2) g in \<open>simp add: replica_fetch_def bind_st_def\<close>)
  then show ?thesis using storage_get_effect [OF assms(1) g] by simp
qed

text \<open>
  The check of \<^verbatim>\<open>store\<close> against what is at the address: it does not change the silo, and it
  fails on an acceptor.
\<close>

lemma store_previous_effect:
  assumes "env_ok e" and "replica_inv e r" and "store_previous e b r = (x, r')"
  shows "replica_inv e r' \<and> disk e r' = disk e r \<and> rp_addresses r' = rp_addresses r \<and>
    (disk_server e r (block_key b) \<noteq> None \<longrightarrow> (\<exists>s. x = Inl (LocalFailure (ValidationFailed s))))"
proof -
  obtain y r1 where g: "storage_get e (block_key b) r = (y, r1)" by fastforce
  note get = storage_get_effect [OF assms(2) g]
  show ?thesis
  proof (cases "disk e r (block_key b)")
    case None
    then show ?thesis using assms(3) g get by (auto simp: store_previous_def bind_st_def disk_server_def)
  next
    case (Some buf)
    obtain z r2 where rd: "read_stored e buf r1 = (z, r2)" by fastforce
    note r2 = read_stored_state [OF rd]
    have "r' = r1" using assms(3) g get(4) Some rd r2
      by (cases z) (auto simp: store_previous_def bind_st_def lift_res_def split: option.splits sum.splits)
    moreover have "\<exists>s. x = Inl (LocalFailure (ValidationFailed s))" if "disk_server e r (block_key b) \<noteq> None"
      using that assms(3) g get(4) Some
      by (auto simp: disk_server_def store_previous_def bind_st_def read_stored_def split: sum.splits option.splits)
    ultimately show ?thesis using get by simp
  qed
qed

lemma store_kept:
  assumes "env_ok e" and "replica_inv e r" and "fit_block e b" and "replica_store e b mode r = (x, r')"
  shows "replica_inv e r' \<and> acceptors_kept e r r'"
proof -
  let ?k = "block_key b" and ?buf = "stored_block (re_wire e) b"
  let ?ins = "mode = STORE_INSERT" and ?upd = "mode = STORE_UPDATE"
  obtain y r1 where sp: "store_previous e b r = (y, r1)" by fastforce
  note eff = store_previous_effect [OF assms(1,2) sp]
  have "(r' = r \<or> r' = r1) \<or> (storage_set e ?k ?buf ?ins ?upd r1 = (x, r') \<and> disk_server e r ?k = None)"
  proof (cases "(\<exists>v'. validate_value e (PVal (Some b)) = Inr v') \<and> is_immutable b")
    case True
    then show ?thesis using assms(4) sp eff
      by (cases y) (auto simp: replica_store_def Let_def split: replica_error.splits local_error.splits silo_error.splits)
  next
    case False
    then show ?thesis using assms(4) by (cases "validate_value e (PVal (Some b))") (auto simp: replica_store_def)
  qed
  then show ?thesis
  proof (elim disjE conjE)
    assume st: "storage_set e ?k ?buf ?ins ?upd r1 = (x, r')" and none: "disk_server e r ?k = None"
    have good: "silo_good (no_cipher (re_node e)) (rp_silo r1)" using eff by (simp add: replica_inv_def)
    have "?ins \<or> ?upd" by (cases mode) simp_all
    note set = storage_set_effect [OF good fit_block_key [OF assms(3)] this st]
    show ?thesis
    proof (cases "set_error (disk e r1) ?k ?ins ?upd")
      case None
      then have d: "disk e r' = (disk e r)(?k \<mapsto> ?buf)" using set(3) eff by simp
      have a: "rp_addresses r' = rp_addresses r" using set(2) eff by auto
      have "(?k, dec) \<notin> set (rp_addresses r)" for dec
      proof
        assume "(?k, dec) \<in> set (rp_addresses r)"
        then have "fit_decision e dec" "disk e r ?k = written e dec" using assms(2) by (auto simp: replica_inv_def)
        from disk_server_written [OF assms(1) this] none show False by simp
      qed
      then have "replica_inv e r'"
        using assms(2,3) d set(1) fit_block_key [OF assms(3)] unfolding replica_inv_def a by (auto split: if_splits)
      moreover have "acceptors_kept e r r'" using d none by (intro kept_one [of ?k]) auto
      ultimately show ?thesis ..
    next
      case (Some err)
      then have d: "disk e r' = disk e r" using set(3) eff by simp
      moreover have "rp_addresses r' = rp_addresses r" using set(2) eff by auto
      ultimately show ?thesis using assms(2) set(1) unfolding replica_inv_def by (simp add: kept_refl)
    qed
  qed (use assms(2) eff in \<open>simp_all add: kept_refl\<close>)
qed

lemma remove_kept:
  assumes "env_ok e" and "replica_inv e r" and "replica_remove e k rs r = (x, r')"
  shows "replica_inv e r' \<and> acceptors_kept e r r'"
proof -
  let ?chk = "\<lambda>b. lift_res id (over_result b (validate_remove (re_crypto e) (re_doughnut e) (no_tail (re_node e)) rs b))"
  let ?m = "bind_st (replica_load e k) (\<lambda>x. case x of
          IsBlock b \<Rightarrow> ?chk b
        | IsPaxos dec \<Rightarrow>
            (case current_value (dec_paxos dec) of
               None \<Rightarrow> ret ()
             | Some a \<Rightarrow> (case acc_value a of PVal (Some b) \<Rightarrow> ?chk b | _ \<Rightarrow> throw ReplicaAbort)))"
  obtain y r1 where l: "replica_load e k r = (y, r1)" by fastforce
  note eff = replica_load_effect [OF assms(1,2) l]
  have chk: "snd (?chk b r0) = r0" for b r0 by (simp add: lift_res_def split: sum.splits)
  obtain z r2 where m: "?m r = (z, r2)" by fastforce
  have r2: "r2 = r1"
  proof (cases y)
    case (Inr it)
    then show ?thesis using m l chk
      by (cases it) (auto simp: bind_st_def split: option.splits pvalue.splits dest!: arg_cong [where f = snd])
  qed (use m l in \<open>simp add: bind_st_def\<close>)
  show ?thesis
  proof (cases z)
    case (Inl z1)
    then obtain z2 where "missing_block ?m r = (Inl z2, r1)" using missing_block_eval(2) [of ?m r z1 r1] m r2 by auto
    then have "r' = r1" using assms(3) by (simp add: replica_remove_def Let_def bind_st_Inl)
    then show ?thesis using eff kept_refl by auto
  next
    case (Inr u)
    then have "missing_block ?m r = (Inr u, r1)" using missing_block_eval(1) [of ?m r u r1] m r2 by simp
    then have "replica_erase k r1 = (x, r')" using assms(3) by (simp add: replica_remove_def Let_def bind_st_Inr)
    from kept_erase [OF _ this] eff show ?thesis using kept_trans_same by blast
  qed
qed

section \<open>Histories\<close>

text \<open>
  What a caller may send: sizes and numbers fit their types, and blocks can be read back, that
  is, those with an owner key were sealed.
\<close>

definition request_fit :: "('k, 's) replica_env \<Rightarrow> ('k, 's) replica_request \<Rightarrow> bool" where
  "request_fit e req = (case req of
     ReqPropose q k p _ \<Rightarrow> quorum_ok q \<and> proposal_ok p \<and> length k = value_size
   | ReqAccept _ _ p v \<Rightarrow> proposal_ok p \<and> value_ok (fit_pointer e) v
   | ReqConfirm q _ _ \<Rightarrow> quorum_ok q
   | ReqPropagate q b p \<Rightarrow> quorum_ok q \<and> proposal_ok p \<and> fit_pointer e b
   | ReqStore b _ \<Rightarrow> fit_block e b
   | _ \<Rightarrow> True)"

text \<open>A node that stops and starts again has its silo only.\<close>

definition replica_start :: "silo \<Rightarrow> ('k, 's) replica" where
  "replica_start s = \<lparr>rp_silo = s, rp_addresses = [], rp_quorums = Map.empty, rp_node_blocks = {},
     rp_rebalancable = [], rp_nodes = {}, rp_node_timeouts = {}\<rparr>"

text \<open>
  What the quorum answers to a replica that reconciles a block is up to the other nodes; the
  replica asks itself as well, if it is in the quorum.
\<close>

definition quorum_state ::
  "('k, 's) replica_env \<Rightarrow> key \<Rightarrow> (node_id set \<Rightarrow> ('k, 's) replica_error + unit) \<Rightarrow> node_id set \<Rightarrow> ('k, 's, unit) action" where
  "quorum_state e k answer q r = (answer q, if re_id e \<in> q then snd (replica_get e q k None r) else r)"

text \<open>
  The states a replica goes through, all of them in \<open>P\<close>: requests in any order, those that
  fail included, restarts at any time, reconciliations, nodes that come and go, the inspector.
\<close>

inductive replica_reach ::
  "('k, 's) replica_env \<Rightarrow> (('k, 's) replica \<Rightarrow> bool) \<Rightarrow> ('k, 's) replica \<Rightarrow> ('k, 's) replica \<Rightarrow> bool"
  for e P r0 where
  reach_start: "P r0 \<Longrightarrow> replica_reach e P r0 r0"
| reach_request: "replica_reach e P r0 r \<Longrightarrow> request_fit e req \<Longrightarrow> replica_run e req r = (x, r') \<Longrightarrow>
    P r' \<Longrightarrow> replica_reach e P r0 r'"
| reach_restart: "replica_reach e P r0 r \<Longrightarrow> P (replica_start (rp_silo r)) \<Longrightarrow>
    replica_reach e P r0 (replica_start (rp_silo r))"
| reach_reconcile: "replica_reach e P r0 r \<Longrightarrow>
    replica_reconcile e (quorum_state e (addr_value a) answer) a r = (y, r') \<Longrightarrow> P r' \<Longrightarrow> replica_reach e P r0 r'"
| reach_discovered: "replica_reach e P r0 r \<Longrightarrow> P (replica_discovered e i r) \<Longrightarrow>
    replica_reach e P r0 (replica_discovered e i r)"
| reach_disappeared: "replica_reach e P r0 r \<Longrightarrow> P (replica_disappeared i r) \<Longrightarrow>
    replica_reach e P r0 (replica_disappeared i r)"
| reach_evict: "replica_reach e P r0 r \<Longrightarrow> evict_immutable e i k r = (z, r') \<Longrightarrow> P r' \<Longrightarrow> replica_reach e P r0 r'"
| reach_inspect: "replica_reach e P r0 r \<Longrightarrow> replica_inspect e k r = (z, r') \<Longrightarrow> P r' \<Longrightarrow> replica_reach e P r0 r'"

inductive_cases replica_reachE: "replica_reach e P r0 r"

text \<open>
  The condition on the acceptors under which a propagation that fails changes nothing.
\<close>

definition acceptors_current :: "('k, 's) replica_env \<Rightarrow> ('k, 's) replica \<Rightarrow> bool" where
  "acceptors_current e r \<longleftrightarrow> (\<forall>k s. disk_server e r k = Some s \<longrightarrow> accepted_current s)"

lemma bind_ret_state: "bind_st m (\<lambda>x. ret (f x)) r = (y, r') \<Longrightarrow> \<exists>x. m r = (x, r')"
  by (auto simp: bind_st_def split: prod.splits sum.splits)

lemma replica_run_kept:
  assumes "env_ok e" and "replica_inv e r" and "request_fit e req" and "replica_run e req r = (x, r')"
    and "acceptors_current e r"
  shows "replica_inv e r' \<and> acceptors_kept e r r'"
proof (cases req)
  case (ReqPropose q k p ins)
  then show ?thesis using propose_kept [OF assms(1,2)] assms(3,4)
    by (auto simp: request_fit_def replica_run_def dest!: bind_ret_state)
next
  case (ReqAccept q k p v)
  then show ?thesis using accept_kept [OF assms(1,2)] assms(3,4)
    by (auto simp: request_fit_def replica_run_def dest!: bind_ret_state)
next
  case (ReqConfirm q k p)
  then show ?thesis using confirm_kept [OF assms(1,2)] assms(3,4)
    by (auto simp: request_fit_def replica_run_def dest!: bind_ret_state)
next
  case (ReqGet q k lv)
  then show ?thesis using get_kept [OF assms(1,2)] assms(4)
    by (auto simp: replica_run_def dest!: bind_ret_state intro: kept_refl)
next
  case (ReqPropagate q b p)
  then obtain y where "replica_propagate e q b p r = (y, r')"
    using assms(4) by (auto simp: replica_run_def dest!: bind_ret_state)
  from propagate_kept [OF assms(1,2) _ _ _ assms(5) [unfolded acceptors_current_def, rule_format] this] assms(3) ReqPropagate show ?thesis by (simp add: request_fit_def)
next
  case (ReqStore b mode)
  then show ?thesis using store_kept [OF assms(1,2)] assms(3,4)
    by (auto simp: request_fit_def replica_run_def dest!: bind_ret_state)
next
  case (ReqFetch k)
  then show ?thesis using fetch_kept [OF assms(2)] assms(4)
    by (auto simp: replica_run_def dest!: bind_ret_state intro: kept_refl)
next
  case (ReqRemove k rs)
  then show ?thesis using remove_kept [OF assms(1,2)] assms(4)
    by (auto simp: replica_run_def dest!: bind_ret_state)
qed

lemma inv_sub:
  assumes "replica_inv e r" and "rp_silo r' = rp_silo r" and "set (rp_addresses r') \<subseteq> set (rp_addresses r)"
    and "distinct (map fst (rp_addresses r'))"
  shows "replica_inv e r'"
  using assms unfolding replica_inv_def by (auto dest: subsetD)

lemma inspect_kept:
  assumes "env_ok e" and "replica_inv e r" and "replica_inspect e k r = (x, r')"
  shows "replica_inv e r' \<and> disk e r' = disk e r"
proof -
  obtain y r1 where l: "replica_load e k r = (y, r1)" by fastforce
  note eff = replica_load_effect [OF assms(1,2) l]
  have "r' = r1 \<or> r' = r1\<lparr>rp_addresses := AList.delete k (rp_addresses r1)\<rparr>"
  proof (cases y)
    case (Inl err)
    then show ?thesis using assms(3) l unfolding replica_inspect_def
      by (auto split: replica_error.splits local_error.splits)
  next
    case (Inr item)
    then show ?thesis using assms(3) l unfolding replica_inspect_def
      by (cases item; cases "rp_quorums r1 k") (auto split: if_splits)
  qed
  moreover have "replica_inv e (r1\<lparr>rp_addresses := AList.delete k (rp_addresses r1)\<rparr>)"
  proof (rule inv_sub [of e r1])
    show inv: "replica_inv e r1" using eff by blast
    show "distinct (map fst (rp_addresses (r1\<lparr>rp_addresses := AList.delete k (rp_addresses r1)\<rparr>)))"
      using inv by (simp add: replica_inv_def distinct_delete)
  qed (auto simp: AList.delete_eq)
  ultimately show ?thesis using eff by (elim disjE) simp_all
qed

lemma reconcile_kept:
  assumes "env_ok e" and "replica_inv e r"
    and "replica_reconcile e (quorum_state e (addr_value a) answer) a r = (x, r')"
  shows "replica_inv e r' \<and> acceptors_kept e r r'"
proof (cases "addr_mutable a")
  case True
  let ?k = "addr_value a"
  obtain y r1 where l: "load_paxos e ?k None None r = (y, r1)" by fastforce
  obtain z r2 where b: "bind_st (load_paxos e ?k None None) (\<lambda>dec. quorum_state e ?k answer (current_quorum (dec_paxos dec))) r = (z, r2)"
    by fastforce
  from load_paxos_effect [OF assms(1,2) l] have r1: "replica_inv e r1" "disk e r1 = disk e r" by blast+
  have r2: "replica_inv e r2 \<and> disk e r2 = disk e r"
  proof (cases y)
    case (Inr dec)
    obtain w r3 where g: "replica_get e (current_quorum (dec_paxos dec)) ?k None r1 = (w, r3)" by fastforce
    from get_kept [OF assms(1) r1(1) g] b l Inr g r1 show ?thesis
      by (auto simp: bind_st_def quorum_state_def split: if_splits)
  qed (use b l r1 in \<open>simp add: bind_st_def\<close>)
  have "r' = r2 \<or> (\<exists>w. replica_erase ?k r2 = (w, r'))"
    using assms(3) True b
    by (auto simp: replica_reconcile_def split: sum.splits replica_error.splits local_error.splits prod.splits)
  then show ?thesis
  proof
    assume "r' = r2"
    then show ?thesis using r2 kept_refl [of e r2 r] by simp
  next
    assume "\<exists>w. replica_erase ?k r2 = (w, r')"
    then obtain w where "replica_erase ?k r2 = (w, r')" ..
    from kept_erase [OF _ this, of e] r2 show ?thesis using kept_trans_same by blast
  qed
next
  case False
  then show ?thesis using assms(2,3) kept_refl [of e r r] by (simp add: replica_reconcile_def)
qed

lemma bookkeeping_fields:
  "rp_silo (replica_discovered e i r) = rp_silo r" "rp_addresses (replica_discovered e i r) = rp_addresses r"
  "rp_silo (replica_disappeared i r) = rp_silo r" "rp_addresses (replica_disappeared i r) = rp_addresses r"
  "evict_immutable e i k r = (x, r') \<Longrightarrow> rp_silo r' = rp_silo r \<and> rp_addresses r' = rp_addresses r"
  by (auto simp: replica_discovered_def replica_disappeared_def evict_immutable_def schedule_def replica_cache_def
      Let_def split: option.splits if_splits)

text \<open>A step of the history: it keeps the invariant and the acceptors.\<close>

lemma kept_bookkeeping:
  assumes "replica_inv e r" and "rp_silo r' = rp_silo r" and "rp_addresses r' = rp_addresses r"
  shows "replica_inv e r' \<and> acceptors_kept e r r'"
  using inv_cong [OF assms] kept_refl [of e r' r] assms(2) by simp

lemma replica_reach_kept:
  assumes "replica_reach e P r0 r" and "env_ok e" and "replica_inv e r0" and "\<And>r. P r \<Longrightarrow> acceptors_current e r"
    and "\<And>r. Q r r" and "\<And>r r' r''. Q r r' \<Longrightarrow> P r'' \<Longrightarrow> acceptors_kept e r' r'' \<Longrightarrow> Q r r''"
  shows "replica_inv e r \<and> P r \<and> Q r0 r"
  using assms(1)
proof (induction rule: replica_reach.induct)
  case (reach_request r req x r')
  then have "acceptors_current e r" using assms(4) by blast
  from replica_run_kept [OF assms(2) _ reach_request.hyps(2,3) this] reach_request assms(6) show ?case by blast
next
  case (reach_reconcile r a answer y r')
  from reconcile_kept [OF assms(2) _ reach_reconcile.hyps(2)] reach_reconcile assms(6) show ?case by blast
next
  case (reach_inspect r k z r')
  from inspect_kept [OF assms(2) _ reach_inspect.hyps(2)] reach_inspect assms(6) kept_refl [of e r' r] show ?case by blast
next
  case (reach_discovered r i)
  from kept_bookkeeping [OF _ bookkeeping_fields(1,2)] reach_discovered assms(6) show ?case by blast
next
  case (reach_disappeared r i)
  from kept_bookkeeping [OF _ bookkeeping_fields(3,4)] reach_disappeared assms(6) show ?case by blast
next
  case (reach_evict r i k z r')
  from kept_bookkeeping [of e r r'] bookkeeping_fields(5) [OF reach_evict.hyps(2)] reach_evict assms(6) show ?case by blast
next
  case (reach_restart r)
  let ?t = "replica_start (rp_silo r)"
  have "replica_inv e ?t" by (rule inv_sub [of e r]) (use reach_restart in \<open>simp_all add: replica_start_def\<close>)
  moreover have "acceptors_kept e r ?t" by (rule kept_refl) (simp add: replica_start_def)
  ultimately show ?case using reach_restart assms(6) by blast
qed (use assms(3,5) in blast)

section \<open>Restarts\<close>

text \<open>What the replica reads of an item: the flags and caches of a block in memory are not stored.\<close>

definition item_as_read :: "('k, 's) replica_env \<Rightarrow> ('k, 's) stored_item \<Rightarrow> ('k, 's) stored_item" where
  "item_as_read e x = (case x of
     IsBlock b \<Rightarrow> IsBlock b | IsPaxos dec \<Rightarrow> IsPaxos (decision_as_read (re_crypto e) (re_doughnut e) dec))"

lemma replica_start_inv: "replica_inv e r \<Longrightarrow> replica_inv e (replica_start (rp_silo r))"
  by (rule inv_sub [of e r]) (simp_all add: replica_start_def)

lemma as_read_idem:
  assumes "env_ok e" and "fit_decision e dec"
  shows "decision_as_read (re_crypto e) (re_doughnut e) (decision_as_read (re_crypto e) (re_doughnut e) dec) =
    decision_as_read (re_crypto e) (re_doughnut e) dec"
  using seen_idem [OF assms] by (simp add: decision_as_read_def)

text \<open>A node that has just started reads what the silo holds.\<close>

lemma load_uncached:
  assumes "map_of (rp_addresses r) k = None" and "map_of (rp_addresses r') k = None" and "rp_silo r' = rp_silo r"
  shows "fst (replica_load e k r') = fst (replica_load e k r)"
  using assms
  by (simp add: replica_load_def storage_get_def silo_action_def bind_st_def read_stored_def lift_res_def
      split: prod.splits sum.splits option.splits)

lemma start_load:
  assumes "env_ok e" and "replica_inv e r"
  shows "fst (replica_load e k (replica_start (rp_silo r))) =
    map_sum id (item_as_read e) (fst (replica_load e k r))"
proof -
  let ?t = "replica_start (rp_silo r) :: ('a, 'b) replica"
  have t: "rp_silo ?t = rp_silo r" "map_of (rp_addresses ?t) k = None" by (simp_all add: replica_start_def)
  show ?thesis
  proof (cases "map_of (rp_addresses r) k")
    case (Some dec)
    then have "fit_decision e dec" "written e dec = disk e r k"
      using assms(2) map_of_SomeD [OF Some] by (auto simp: replica_inv_def)
    from written_read [OF assms(1) this(1)] this(2) obtain buf where
      buf: "disk e ?t k = Some buf" "deserialize_stored (re_wire e) (re_crypto e) (re_doughnut e) buf =
        Inr ((None, Some (decision_as_read (re_crypto e) (re_doughnut e) dec)), [])" using t(1) by auto
    obtain y r1 where g: "storage_get e k ?t = (y, r1)" by fastforce
    from storage_get_effect(4) [OF replica_start_inv [OF assms(2)] g] buf(1) have "y = Inr buf" by simp
    then show ?thesis using Some t(2) g buf(2)
      by (simp add: replica_load_def bind_st_def read_stored_def item_as_read_def)
  next
    case None
    obtain y r1 where l: "replica_load e k r = (y, r1)" by fastforce
    have "map_sum id (item_as_read e) y = y"
    proof (cases "\<exists>dec. y = Inr (IsPaxos dec)")
      case True
      then obtain dec where d: "y = Inr (IsPaxos dec)" by blast
      obtain z r2 where g: "storage_get e k r = (z, r2)" by fastforce
      note get = storage_get_effect [OF assms(2) g]
      from d l None g obtain buf where z: "z = Inr buf"
        and rd: "bind_res (deserialize_stored (re_wire e) (re_crypto e) (re_doughnut e) buf) (\<lambda>(x, _). Inr x) = Inr (None, Some dec)"
        by (auto simp: replica_load_def bind_st_def read_stored_def lift_res_def split: sum.splits option.splits prod.splits)
      have "disk e r k = Some buf" using get(4) z by (cases "disk e r k") simp_all
      with assms(2) consider b where "fit_block e b" "buf = stored_block (re_wire e) b"
        | dec' where "fit_decision e dec'" "written e dec' = Some buf" unfolding replica_inv_def by metis
      then obtain dec' where "fit_decision e dec'" "dec = decision_as_read (re_crypto e) (re_doughnut e) dec'"
      proof cases
        case 1
        then show ?thesis using rd block_read_stored [OF assms(1)] by simp
      next
        case 2
        then show ?thesis using rd written_read [OF assms(1) 2(1)] that by auto
      qed
      then show ?thesis using as_read_idem [OF assms(1)] d by (simp add: item_as_read_def)
    next
      case False
      then show ?thesis by (cases y) (auto simp: item_as_read_def split: stored_item.splits)
    qed
    then show ?thesis using load_uncached [OF None t(2,1)] l by simp
  qed
qed

text \<open>
  C5. A replica may stop at any time: on a silo without a limit, after any history of
  requests that fit (numbers within their types; blocks that are sealed, so that they can be
  read back), failed requests, reconciliations and earlier restarts included, the node that
  starts again on the silo loads, for each key, what the running one would have loaded, the
  same block, the same acceptor or the same error. So no promise and no vote that was
  answered is only in memory. The condition on the way: no acceptor holds a confirmed
  acceptance of an earlier version than its promise, where a propagation can fail half way.
\<close>

theorem replica_durable:
  assumes "env_ok e" and "replica_inv e r0" and "replica_reach e (acceptors_current e) r0 r"
  shows "fst (replica_load e k (replica_start (rp_silo r))) =
    map_sum id (item_as_read e) (fst (replica_load e k r))"
proof (rule start_load [OF assms(1)])
  show "replica_inv e r"
    using replica_reach_kept [OF assms(3,1,2), where Q = "\<lambda>_ _. True"] by simp
qed

section \<open>Refinement of an acceptor\<close>

lemma server_run_append: "server_run (server_run s xs) ys = server_run s (xs @ ys)"
  by (simp add: server_run_def)

lemma acceptors_kept_run:
  assumes "acceptors_kept e r r'" and "disk e r' k \<noteq> None" and "disk_server e r k = Some (server_run s ops)"
  shows "\<exists>ops'. disk_server e r' k = Some (server_run s ops')"
proof -
  have "\<exists>ops2. disk_server e r' k = Some (server_run (server_run s ops) ops2)"
    using assms(1) [unfolded acceptors_kept_def, rule_format, OF assms(3)] assms(2) by simp
  then obtain ops2 where "disk_server e r' k = Some (server_run (server_run s ops) ops2)" ..
  then have "disk_server e r' k = Some (server_run s (ops @ ops2))" by (simp add: server_run_append)
  then show ?thesis ..
qed

lemma reach_run:
  assumes "replica_reach e (\<lambda>r. disk e r k \<noteq> None \<and> acceptors_current e r) r0 r" and "env_ok e" and "replica_inv e r0"
    and "disk_server e r0 k = Some s"
  shows "\<exists>ops. disk_server e r k = Some (server_run s ops)"
proof -
  let ?Q = "\<lambda>r r'. \<forall>s. disk_server e r k = Some s \<longrightarrow> (\<exists>ops. disk_server e r' k = Some (server_run s ops))"
  have "?Q r0 r"
  proof (rule replica_reach_kept [OF assms(1-3), of ?Q, THEN conjunct2, THEN conjunct2])
    fix r :: "('a, 'b) replica"
    have "server_run s [] = s" for s :: "('a, 'b) paxos_server" by (simp add: server_run_def)
    then show "?Q r r" by metis
  next
    fix r r' r'' :: "('a, 'b) replica"
    assume "?Q r r'" and "disk e r'' k \<noteq> None \<and> acceptors_current e r''" and "acceptors_kept e r' r''"
    then show "?Q r r''" using acceptors_kept_run by blast
  qed simp
  then show ?thesis using assms(4) by blast
qed

text \<open>
  C4. A replica refines an acceptor: on a silo without a limit, as long as it keeps a mutable
  block, the acceptor it stores has only gone through steps of the Paxos server, whatever the
  requests that fit (numbers within their types; blocks that are sealed, so that they can be
  read back), successful or not, their order, the reconciliations, the restarts and the
  acceptors dropped from the cache. So its promise only rises, and it holds no vote below a
  promise it made, beyond the one it had. The condition on the way: no acceptor holds a
  confirmed acceptance of an earlier version than its promise, where a propagation can fail
  half way.
\<close>

theorem replica_keeps_promise:
  assumes "env_ok e" and "replica_inv e r0" and "disk_server e r0 k = Some s"
    and "replica_reach e (\<lambda>r. disk e r k \<noteq> None \<and> acceptors_current e r) r0 r"
  shows "\<exists>ops. disk_server e r k = Some (server_run s ops)
    \<and> promise_le (srv_promise s) (srv_promise (server_run s ops))
    \<and> (\<forall>b p v. srv_promise s = Some b \<longrightarrow> srv_vote (server_run s ops) = Some (p, v) \<longrightarrow>
         srv_vote s = Some (p, v) \<or> b \<le> p)"
proof -
  obtain ops where "disk_server e r k = Some (server_run s ops)" using reach_run [OF assms(4,1,2,3)] by blast
  then show ?thesis using srv.run_promise [of s ops] srv.run_vote [of s _ ops] by (auto simp: server_run_def)
qed

section \<open>Requests that go round the checks\<close>

lemma map_server_current_value:
  "(current_value (map_server f s) = None) = (current_value s = None)"
  by (auto simp: current_value_def current_proposal_def srv_accepted_def vs_version_def Let_def
      split: option.splits pvalue.splits if_splits)

lemma erase_present:
  assumes "replica_inv e r" and "disk e r k \<noteq> None"
  shows "\<exists>r'. replica_erase k r = (Inr (), r') \<and> disk e r' k = None"
proof -
  obtain x r' where er: "replica_erase k r = (x, r')" by fastforce
  have good: "silo_good (no_cipher (re_node e)) (rp_silo r)" using assms(1) by (simp add: replica_inv_def)
  obtain y s where s: "silo_erase (rp_silo r) k = (y, s)" by fastforce
  from store.erase_law [OF good, of k] s assms(2) have "\<exists>d. y = Inr d" by (auto simp: erase_spec_def)
  then have "x = Inr ()" using er s
    by (auto simp: replica_erase_def storage_erase_def silo_action_def bind_st_def missing_block_def)
  then show ?thesis using er replica_erase_effect(4) [OF assms(1)] by blast
qed

text \<open>
  C17. A confirmation that the acceptor discards as obsolete still makes the replica look at
  the last accepted quorum, decided or not: if the node is not in it, the replica removes
  its acceptor, with the promise and the vote in it. The call needs no authenticated
  caller, and neither the quorum nor the proposal of the call is checked.
\<close>

theorem obsolete_confirm_evicts:
  assumes "env_ok e" and "replica_inv e r" and "disk_server e r k = Some s"
    and "current_value s \<noteq> None" and "srv_state s = Some st" and "vs_accepted st = Some a"
    and "acc_value a = PQuorum q'" and "re_id e \<notin> q'" and "prop_version p < vs_version st"
  shows "\<exists>r'. replica_rpc encrypt_rpc e se (ReqConfirm q k p) r = (Inr RepDone, r') \<and> disk e r' k = None"
proof -
  obtain y r1 where l: "replica_load e k r = (y, r1)" by fastforce
  note eff = replica_load_effect [OF assms(1,2) l]
  have "disk e r k \<noteq> None" using assms(3) by (cases "disk e r k") (simp_all add: disk_server_def)
  then obtain dec where d: "y = Inr (IsPaxos dec)" "loaded e r1 k dec" "replica_inv e r1" "disk e r1 = disk e r"
    using eff assms(3) by auto
  have s: "s = seen e (dec_paxos dec)"
    using loaded_disk [OF assms(1) d(2)] d(4) disk_server_cong [of e r k r1] assms(3) by simp
  have conf: "confirm (dec_paxos dec) q p = Inr (dec_paxos dec)" and acc: "confirmed_quorum True (dec_paxos dec) = Some q'"
    using assms(5-7,9) s
    by (auto simp: confirm_def confirmed_quorum_def map_server_def map_vstate_def map_accepted_def srv_accepted_def
        vs_version_def split: pvalue.splits)
  have had: "current_value (dec_paxos dec) \<noteq> None" using assms(4) by (simp add: s map_server_current_value)
  obtain z r2 where sv: "save_decision e k (dec\<lparr>dec_paxos := dec_paxos dec\<rparr>) r1 = (z, r2)" by fastforce
  have "length k = value_size" using \<open>disk e r k \<noteq> None\<close> assms(2) by (auto simp: replica_inv_def)
  from save_decision_effect [OF assms(1) loaded_inv_but [OF d(3,2)] _ this sv] d(2)
  have sv': "z = Inr ()" "replica_inv e r2" "disk e r2 k \<noteq> None"
    using written_read [OF assms(1), of dec] by (auto simp: loaded_def)
  from erase_present [OF sv'(2,3)] obtain r' where er: "replica_erase k r2 = (Inr (), r')" "disk e r' k = None" by blast
  have "missing_block (replica_load e k) r = (y, r1)" using l d(1) by (simp add: missing_block_eval(1))
  then have "replica_confirm e q k p r = (Inr (), r')"
    using d(1) conf acc had sv sv'(1) er assms(8) by (simp add: replica_confirm_def bind_st_def confirm_quorum_def)
  then show ?thesis using er(2) by (simp add: replica_rpc_def request_auth_def replica_run_def bind_st_def)
qed

text \<open>
  C18. A propagated block is stored unseen: a replica that does not have the block takes any
  block, for any quorum with the node in it, whether it validates or not, and from then on
  gives it as the decided value.
\<close>

theorem propagate_unvalidated:
  assumes "env_ok e" and "replica_inv e r" and "quorum_ok q" and "re_id e \<in> q" and "proposal_ok p" and "fit_block e b"
    and "disk e r (block_key b) = None"
  shows "\<exists>r' s. replica_run e (ReqPropagate q (Some b) p) r = (Inr RepDone, r') \<and>
    disk_server e r' (block_key b) = Some s \<and>
    current_value s = Some \<lparr>acc_proposal = p, acc_value = PVal (Some (as_read (re_crypto e) (re_doughnut e) b)), acc_confirmed = True\<rparr>"
proof -
  let ?k = "block_key b"
  have nc: "map_of (rp_addresses r) ?k = None"
  proof (rule ccontr)
    assume "map_of (rp_addresses r) ?k \<noteq> None"
    then obtain dec where "(?k, dec) \<in> set (rp_addresses r)" by (auto dest: map_of_SomeD)
    then have "fit_decision e dec" "written e dec = None" using assms(2,7) by (auto simp: replica_inv_def)
    then show False using written_read [OF assms(1)] by fastforce
  qed
  obtain y r1 where l: "load_paxos e ?k (Some q) (Some b) r = (y, r1)" by fastforce
  have "\<exists>dec. y = Inr dec \<and> dec_paxos dec = fresh_server e q (Some b)"
  proof -
    obtain z r0 where ld: "replica_load e ?k r = (z, r0)" by fastforce
    from replica_load_effect [OF assms(1,2) ld] assms(7) written_read [OF assms(1)]
    have "z = Inl (LocalFailure (SiloFailure (MissingKey ?k)))"
      by (fastforce simp: loaded_def disk_block_def)
    then show ?thesis using l ld assms(4)
      by (auto simp: load_paxos_def create_paxos_def server_new_def decision_new_def fresh_server_def)
  qed
  then obtain dec where y: "y = Inr dec" "dec_paxos dec = fresh_server e q (Some b)" by blast
  obtain m s1 s2 s3 where ops: "propose (fresh_server e q (Some b)) q p = Inr (resp_of None None False, s1)"
    "accept s1 q p (PQuorum q) = Inr (m, s2)" "confirm s2 q p = Inr s3" using propagate_fresh_run(2) by metis
  let ?r2 = "put_decision ?k (dec\<lparr>dec_paxos := s2\<rparr>) (put_decision ?k (dec\<lparr>dec_paxos := s1\<rparr>) r1)"
  obtain x r' where sv: "save_decision e ?k (dec\<lparr>dec_paxos := s3\<rparr>) ?r2 = (x, r')" by fastforce
  have run: "replica_propagate e q (Some b) p r = (x, r')"
    using nc l y ops sv by (simp add: replica_propagate_def Let_def bind_st_def)
  have x: "x = Inr ()"
  proof -
    from load_paxos_start [OF assms(1-3) _ , of "Some b" ?k True] l y assms(6)
    have d: "replica_inv_but e ?k r1" "fit_decision e dec" by (auto simp: fit_block_def)
    show ?thesis
      by (rule save_decision_effect(1) [OF assms(1) put_decision_inv_but [OF put_decision_inv_but [OF d(1)]]
            propagate_fit [OF d(2) assms(3,5) _ ops(2,3)] fit_block_key [OF assms(6)] sv])
        (simp add: y(2) ops(1))
  qed
  from replica_propagate_effect [OF assms(1,2,3,5,6) fit_block_key [OF assms(6)] nc] run x assms(7)
  obtain s where "s = seen e (fresh_server e q (Some b))"
    "disk_server e r' ?k = Some (server_run s [OpPropose q p, OpAccept q p (PQuorum q), OpConfirm q p])"
    by (auto simp: disk_server_def)
  moreover have "seen e (fresh_server e q (Some b)) = fresh_server e q (Some (as_read (re_crypto e) (re_doughnut e) b))"
    by (simp add: map_server_def fresh_server_def)
  ultimately show ?thesis using run x propagate_fresh_run(1) by (simp add: replica_run_def bind_st_def)
qed

section \<open>Examples\<close>

definition toy_env :: "(byte, byte) replica_env" where
  "toy_env = \<lparr>re_node = toy_local, re_id = 1, re_ids = sorted_list_of_set, re_factor = 3, re_auto_expand = True,
     re_max_addresses = 1, re_lookup = (\<lambda>_ _. [])\<rparr>"

abbreviation toy_key :: key where
  "toy_key \<equiv> replicate 32 9"

definition toy_replica :: "(byte, byte) replica" where
  "toy_replica = snd (replica_run toy_env (ReqPropose {1, 2} toy_key (Proposal 1 1 1) True) (replica_start memory_new))"

lemma toy_env_ok: "env_ok toy_env"
proof -
  have "Version 0 2 0 \<le> wi_elle toy_wire" by code_simp
  then show ?thesis using toy_wire_laws toy_stored_ok(3)
    by (simp add: env_ok_def wire_current_def toy_env_def toy_local_def order_ok_def)
qed

lemma toy_start_inv: "replica_inv toy_env (replica_start memory_new)"
  using toy_local_ok(2) by (simp add: replica_inv_def replica_start_def toy_env_def memory_new_def)

lemma small_quorum: "quorum_ok q" if "card q \<le> 2"
  using that by (simp add: quorum_ok_def)

lemma toy_request: "quorum_ok {1, 2 :: node_id}" "proposal_ok (Proposal 1 1 1)" "proposal_ok (Proposal 1 2 2)"
  "length toy_key = value_size"
  by (auto simp: proposal_ok_def int_ok_def value_size_def quorum_ok_def card_insert_if)

lemma start_current: "acceptors_current toy_env (replica_start memory_new)"
  by (simp add: acceptors_current_def disk_server_def replica_start_def toy_env_def memory_new_def)

lemma server_on_disk: "disk_server e r k = Some s \<Longrightarrow> disk e r k \<noteq> None"
  by (cases "disk e r k") (simp_all add: disk_server_def)

lemma one_current:
  assumes "disk_server e r k = Some s" and "accepted_current s" and "\<And>k'. k' \<noteq> k \<Longrightarrow> disk e r k' = None"
  shows "acceptors_current e r"
  unfolding acceptors_current_def
proof (intro allI impI)
  fix k' t
  assume t: "disk_server e r k' = Some t"
  then have "k' = k" using server_on_disk assms(3) by blast
  then show "accepted_current t" using t assms(1,2) by simp
qed

lemma toy_replica_current: "acceptors_current toy_env toy_replica"
proof -
  let ?r = "replica_start memory_new"
  obtain x r' where p: "replica_propose toy_env {1, 2} toy_key (Proposal 1 1 1) True ?r = (x, r')" by fastforce
  then have r': "toy_replica = r'" by (cases x) (simp_all add: toy_replica_def replica_run_def bind_st_def)
  have empty: "disk toy_env ?r k = None" for k by (simp add: replica_start_def toy_env_def memory_new_def)
  note eff = replica_propose_effect [OF toy_env_ok toy_start_inv toy_request(1,2,4) p]
  show ?thesis
  proof (cases x)
    case (Inl z)
    then show ?thesis using eff empty by (simp add: acceptors_current_def disk_server_def r')
  next
    case (Inr rs)
    with eff empty obtain s' where s': "propose (fresh_server toy_env {1, 2} None) {1, 2} (Proposal 1 1 1) = Inr (seen_response toy_env rs, s')"
      "disk_server toy_env r' toy_key = Some s'" "\<forall>k'. k' \<noteq> toy_key \<longrightarrow> disk toy_env r' k' = None"
      by (auto simp: disk_server_def)
    from propose_unconfirmed [OF s'(1)] have "accepted_current s'" by (simp add: srv_accepted_def fresh_server_def)
    then show ?thesis unfolding r' using s'(3) by (intro one_current [OF s'(2)]) simp_all
  qed
qed

theorem replica_durable_witness:
  "fst (replica_load toy_env toy_key (replica_start (rp_silo toy_replica))) =
    map_sum id (item_as_read toy_env) (fst (replica_load toy_env toy_key toy_replica))"
proof (rule replica_durable [OF toy_env_ok toy_start_inv])
  let ?req = "ReqPropose {1, 2} toy_key (Proposal 1 1 1) True"
  have "replica_reach toy_env (acceptors_current toy_env) (replica_start memory_new) (replica_start memory_new)"
    by (rule reach_start) (rule start_current)
  moreover have "request_fit toy_env ?req" using toy_request by (simp add: request_fit_def)
  moreover have "replica_run toy_env ?req (replica_start memory_new) =
      (fst (replica_run toy_env ?req (replica_start memory_new)), toy_replica)" by (simp add: toy_replica_def)
  ultimately show "replica_reach toy_env (acceptors_current toy_env) (replica_start memory_new) toy_replica"
    using toy_replica_current by (rule reach_request)
qed

text \<open>A node that stores one acceptor, with a promise and maybe a vote for a new quorum.\<close>

definition toy_acceptor :: "(byte, byte) decision" where
  "toy_acceptor = decision_new \<lparr>srv_id = 1, srv_quorum = {1, 2}, srv_value = Some (Some (ACB toy_stored)),
     srv_version = Version 0 4 0, srv_partial = False,
     srv_state = Some \<lparr>vs_proposal = Proposal 2 1 1,
       vs_accepted = Some \<lparr>acc_proposal = Proposal 2 1 1, acc_value = PQuorum {2}, acc_confirmed = False\<rparr>\<rparr>\<rparr>"

definition toy_holder :: "(byte, byte) replica" where
  "toy_holder = snd (save_decision toy_env toy_key toy_acceptor (replica_start memory_new))"

lemma toy_block_ok: "fit_block toy_env (ACB toy_stored)" "as_read byte_crypto toy_node (ACB toy_stored) = ACB toy_stored"
proof -
  have "block_received byte_crypto toy_node (ACB toy_stored) = Inr (ACB toy_stored)"
    by (simp add: block_received_def acb_received_def toy_stored_def toy_node_def)
  then show "fit_block toy_env (ACB toy_stored)" "as_read byte_crypto toy_node (ACB toy_stored) = ACB toy_stored"
    using toy_stored_ok(1) by (simp_all add: fit_block_def block_writable_def toy_env_def toy_local_def as_read_def)
qed

lemma toy_acceptor_fit: "fit_decision toy_env toy_acceptor"
proof -
  have "quorum_ok {2 :: node_id}" by (simp add: quorum_ok_def)
  moreover have "Version 0 4 0 = wi_elle toy_wire" by (simp add: toy_wire_def)
  ultimately show ?thesis using toy_block_ok(1) toy_request(1)
    unfolding fit_decision_def decision_ok_def server_ok_def toy_acceptor_def decision_new_def
    by (simp add: accepted_ok_def value_ok_def fit_block_def proposal_ok_def int_ok_def server_inv_def
        toy_env_def toy_local_def)
qed

lemma toy_holder_ok:
  "replica_inv toy_env toy_holder" "disk_server toy_env toy_holder toy_key = Some (dec_paxos toy_acceptor)"
proof -
  obtain x r' where sv: "save_decision toy_env toy_key toy_acceptor (replica_start memory_new) = (x, r')" by fastforce
  note eff = save_decision_effect [OF toy_env_ok inv_but [OF toy_start_inv] toy_acceptor_fit toy_request(4) sv]
  then have "disk_server toy_env r' toy_key = Some (seen toy_env (dec_paxos toy_acceptor))"
    by (intro disk_server_written [OF toy_env_ok toy_acceptor_fit]) simp
  moreover have "seen toy_env (dec_paxos toy_acceptor) = dec_paxos toy_acceptor"
    using toy_block_ok(2) by (simp add: toy_acceptor_def decision_new_def map_server_def map_vstate_def map_accepted_def
        toy_env_def toy_local_def)
  ultimately show "replica_inv toy_env toy_holder" "disk_server toy_env toy_holder toy_key = Some (dec_paxos toy_acceptor)"
    using eff(2) sv by (simp_all add: toy_holder_def)
qed

definition toy_later :: "(byte, byte) replica" where
  "toy_later = snd (replica_run toy_env (ReqPropose {1, 2} toy_key (Proposal 2 2 2) False) toy_holder)"

lemma toy_holder_disk: "k \<noteq> toy_key \<Longrightarrow> disk toy_env toy_holder k = None"
proof -
  obtain x r' where sv: "save_decision toy_env toy_key toy_acceptor (replica_start memory_new) = (x, r')" by fastforce
  note eff = save_decision_effect [OF toy_env_ok inv_but [OF toy_start_inv] toy_acceptor_fit toy_request(4) sv]
  then show "k \<noteq> toy_key \<Longrightarrow> disk toy_env toy_holder k = None"
    using sv by (simp add: toy_holder_def replica_start_def toy_env_def memory_new_def)
qed

lemma toy_later_kept:
  "disk_server toy_env toy_later toy_key \<noteq> None" "acceptors_current toy_env toy_later"
proof -
  obtain x r' where p: "replica_propose toy_env {1, 2} toy_key (Proposal 2 2 2) False toy_holder = (x, r')" by fastforce
  then have r': "toy_later = r'" by (cases x) (simp_all add: toy_later_def replica_run_def bind_st_def)
  have fit: "proposal_ok (Proposal 2 2 2)" by (simp add: proposal_ok_def int_ok_def)
  note eff = replica_propose_effect [OF toy_env_ok toy_holder_ok(1) toy_request(1) fit toy_request(4) p]
  have "\<exists>s. disk_server toy_env r' toy_key = Some s \<and> accepted_current s \<and> (\<forall>k. k \<noteq> toy_key \<longrightarrow> disk toy_env r' k = None)"
  proof (cases x)
    case (Inl z)
    then have d: "disk toy_env r' = disk toy_env toy_holder" using eff by simp
    have "accepted_current (dec_paxos toy_acceptor)"
      by (simp add: accepted_current_def toy_acceptor_def decision_new_def)
    then show ?thesis using d toy_holder_ok(2) toy_holder_disk disk_server_cong [of toy_env r' toy_key toy_holder] by simp
  next
    case (Inr rs)
    then obtain s s' where s: "disk_server toy_env toy_holder toy_key = Some s" "propose s {1, 2} (Proposal 2 2 2) = Inr (seen_response toy_env rs, s')"
      "disk_server toy_env r' toy_key = Some s'" "\<forall>k. k \<noteq> toy_key \<longrightarrow> disk toy_env r' k = disk toy_env toy_holder k"
      using eff by auto
    have "s = dec_paxos toy_acceptor" using s(1) toy_holder_ok(2) by simp
    then have "\<not> acc_confirmed a" if "srv_accepted s = Some a" for a
      using that by (auto simp: srv_accepted_def toy_acceptor_def decision_new_def)
    from propose_unconfirmed [OF s(2) this] have "accepted_current s'" .
    then show ?thesis using s(3,4) toy_holder_disk by simp
  qed
  then show "disk_server toy_env toy_later toy_key \<noteq> None" "acceptors_current toy_env toy_later"
    using one_current [of toy_env r' toy_key] by (auto simp: r')
qed

theorem replica_keeps_promise_witness:
  "\<exists>ops. disk_server toy_env toy_later toy_key = Some (server_run (dec_paxos toy_acceptor) ops)
    \<and> promise_le (Some (Proposal 2 1 1)) (srv_promise (server_run (dec_paxos toy_acceptor) ops))"
proof -
  let ?req = "ReqPropose {1, 2} toy_key (Proposal 2 2 2) False"
  let ?P = "\<lambda>r. disk toy_env r toy_key \<noteq> None \<and> acceptors_current toy_env r"
  have stored: "disk toy_env r toy_key \<noteq> None" if "disk_server toy_env r toy_key \<noteq> None" for r
    using that server_on_disk by auto
  have "accepted_current (dec_paxos toy_acceptor)" by (simp add: accepted_current_def toy_acceptor_def decision_new_def)
  then have "acceptors_current toy_env toy_holder" using one_current [OF toy_holder_ok(2)] toy_holder_disk by blast
  then have "?P toy_holder" "?P toy_later" using stored toy_holder_ok(2) toy_later_kept by simp_all
  moreover have "request_fit toy_env ?req" using toy_request by (simp add: request_fit_def proposal_ok_def int_ok_def)
  moreover have "replica_run toy_env ?req toy_holder = (fst (replica_run toy_env ?req toy_holder), toy_later)"
    by (simp add: toy_later_def)
  ultimately have "replica_reach toy_env ?P toy_holder toy_later" by (intro reach_request [OF reach_start])
  from replica_keeps_promise [OF toy_env_ok toy_holder_ok this] show ?thesis
    by (auto simp: toy_acceptor_def decision_new_def srv_promise_def)
qed

theorem obsolete_confirm_evicts_witness:
  "\<exists>r'. replica_rpc True toy_env session_new (ReqConfirm {} toy_key (Proposal 1 0 0)) toy_holder = (Inr RepDone, r')
     \<and> disk toy_env r' toy_key = None"
  by (rule obsolete_confirm_evicts [OF toy_env_ok toy_holder_ok, where q' = "{2}"
        and st = "\<lparr>vs_proposal = Proposal 2 1 1,
       vs_accepted = Some \<lparr>acc_proposal = Proposal 2 1 1, acc_value = PQuorum {2}, acc_confirmed = False\<rparr>\<rparr>"
        and a = "\<lparr>acc_proposal = Proposal 2 1 1, acc_value = PQuorum {2}, acc_confirmed = False\<rparr>"])
    (simp_all add: toy_acceptor_def decision_new_def current_value_def current_proposal_def srv_accepted_def
      vs_version_def toy_env_def)

theorem propagate_unvalidated_witness:
  "validate_block byte_crypto toy_node True (ACB toy_stored) = Inr (vr_failure ''invalid signature'')
   \<and> (\<exists>r' s. replica_run toy_env (ReqPropagate {1, 2} (Some (ACB toy_stored)) (Proposal 1 1 1)) (replica_start memory_new) =
         (Inr RepDone, r') \<and> disk_server toy_env r' (block_key (ACB toy_stored)) = Some s \<and>
       current_value s = Some \<lparr>acc_proposal = Proposal 1 1 1, acc_value = PVal (Some (ACB toy_stored)), acc_confirmed = True\<rparr>)"
proof
  show "validate_block byte_crypto toy_node True (ACB toy_stored) = Inr (vr_failure ''invalid signature'')" by code_simp
  have "disk toy_env (replica_start memory_new) k = None" for k
    by (simp add: replica_start_def toy_env_def memory_new_def)
  from propagate_unvalidated [OF toy_env_ok toy_start_inv toy_request(1) _ toy_request(2) toy_block_ok(1) this] toy_block_ok(2)
  show "\<exists>r' s. replica_run toy_env (ReqPropagate {1, 2} (Some (ACB toy_stored)) (Proposal 1 1 1)) (replica_start memory_new) =
         (Inr RepDone, r') \<and> disk_server toy_env r' (block_key (ACB toy_stored)) = Some s \<and>
       current_value s = Some \<lparr>acc_proposal = Proposal 1 1 1, acc_value = PVal (Some (ACB toy_stored)), acc_confirmed = True\<rparr>"
    by (simp add: toy_env_def toy_local_def)
qed

end
