(* ===== verification/Memo_Async.thy ===== *)
theory Memo_Async
  imports Memo_Local
begin

text \<open>
  The asynchronous consensus: \<^verbatim>\<open>Async\<close> (src/memo/model/doughnut/Async.cc) answers a store or
  a removal once the operation is in its journal, and a background loop replays the
  operations on the consensus below it. At most \<open>as_max_size\<close> operations are kept whole in
  memory; the later ones are known by their address only and are read again from the
  journal when there is room. An operation may be squashed with an earlier one for the
  same address, if the conflict resolvers (src/memo/model/Model.cc) agree to it.

  The consensus below, the resolvers of the clients and the sealing of a block that was
  read again are the record \<open>async_env\<close>; the state \<open>'w\<close> of the consensus below is the
  rest of the network with it. Operations run without being interleaved.
\<close>

section \<open>Conflict resolvers\<close>

datatype squash = SquashStop | SquashSkip | FirstStop | LastStop | FirstContinue | LastContinue

text \<open>
  \<open>Resolver\<close> is a resolver of a client, \<open>MergeResolver\<close> the sequence of resolvers of
  squashed operations, with the option \<^verbatim>\<open>max_size\<close>.
\<close>

datatype 'r resolver = Resolver 'r | MergeResolver int "'r resolver list"

definition make_merge_conflict_resolver :: "'r resolver \<Rightarrow> 'r resolver \<Rightarrow> int \<Rightarrow> 'r resolver" where
  "make_merge_conflict_resolver a b config =
     (case (a, b) of
        (MergeResolver c rs, _) \<Rightarrow> MergeResolver c (rs @ [b])
      | (_, MergeResolver c rs) \<Rightarrow> MergeResolver c (a # rs)
      | _ \<Rightarrow> MergeResolver config [a, b])"

section \<open>State\<close>

record ('k, 's, 'r) op =
  op_address :: key
  op_block :: "('k, 's) any_block option"
  op_mode :: "store_mode option"
  op_resolver :: "'r resolver option"
  op_signature :: "('k, 's) remove_signature"
  op_index :: int
  op_version :: "int option"  \<comment> \<open>\<open>None\<close>: the member was not initialised\<close>

datatype backend_error = BackendCollision | BackendMissing | BackendFailure string

record ('k, 's, 'r, 'w) async_env =
  ae_squash :: bool
  ae_max_squash :: nat
  ae_squashable :: "'r \<Rightarrow> 'r resolver list \<Rightarrow> squash \<times> int"
  ae_seal :: "int \<Rightarrow> ('k, 's) any_block \<Rightarrow> ('k, 's) any_block"
  ae_reload :: "('k, 's) any_block \<Rightarrow> ('k, 's) any_block"
  ae_store :: "('k, 's) any_block option \<Rightarrow> store_mode \<Rightarrow> 'r resolver option \<Rightarrow> 'w \<Rightarrow> (backend_error + unit) \<times> 'w"
  ae_remove :: "key \<Rightarrow> ('k, 's) remove_signature \<Rightarrow> 'w \<Rightarrow> (backend_error + unit) \<times> 'w"
  ae_fetch :: "key \<Rightarrow> int option \<Rightarrow> 'w \<Rightarrow> (backend_error + ('k, 's) any_block option) \<times> 'w"

text \<open>
  The journal holds a file per operation, as it was written; the journal \<open>None\<close> is an empty
  path. A file may be unreadable, when the node stopped while writing it for example: of
  such a file the address, the first of its fields, can be read at most.
\<close>

datatype ('k, 's, 'r) journal_file = OpFile (file_op: "('k, 's, 'r) op") | TornFile "key option"

type_synonym ('k, 's, 'r) journal = "(int \<times> ('k, 's, 'r) journal_file) list"

record ('k, 's, 'r) async =
  as_operations :: "('k, 's, 'r) op list"  \<comment> \<open>by index\<close>
  as_queue :: "int list"
  as_next_index :: int
  as_last_processed_index :: int
  as_journal :: "('k, 's, 'r) journal option"
  as_first_disk_index :: "int option"
  as_max_size :: int

text \<open>The version of an operation, recomputed each time it is moved.\<close>

definition op_moved :: "('k, 's, 'r) op \<Rightarrow> ('k, 's, 'r) op" where
  "op_moved o' = o'\<lparr>op_version :=
     (case Option.bind (op_block o') mutable_version of
        Some v \<Rightarrow> Some v
      | None \<Rightarrow> Option.bind (rs_block (op_signature o')) mutable_version)\<rparr>"

definition op_new ::
  "key \<Rightarrow> ('k, 's) any_block option \<Rightarrow> store_mode option \<Rightarrow> 'r resolver option \<Rightarrow> ('k, 's) remove_signature
     \<Rightarrow> ('k, 's, 'r) op" where
  "op_new a b mode r rs =
     (let o' = op_moved \<lparr>op_address = a, op_block = b, op_mode = mode, op_resolver = r, op_signature = rs,
                         op_index = - 1, op_version = None\<rparr>
      in o'\<lparr>op_version := Some (case op_version o' of Some v \<Rightarrow> v | None \<Rightarrow> - 1)\<rparr>)"

section \<open>Journal\<close>

definition load_op :: "('k, 's, 'r, 'w) async_env \<Rightarrow> ('k, 's, 'r) journal option \<Rightarrow> int \<Rightarrow> ('k, 's, 'r) op option" where
  "load_op e j i = Option.bind j (\<lambda>j.
     case map_of j i of
       Some (OpFile o') \<Rightarrow>
         Some (op_moved (o'\<lparr>op_block := map_option (ae_reload e) (op_block o'),
           op_signature := (op_signature o')\<lparr>rs_block := map_option (ae_reload e) (rs_block (op_signature o'))\<rparr>,
           op_index := i\<rparr>))
     | _ \<Rightarrow> None)"

text \<open>With the context \<^verbatim>\<open>OpAddressOnly\<close> the rest of the file is not read.\<close>

definition file_address :: "('k, 's, 'r) journal_file \<Rightarrow> key option" where
  "file_address f = (case f of OpFile o' \<Rightarrow> Some (op_address o') | TornFile a \<Rightarrow> a)"

definition load_op_address :: "('k, 's, 'r) journal option \<Rightarrow> int \<Rightarrow> ('k, 's, 'r) op option" where
  "load_op_address j i = Option.bind j (\<lambda>j. map_option
     (\<lambda>a. \<lparr>op_address = a, op_block = None, op_mode = None, op_resolver = None,
            op_signature = rs_empty, op_index = i, op_version = None\<rparr>)
     (Option.bind (map_of j i) file_address))"

definition journal_write :: "('k, 's, 'r) op \<Rightarrow> ('k, 's, 'r) async \<Rightarrow> ('k, 's, 'r) async" where
  "journal_write o' s = s\<lparr>as_journal := map_option (AList.update (op_index o') (OpFile o')) (as_journal s)\<rparr>"

definition journal_remove :: "int \<Rightarrow> ('k, 's, 'r) async \<Rightarrow> ('k, 's, 'r) async" where
  "journal_remove i s = s\<lparr>as_journal := map_option (AList.delete i) (as_journal s)\<rparr>"

definition emplace :: "('k, 's, 'r) op \<Rightarrow> ('k, 's, 'r) op list \<Rightarrow> ('k, 's, 'r) op list" where
  "emplace o' ops = (if op_index o' \<in> op_index ` set ops then ops else insort_key op_index (op_moved o') ops)"

text \<open>A file that cannot be read is skipped.\<close>

fun init_entries ::
  "('k, 's, 'r, 'w) async_env \<Rightarrow> int list \<Rightarrow> ('k, 's, 'r) async \<Rightarrow> ('k, 's, 'r) async" where
  "init_entries e [] s = s"
| "init_entries e (i # is) s =
     (let room = int (length (as_queue s)) < as_max_size s in
      case (if room then load_op e (as_journal s) i else load_op_address (as_journal s) i) of
        None \<Rightarrow> init_entries e is s
      | Some o' \<Rightarrow>
          let s1 = s\<lparr>as_next_index := max i (as_next_index s)\<rparr> in
          init_entries e is
            (if room then s1\<lparr>as_queue := as_queue s1 @ [op_index o'], as_operations := emplace o' (as_operations s1)\<rparr>
             else s1\<lparr>as_first_disk_index := (case as_first_disk_index s1 of None \<Rightarrow> Some (op_index o') | d \<Rightarrow> d),
                     as_operations := emplace (o'\<lparr>op_block := None\<rparr>) (as_operations s1)\<rparr>))"

text \<open>\<^verbatim>\<open>Async::Async\<close> and \<^verbatim>\<open>_init\<close>. A maximum of zero leaves the queue unlimited.\<close>

definition size_unlimited :: int where
  "size_unlimited = 2 ^ 31 - 1"

definition async_start :: "('k, 's, 'r, 'w) async_env \<Rightarrow> ('k, 's, 'r) journal option \<Rightarrow> int \<Rightarrow> ('k, 's, 'r) async" where
  "async_start e j max_size =
     init_entries e (case j of None \<Rightarrow> [] | Some j \<Rightarrow> sort (map fst j))
       \<lparr>as_operations = [], as_queue = [], as_next_index = 1, as_last_processed_index = 0, as_journal = j,
        as_first_disk_index = None, as_max_size = (if max_size = 0 then size_unlimited else max_size)\<rparr>"

section \<open>Pushing an operation\<close>

datatype push_failure =
    PushWaits      \<comment> \<open>the channel is full and there is no journal\<close>
  | PushAborts     \<comment> \<open>\<^verbatim>\<open>elle::unreachable\<close>\<close>
  | PushUndefined  \<comment> \<open>a version that was not initialised is used\<close>

definition resolver_squashable ::
  "('k, 's, 'r, 'w) async_env \<Rightarrow> 'r resolver \<Rightarrow> 'r resolver \<Rightarrow> (squash \<times> int) option" where
  "resolver_squashable e this prev =
     (let ask = (\<lambda>stack. case this of Resolver r \<Rightarrow> Some (ae_squashable e r stack) | MergeResolver _ _ \<Rightarrow> None) in
      case prev of
        MergeResolver _ rs \<Rightarrow> if length rs < ae_max_squash e then ask rs else Some (SquashStop, 0)
      | Resolver _ \<Rightarrow> ask [prev])"

fun search_candidates ::
  "('k, 's, 'r, 'w) async_env \<Rightarrow> 'r resolver \<Rightarrow> ('k, 's, 'r) op list \<Rightarrow> (squash \<times> int \<times> ('k, 's, 'r) op) option
     \<Rightarrow> (squash \<times> int \<times> ('k, 's, 'r) op) option option" where
  "search_candidates e this [] found = Some found"
| "search_candidates e this (c # cs) found =
     (case op_resolver c of
        None \<Rightarrow> search_candidates e this cs found
      | Some r \<Rightarrow>
          (case resolver_squashable e this r of
             None \<Rightarrow> None
           | Some (sq, n) \<Rightarrow>
               (case sq of
                  SquashStop \<Rightarrow> Some found
                | SquashSkip \<Rightarrow> search_candidates e this cs found
                | FirstStop \<Rightarrow> Some (Some (sq, n, c))
                | LastStop \<Rightarrow> Some (Some (sq, n, c))
                | FirstContinue \<Rightarrow> search_candidates e this cs (Some (sq, n, c))
                | LastContinue \<Rightarrow> search_candidates e this cs (Some (sq, n, c)))))"

text \<open>
  The operations for the address, the latest first, without the head of the queue, which
  may be in progress.
\<close>

definition squash_candidate ::
  "('k, 's, 'r, 'w) async_env \<Rightarrow> ('k, 's, 'r) op \<Rightarrow> ('k, 's, 'r) async
     \<Rightarrow> (squash \<times> int \<times> ('k, 's, 'r) op) option option" where
  "squash_candidate e o' s =
     (case op_resolver o' of
        None \<Rightarrow> Some None
      | Some this \<Rightarrow>
          if ae_squash e then
            search_candidates e this
              (rev (filter (\<lambda>c. op_address c = op_address o' \<and> op_index c \<noteq> op_index (hd (as_operations s))) (as_operations s)))
              None
          else Some None)"

text \<open>\<^verbatim>\<open>acb->seal(cop.version)\<close>, on the block to store or else on the block of the signature.\<close>

definition is_acb :: "('k, 's) any_block \<Rightarrow> bool" where
  "is_acb b = (case b of ACB _ \<Rightarrow> True | _ \<Rightarrow> False)"

definition op_seal ::
  "('k, 's, 'r, 'w) async_env \<Rightarrow> int option \<Rightarrow> ('k, 's, 'r) op \<Rightarrow> push_failure + ('k, 's, 'r) op" where
  "op_seal e version o' =
     (let with_version = (\<lambda>f. case version of None \<Rightarrow> Inl PushUndefined | Some v \<Rightarrow> Inr (f v)) in
      case op_block o' of
        Some b \<Rightarrow>
          if is_acb b then with_version (\<lambda>v. o'\<lparr>op_block := Some (ae_seal e v b)\<rparr>)
          else (case rs_block (op_signature o') of
                  Some rb \<Rightarrow> if is_acb rb
                    then with_version (\<lambda>v. o'\<lparr>op_signature := (op_signature o')\<lparr>rs_block := Some (ae_seal e v rb)\<rparr>\<rparr>) else Inr o'
                | None \<Rightarrow> Inr o')
      | None \<Rightarrow>
          (case rs_block (op_signature o') of
             Some rb \<Rightarrow> if is_acb rb
               then with_version (\<lambda>v. o'\<lparr>op_signature := (op_signature o')\<lparr>rs_block := Some (ae_seal e v rb)\<rparr>\<rparr>) else Inr o'
           | None \<Rightarrow> Inr o'))"

definition overwrite_op ::
  "('k, 's, 'r) op \<Rightarrow> ('k, 's, 'r) op \<Rightarrow> 'r resolver \<Rightarrow> ('k, 's, 'r) async \<Rightarrow> ('k, 's, 'r) async" where
  "overwrite_op c o' cr s =
     (let c' = c\<lparr>op_block := op_block o', op_mode := op_mode o', op_signature := op_signature o', op_resolver := Some cr\<rparr> in
      journal_write c' (s\<lparr>as_operations := map (\<lambda>x. if op_index x = op_index c then c' else x) (as_operations s)\<rparr>))"

definition erase_op :: "int \<Rightarrow> ('k, 's, 'r) async \<Rightarrow> ('k, 's, 'r) async" where
  "erase_op i s =
     (let last_index = op_index (last (as_operations s)) in
      journal_remove i (s\<lparr>as_operations := filter (\<lambda>x. op_index x \<noteq> i) (as_operations s),
        as_first_disk_index :=
          (if as_first_disk_index s = Some i then (if i + 1 > last_index then None else Some (i + 1))
           else as_first_disk_index s)\<rparr>))"

definition enqueue_op :: "('k, 's, 'r) op \<Rightarrow> ('k, 's, 'r) async \<Rightarrow> push_failure + ('k, 's, 'r) async" where
  "enqueue_op o' s =
     (let i = as_next_index s + 1;
          o1 = o'\<lparr>op_index := i\<rparr>;
          s1 = journal_write o1 (s\<lparr>as_next_index := i\<rparr>);
          full = as_max_size s1 \<le> int (length (as_queue s1));
          on_disk = s1\<lparr>as_operations := emplace (o1\<lparr>op_block := None\<rparr>) (as_operations s1)\<rparr>
      in case as_first_disk_index s1 of
           Some _ \<Rightarrow> Inr on_disk
         | None \<Rightarrow>
             if full then
               (if as_journal s1 \<noteq> None then Inr (on_disk\<lparr>as_first_disk_index := Some i\<rparr>) else Inl PushWaits)
             else Inr (s1\<lparr>as_queue := as_queue s1 @ [i], as_operations := emplace o1 (as_operations s1)\<rparr>))"

definition push_op ::
  "('k, 's, 'r, 'w) async_env \<Rightarrow> ('k, 's, 'r) op \<Rightarrow> ('k, 's, 'r) async \<Rightarrow> push_failure + ('k, 's, 'r) async" where
  "push_op e o' s =
     (case squash_candidate e o' s of
        None \<Rightarrow> Inl PushAborts
      | Some None \<Rightarrow> enqueue_op o' s
      | Some (Some (sq, config, c)) \<Rightarrow>
          (let cr = make_merge_conflict_resolver (the (op_resolver c)) (the (op_resolver o')) config in
           bind_res (op_seal e (op_version c) o') (\<lambda>o1.
             if sq = FirstStop \<or> sq = FirstContinue then Inr (overwrite_op c o1 cr s)
             else enqueue_op (o1\<lparr>op_resolver := Some cr\<rparr>) (erase_op (op_index c) s))))"

definition async_store ::
  "('k, 's, 'r, 'w) async_env \<Rightarrow> ('k, 's) any_block \<Rightarrow> store_mode \<Rightarrow> 'r resolver option \<Rightarrow> ('k, 's, 'r) async
     \<Rightarrow> push_failure + ('k, 's, 'r) async" where
  "async_store e b mode r s = push_op e (op_new (block_key b) (Some b) (Some mode) r rs_empty) s"

definition async_remove ::
  "('k, 's, 'r, 'w) async_env \<Rightarrow> key \<Rightarrow> ('k, 's) remove_signature \<Rightarrow> ('k, 's, 'r) async
     \<Rightarrow> push_failure + ('k, 's, 'r) async" where
  "async_remove e a rs s = push_op e (op_new a None None None rs) s"

section \<open>Fetching\<close>

datatype fetch_error = FetchMissing key | FetchUnreadable | FetchBackend backend_error

text \<open>\<^verbatim>\<open>_fetch_cache\<close>: the last operation for the address; \<open>None\<close> when there is none.\<close>

definition fetch_cache ::
  "('k, 's, 'r, 'w) async_env \<Rightarrow> key \<Rightarrow> int option \<Rightarrow> ('k, 's, 'r) async
     \<Rightarrow> (fetch_error + ('k, 's) any_block option) option" where
  "fetch_cache e a lv s =
     (case filter (\<lambda>o'. op_address o' = a) (as_operations s) of
        [] \<Rightarrow> None
      | os \<Rightarrow>
          Some (case op_block (last os) of
             Some b \<Rightarrow> if lv \<noteq> None \<and> mutable_version b = lv then Inr None else Inr (Some b)
           | None \<Rightarrow>
               (case load_op e (as_journal s) (op_index (last os)) of
                  None \<Rightarrow> Inl FetchUnreadable
                | Some l \<Rightarrow> (case op_block l of Some b \<Rightarrow> Inr (Some b) | None \<Rightarrow> Inl (FetchMissing a)))))"

definition async_fetch ::
  "('k, 's, 'r, 'w) async_env \<Rightarrow> key \<Rightarrow> int option \<Rightarrow> ('k, 's, 'r) async \<Rightarrow> 'w
     \<Rightarrow> (fetch_error + ('k, 's) any_block option) \<times> 'w" where
  "async_fetch e a lv s w =
     (case fetch_cache e a lv s of
        Some x \<Rightarrow> (x, w)
      | None \<Rightarrow> (case ae_fetch e a lv w of (Inl x, w') \<Rightarrow> (Inl (FetchBackend x), w') | (Inr b, w') \<Rightarrow> (Inr b, w')))"

section \<open>Processing\<close>

text \<open>The operations from \<^verbatim>\<open>_first_disk_index\<close> on are read again while there is room.\<close>

fun reload_ops ::
  "('k, 's, 'r, 'w) async_env \<Rightarrow> ('k, 's, 'r) journal option \<Rightarrow> int \<Rightarrow> ('k, 's, 'r) op list \<Rightarrow> int list
     \<Rightarrow> ('k, 's, 'r) op list \<times> int list \<times> int option" where
  "reload_ops e j mx [] q = ([], q, None)"
| "reload_ops e j mx (x # xs) q =
     (if mx \<le> int (length q) then (x # xs, q, Some (op_index x))
      else case load_op e j (op_index x) of
        None \<Rightarrow> (case reload_ops e j mx xs q of (ys, q', d) \<Rightarrow> (x # ys, q', d))
      | Some l \<Rightarrow>
          (case reload_ops e j mx xs (q @ [op_index x]) of (ys, q', d) \<Rightarrow>
             (x\<lparr>op_block := op_block l, op_mode := op_mode l, op_resolver := op_resolver l, op_signature := op_signature l\<rparr> # ys,
              q', d)))"

definition load_operations :: "('k, 's, 'r, 'w) async_env \<Rightarrow> ('k, 's, 'r) async \<Rightarrow> ('k, 's, 'r) async" where
  "load_operations e s =
     (case (as_journal s, as_first_disk_index s) of
        (Some j, Some d) \<Rightarrow>
          (case reload_ops e (Some j) (as_max_size s) (dropWhile (\<lambda>x. op_index x \<noteq> d) (as_operations s)) (as_queue s) of
             (ys, q, d') \<Rightarrow> s\<lparr>as_operations := takeWhile (\<lambda>x. op_index x \<noteq> d) (as_operations s) @ ys,
                               as_queue := q, as_first_disk_index := d'\<rparr>)
      | _ \<Rightarrow> s)"

text \<open>One call to the consensus below; a block that is already removed is no error.\<close>

definition attempt ::
  "('k, 's, 'r, 'w) async_env \<Rightarrow> ('k, 's, 'r) op \<Rightarrow> 'w \<Rightarrow> (backend_error + unit) \<times> 'w" where
  "attempt e o' w =
     (case op_mode o' of
        None \<Rightarrow> (case ae_remove e (op_address o') (op_signature o') w of
                   (Inl BackendMissing, w') \<Rightarrow> (Inr (), w')
                 | r \<Rightarrow> r)
      | Some m \<Rightarrow> ae_store e (op_block o') m (op_resolver o') w)"

text \<open>After a collision: the block is there already, with the data of the operation.\<close>

definition idempotent_replay ::
  "('k, 's, 'r, 'w) async_env \<Rightarrow> ('k, 's, 'r) journal option \<Rightarrow> ('k, 's, 'r) op \<Rightarrow> 'w \<Rightarrow> bool option \<times> 'w" where
  "idempotent_replay e j o' w =
     (case ae_fetch e (op_address o') None w of
        (Inl _, w') \<Rightarrow> (Some False, w')
      | (Inr b, w') \<Rightarrow>
          (case load_op e j (op_index o') of
             None \<Rightarrow> (Some False, w')
           | Some l \<Rightarrow>
               (case (b, op_block l) of
                  (Some b, Some lb) \<Rightarrow> (Some (blk_data (base_block b) = blk_data (base_block lb)), w')
                | _ \<Rightarrow> (None, w'))))"

text \<open>
  \<^verbatim>\<open>_process_operation\<close> tries until it succeeds, with the operation read again each time;
  it gives up when it cannot be read. The value \<open>None\<close> is a loop that does not end,
  \<open>Some (Inl ())\<close> a null pointer being dereferenced.
\<close>

partial_function (option) process_operation ::
  "('k, 's, 'r, 'w) async_env \<Rightarrow> ('k, 's, 'r) journal option \<Rightarrow> ('k, 's, 'r) op \<Rightarrow> 'w \<Rightarrow> (unit + 'w) option" where
  "process_operation e j o' w =
     (case attempt e o' w of
        (Inr _, w1) \<Rightarrow> Some (Inr w1)
      | (Inl x, w1) \<Rightarrow>
          (case (if x = BackendCollision then idempotent_replay e j o' w1 else (Some False, w1)) of
             (None, w2) \<Rightarrow> Some (Inl ())
           | (Some replayed, w2) \<Rightarrow>
               if replayed then Some (Inr w2)
               else (case load_op e j (op_index o') of
                  None \<Rightarrow> Some (Inr w2)
                | Some l \<Rightarrow> process_operation e j l w2)))"

text \<open>Indexes of the queue whose operation was squashed are skipped.\<close>

fun next_entry :: "('k, 's, 'r) op list \<Rightarrow> int list \<Rightarrow> int option \<times> int list" where
  "next_entry ops [] = (None, [])"
| "next_entry ops (i # is) = (if ops = [] \<or> op_index (hd ops) > i then next_entry ops is else (Some i, is))"

datatype ('k, 's, 'r, 'w) turn =
    TurnWaits "('k, 's, 'r) async"
  | TurnDone "('k, 's, 'r) op" "('k, 's, 'r) async" 'w
  | TurnAborts     \<comment> \<open>a failed assertion\<close>
  | TurnCrashes
  | TurnForever

definition finish_op :: "int \<Rightarrow> ('k, 's, 'r) async \<Rightarrow> ('k, 's, 'r) async" where
  "finish_op i s =
     (let s1 = (if as_journal s = None then s else (journal_remove i s)\<lparr>as_last_processed_index := i\<rparr>)
      in s1\<lparr>as_operations := tl (as_operations s1)\<rparr>)"

definition process_turn ::
  "('k, 's, 'r, 'w) async_env \<Rightarrow> ('k, 's, 'r) async \<Rightarrow> 'w \<Rightarrow> ('k, 's, 'r, 'w) turn" where
  "process_turn e s w =
     (let s1 = (if int (length (as_queue s)) \<le> as_max_size s div 2 \<and> as_first_disk_index s \<noteq> None
                then load_operations e s else s)
      in case next_entry (as_operations s1) (as_queue s1) of
           (None, q) \<Rightarrow> TurnWaits (s1\<lparr>as_queue := q\<rparr>)
         | (Some i, q) \<Rightarrow>
             let o' = hd (as_operations s1) in
             if op_index o' \<noteq> i then TurnAborts
             else case process_operation e (as_journal s1) o' w of
                    None \<Rightarrow> TurnForever
                  | Some (Inl _) \<Rightarrow> TurnCrashes
                  | Some (Inr w') \<Rightarrow> TurnDone o' (finish_op i (s1\<lparr>as_queue := q\<rparr>)) w')"

text \<open>The loop of \<^verbatim>\<open>sync\<close> is left when this holds.\<close>

definition sync_done :: "int \<Rightarrow> ('k, 's, 'r) async \<Rightarrow> bool" where
  "sync_done wait_id s \<longleftrightarrow> wait_id \<le> as_last_processed_index s"

definition sync_wait_id :: "('k, 's, 'r) async \<Rightarrow> int" where
  "sync_wait_id s = as_next_index s - 1"

section \<open>Invariant\<close>

text \<open>No resolver of this repository asks for operations to be squashed: that is the default.\<close>

definition never_squashes :: "('k, 's, 'r, 'w) async_env \<Rightarrow> bool" where
  "never_squashes e \<longleftrightarrow> \<not> ae_squash e \<or> (\<forall>r stack. fst (ae_squashable e r stack) = SquashStop)"

lemma search_stops:
  assumes "\<forall>r stack. fst (ae_squashable e r stack) = SquashStop"
  shows "search_candidates e this cs found \<in> {None, Some found}"
proof (induction cs)
  case (Cons c cs)
  have stop: "resolver_squashable e this r = Some (sq, n) \<Longrightarrow> sq = SquashStop" for r sq n
    using assms
    by (auto simp: resolver_squashable_def Let_def split: resolver.splits if_splits dest: arg_cong [where f = fst])
  show ?case using Cons by (auto split: option.splits dest!: stop)
qed simp

lemma push_enqueues:
  assumes "never_squashes e" and "push_op e o' s = Inr s'"
  shows "enqueue_op o' s = Inr s'"
proof -
  have "squash_candidate e o' s \<in> {None, Some None}"
    using assms(1) search_stops [of e] by (auto simp: never_squashes_def squash_candidate_def split: option.splits)
  then show ?thesis using assms(2) by (auto simp: push_op_def)
qed

text \<open>An operation in memory is the one of the journal, as it was pushed or as it is read again.\<close>

definition same_op :: "('k, 's, 'r, 'w) async_env \<Rightarrow> ('k, 's, 'r) op \<Rightarrow> ('k, 's, 'r) op \<Rightarrow> bool" where
  "same_op e p x \<longleftrightarrow> op_index x = op_index p \<and> op_address x = op_address p \<and> op_mode x = op_mode p \<and>
     op_resolver x = op_resolver p \<and>
     (op_block x = op_block p \<and> op_signature x = op_signature p \<or>
      op_block x = map_option (ae_reload e) (op_block p) \<and>
      op_signature x = (op_signature p)\<lparr>rs_block := map_option (ae_reload e) (rs_block (op_signature p))\<rparr>)"

definition journal_entry :: "('k, 's, 'r) journal \<Rightarrow> int \<Rightarrow> ('k, 's, 'r) op \<Rightarrow> bool" where
  "journal_entry j i p \<longleftrightarrow> map_of j i = Some (OpFile p) \<and> op_index p = i"

text \<open>The operations in memory are in the queue, the others, on disk, come after them.\<close>

definition async_parts ::
  "('k, 's, 'r, 'w) async_env \<Rightarrow> ('k, 's, 'r) async \<Rightarrow> ('k, 's, 'r) journal \<Rightarrow> ('k, 's, 'r) op list
     \<Rightarrow> ('k, 's, 'r) op list \<Rightarrow> bool" where
  "async_parts e s j mem dsk \<longleftrightarrow>
     as_journal s = Some j \<and> distinct (map fst j) \<and> as_operations s = mem @ dsk \<and>
     sorted_wrt (<) (map op_index (mem @ dsk)) \<and> set (map fst j) = set (map op_index (mem @ dsk)) \<and>
     (\<forall>x \<in> set (mem @ dsk). op_index x \<le> as_next_index s) \<and> 1 \<le> as_max_size s \<and>
     as_queue s = map op_index mem \<and>
     as_first_disk_index s = (case dsk of [] \<Rightarrow> None | x # _ \<Rightarrow> Some (op_index x)) \<and>
     (\<forall>x \<in> set mem. \<exists>p. journal_entry j (op_index x) p \<and> same_op e p x) \<and>
     (\<forall>x \<in> set dsk. \<exists>p. journal_entry j (op_index x) p \<and> op_address x = op_address p \<and> op_block x = None)"

definition async_inv :: "('k, 's, 'r, 'w) async_env \<Rightarrow> ('k, 's, 'r) async \<Rightarrow> bool" where
  "async_inv e s \<longleftrightarrow> (\<exists>j mem dsk. async_parts e s j mem dsk)"

text \<open>The operations still to process, as they were written, in their order.\<close>

definition as_pending :: "('k, 's, 'r) async \<Rightarrow> ('k, 's, 'r) op list" where
  "as_pending s = (case as_journal s of None \<Rightarrow> [] | Some j \<Rightarrow> map (\<lambda>x. file_op (the (map_of j (op_index x)))) (as_operations s))"

lemma op_moved_fields [simp]:
  "op_index (op_moved x) = op_index x" "op_address (op_moved x) = op_address x" "op_mode (op_moved x) = op_mode x"
  "op_resolver (op_moved x) = op_resolver x" "op_block (op_moved x) = op_block x" "op_signature (op_moved x) = op_signature x"
  by (simp_all add: op_moved_def)

lemma insort_greatest: "\<forall>y \<in> set ys. f y < f x \<Longrightarrow> insort_key f x ys = ys @ [x]" for f :: "'a \<Rightarrow> 'b::linorder"
  by (induction ys) (auto simp: not_le)

lemma emplace_greatest: "\<forall>y \<in> set ops. op_index y < op_index x \<Longrightarrow> emplace x ops = ops @ [op_moved x]"
  by (auto simp: emplace_def insort_greatest)

lemma load_op_entry:
  assumes "journal_entry j i p"
  shows "\<exists>l. load_op e (Some j) i = Some l \<and> same_op e p l \<and> op_index l = i"
  using assms by (auto simp: load_op_def journal_entry_def same_op_def)

lemma load_address_entry:
  assumes "journal_entry j i p"
  shows "\<exists>l. load_op_address (Some j) i = Some l \<and> op_address l = op_address p \<and> op_index l = i"
  using assms by (auto simp: load_op_address_def file_address_def journal_entry_def)

lemma same_op_refl: "same_op e p p"
  by (simp add: same_op_def)

lemma same_op_moved [simp]: "same_op e p (op_moved x) = same_op e p x"
  by (simp add: same_op_def)

section \<open>Pushing\<close>

lemma journal_entry_update:
  "journal_entry (AList.update i (OpFile o') j) k p = (if k = i then p = o' \<and> op_index p = k else journal_entry j k p)"
  by (auto simp: journal_entry_def map_of_update)

lemma enqueue_parts:
  assumes parts: "async_parts e s j mem dsk" and "enqueue_op o' s = Inr s'"
  defines "i \<equiv> as_next_index s + 1"
  shows "async_inv e s' \<and> as_pending s' = as_pending s @ [o'\<lparr>op_index := i\<rparr>] \<and> as_next_index s' = i"
proof -
  let ?o = "o'\<lparr>op_index := i\<rparr>" and ?j = "AList.update i (OpFile (o'\<lparr>op_index := i\<rparr>)) j"
  note p = parts [unfolded async_parts_def]
  have less: "\<forall>y \<in> set (mem @ dsk). op_index y < i" using p by (auto simp: i_def)
  then have new: "i \<notin> set (map fst j)" using p by auto
  have keys: "set (map fst ?j) = insert i (set (map fst j))" "distinct (map fst ?j)"
    using p distinct_keys_update [of j i "OpFile ?o"] by (simp_all only: set_keys_map_of map_of_update) auto
  have entry: "journal_entry ?j i ?o" by (simp add: journal_entry_update)
  have kept: "journal_entry ?j (op_index x) q" if "x \<in> set (mem @ dsk)" "journal_entry j (op_index x) q" for x q
    using that less by (auto simp: journal_entry_update)
  have mem: "\<forall>x \<in> set mem. \<exists>q. journal_entry ?j (op_index x) q \<and> same_op e q x" using p kept by fastforce
  have dsk: "\<forall>x \<in> set dsk. \<exists>q. journal_entry ?j (op_index x) q \<and> op_address x = op_address q \<and> op_block x = None"
    using p kept by fastforce
  have old: "map (\<lambda>x. file_op (the (map_of ?j (op_index x)))) (mem @ dsk) = map (\<lambda>x. file_op (the (map_of j (op_index x)))) (mem @ dsk)"
    using less by (auto simp: map_of_update)
  have sorted: "sorted_wrt (<) (map op_index (mem @ dsk) @ [i])" using p less by (auto simp: sorted_wrt_append)
  have bound: "\<forall>x \<in> set mem \<union> set dsk. op_index x \<le> i" using less by (auto intro: less_imp_le)
  let ?queued = "dsk = [] \<and> \<not> as_max_size s \<le> int (length (as_queue s))"
  have s': "as_journal s' = Some ?j" "as_next_index s' = i" "as_max_size s' = as_max_size s"
    "as_operations s' = (mem @ dsk) @ [op_moved (if ?queued then ?o else ?o\<lparr>op_block := None\<rparr>)]"
    "as_queue s' = (if ?queued then as_queue s @ [i] else as_queue s)"
    "as_first_disk_index s' = (if ?queued then None else if dsk = [] then Some i else as_first_disk_index s)"
    using assms(2) p less emplace_greatest [of "mem @ dsk" ?o] emplace_greatest [of "mem @ dsk" "?o\<lparr>op_block := None\<rparr>"]
    by (auto simp: enqueue_op_def Let_def journal_write_def i_def split: list.splits if_splits)
  have "as_pending s' = as_pending s @ [?o]"
    using p s' old by (simp add: as_pending_def map_of_update)
  moreover have "async_inv e s'"
  proof (cases ?queued)
    case True
    then have "async_parts e s' ?j (mem @ [op_moved ?o]) []"
      using p s' keys sorted mem entry bound same_op_refl [of e ?o] by (auto simp: async_parts_def)
    then show ?thesis by (auto simp: async_inv_def)
  next
    case False
    let ?x = "op_moved (?o\<lparr>op_block := None\<rparr>)"
    have "journal_entry ?j (op_index ?x) ?o" "op_address ?x = op_address ?o" "op_block ?x = None" using entry by simp_all
    then have "async_parts e s' ?j mem (dsk @ [?x])"
      using p s' keys sorted mem dsk bound False unfolding async_parts_def by (auto split: list.splits)
    then show ?thesis by (auto simp: async_inv_def)
  qed
  ultimately show ?thesis using s'(2) by simp
qed

section \<open>Restart\<close>

text \<open>The state while the journal is read: the entries read so far, in memory then on disk.\<close>

definition init_state ::
  "('k, 's, 'r, 'w) async_env \<Rightarrow> ('k, 's, 'r) journal \<Rightarrow> ('k, 's, 'r) async \<Rightarrow> ('k, 's, 'r) op list
     \<Rightarrow> ('k, 's, 'r) op list \<Rightarrow> bool" where
  "init_state e j s mem dsk \<longleftrightarrow>
     as_journal s = Some j \<and> as_operations s = mem @ dsk \<and> 1 \<le> as_max_size s \<and> as_queue s = map op_index mem \<and>
     (\<forall>x \<in> set (mem @ dsk). op_index x \<le> as_next_index s) \<and>
     as_first_disk_index s = (case dsk of [] \<Rightarrow> None | x # _ \<Rightarrow> Some (op_index x)) \<and>
     (dsk \<noteq> [] \<longrightarrow> as_max_size s \<le> int (length mem)) \<and>
     (\<forall>x \<in> set mem. \<exists>p. journal_entry j (op_index x) p \<and> same_op e p x) \<and>
     (\<forall>x \<in> set dsk. \<exists>p. journal_entry j (op_index x) p \<and> op_address x = op_address p \<and> op_block x = None)"

lemma init_step:
  assumes st: "init_state e j s mem dsk" and entry: "journal_entry j i p" and less: "\<forall>x \<in> set (mem @ dsk). op_index x < i"
  shows "\<exists>s1 mem1 dsk1. init_entries e (i # is) s = init_entries e is s1 \<and> init_state e j s1 mem1 dsk1 \<and>
    map op_index (mem1 @ dsk1) = map op_index (mem @ dsk) @ [i]"
proof -
  note p = st [unfolded init_state_def]
  have bound: "\<forall>x \<in> set mem \<union> set dsk. op_index x \<le> max i (as_next_index s)" using p by (auto simp: le_max_iff_disj)
  show ?thesis
  proof (cases "int (length (as_queue s)) < as_max_size s")
    case True
    obtain l where l: "load_op e (Some j) i = Some l" "same_op e p l" "op_index l = i" using load_op_entry [OF entry] by blast
    have dsk: "dsk = []" using p True by auto
    let ?s = "s\<lparr>as_next_index := max i (as_next_index s), as_queue := as_queue s @ [i],
      as_operations := (mem @ dsk) @ [op_moved l]\<rparr>"
    have "init_entries e (i # is) s = init_entries e is ?s"
      using p True l emplace_greatest [of "mem @ dsk" l] less by (simp add: Let_def)
    moreover have "init_state e j ?s (mem @ [op_moved l]) []" using p bound l entry dsk by (auto simp: init_state_def)
    ultimately show ?thesis using l(3) dsk by fastforce
  next
    case False
    obtain l where l: "load_op_address (Some j) i = Some l" "op_address l = op_address p" "op_index l = i"
      using load_address_entry [OF entry] by blast
    let ?x = "op_moved (l\<lparr>op_block := None\<rparr>)"
    let ?s = "s\<lparr>as_next_index := max i (as_next_index s),
      as_first_disk_index := (case as_first_disk_index s of None \<Rightarrow> Some (op_index l) | d \<Rightarrow> d), as_operations := (mem @ dsk) @ [?x]\<rparr>"
    have "init_entries e (i # is) s = init_entries e is ?s"
      using p False l emplace_greatest [of "mem @ dsk" "l\<lparr>op_block := None\<rparr>"] less by (simp add: Let_def)
    moreover have "init_state e j ?s mem (dsk @ [?x])"
      using p bound l entry False unfolding init_state_def by (auto split: list.splits)
    ultimately show ?thesis using l(3) by fastforce
  qed
qed

lemma init_entries_state:
  assumes "init_state e j s mem dsk" and "\<forall>i \<in> set is. \<exists>p. journal_entry j i p"
    and "sorted_wrt (<) (map op_index (mem @ dsk) @ is)"
  shows "\<exists>mem' dsk'. init_state e j (init_entries e is s) mem' dsk' \<and>
    map op_index (mem' @ dsk') = map op_index (mem @ dsk) @ is"
  using assms
proof (induction "is" arbitrary: s mem dsk)
  case Nil
  then show ?case by (metis append_Nil2 init_entries.simps(1))
next
  case (Cons i "is")
  then obtain p where p: "journal_entry j i p" by auto
  have "\<forall>x \<in> set (mem @ dsk). op_index x < i" using Cons.prems(3) by (auto simp: sorted_wrt_append)
  from init_step [OF Cons.prems(1) p this, of "is"] obtain s1 mem1 dsk1 where
    s1: "init_entries e (i # is) s = init_entries e is s1" "init_state e j s1 mem1 dsk1"
    "map op_index (mem1 @ dsk1) = map op_index (mem @ dsk) @ [i]" by blast
  have "sorted_wrt (<) (map op_index (mem1 @ dsk1) @ is)" using Cons.prems(3) unfolding s1(3) by simp
  with Cons.IH [OF s1(2)] Cons.prems(2) obtain mem' dsk' where
    "init_state e j (init_entries e is s1) mem' dsk'" "map op_index (mem' @ dsk') = map op_index (mem1 @ dsk1) @ is" by auto
  then show ?case unfolding s1(1) s1(3) by auto
qed

lemma sorted_less_unique:
  fixes xs ys :: "int list"
  assumes "sorted_wrt (<) xs" and "distinct ys" and "set ys = set xs"
  shows "sort ys = xs"
  using assms by (intro sorted_distinct_set_unique) (auto simp: strict_sorted_iff)

lemma restart_parts:
  assumes "async_parts e s j mem dsk" and "0 \<le> mx"
  shows "async_inv e (async_start e (Some j) mx) \<and> as_pending (async_start e (Some j) mx) = as_pending s"
proof -
  note p = assms(1) [unfolded async_parts_def]
  let ?is = "map op_index (mem @ dsk)"
  let ?s0 = "\<lparr>as_operations = [], as_queue = [], as_next_index = 1, as_last_processed_index = 0, as_journal = Some j,
        as_first_disk_index = None, as_max_size = (if mx = 0 then size_unlimited else mx)\<rparr>"
  have sort: "sort (map fst j) = ?is" using p by (intro sorted_less_unique) simp_all
  then have start: "async_start e (Some j) mx = init_entries e ?is ?s0" by (simp add: async_start_def)
  have entries: "\<forall>i \<in> set ?is. \<exists>q. journal_entry j i q" using p by fastforce
  have "init_state e j ?s0 [] []" using assms(2) by (simp add: init_state_def size_unlimited_def)
  from init_entries_state [OF this entries] p obtain mem' dsk' where
    st: "init_state e j (async_start e (Some j) mx) mem' dsk'" "map op_index (mem' @ dsk') = ?is" using start by auto
  have "async_parts e (async_start e (Some j) mx) j mem' dsk'"
    unfolding async_parts_def st(2) using st(1) p by (simp add: init_state_def)
  moreover have "as_pending (async_start e (Some j) mx) = as_pending s"
  proof -
    have "map ((\<lambda>i. file_op (the (map_of j i))) \<circ> op_index) (mem' @ dsk') = map ((\<lambda>i. file_op (the (map_of j i))) \<circ> op_index) (mem @ dsk)"
      using arg_cong [OF st(2), of "map (\<lambda>i. file_op (the (map_of j i)))"] by (simp only: map_map)
    then show ?thesis using st(1) p by (simp add: init_state_def as_pending_def comp_def)
  qed
  ultimately show ?thesis by (auto simp: async_inv_def)
qed

section \<open>Processing\<close>

lemma reload_parts:
  assumes "\<forall>x \<in> set xs. \<exists>p. journal_entry j (op_index x) p \<and> op_address x = op_address p \<and> op_block x = None"
    and "reload_ops e (Some j) mx xs q = (ys, q', d)"
  shows "\<exists>mem dsk. ys = mem @ dsk \<and> map op_index ys = map op_index xs \<and> q' = q @ map op_index mem \<and>
    d = (case dsk of [] \<Rightarrow> None | x # _ \<Rightarrow> Some (op_index x)) \<and>
    (\<forall>x \<in> set mem. \<exists>p. journal_entry j (op_index x) p \<and> same_op e p x) \<and> set dsk \<subseteq> set xs \<and>
    (xs \<noteq> [] \<and> int (length q) < mx \<longrightarrow> mem \<noteq> [])"
  using assms
proof (induction xs arbitrary: q ys q' d)
  case (Cons x xs)
  show ?case
  proof (cases "mx \<le> int (length q)")
    case True
    with Cons.prems(2) show ?thesis by (intro exI [of _ "[]"] exI [of _ "x # xs"]) auto
  next
    case False
    obtain p where p: "journal_entry j (op_index x) p" "op_address x = op_address p" using Cons.prems(1) by auto
    obtain l where l: "load_op e (Some j) (op_index x) = Some l" "same_op e p l" using load_op_entry [OF p(1)] by blast
    obtain ys1 q1 d1 where r: "reload_ops e (Some j) mx xs (q @ [op_index x]) = (ys1, q1, d1)" by (metis prod_cases3)
    let ?x = "x\<lparr>op_block := op_block l, op_mode := op_mode l, op_resolver := op_resolver l, op_signature := op_signature l\<rparr>"
    have "same_op e p ?x" "op_index ?x = op_index x" using l(2) p by (auto simp: same_op_def journal_entry_def)
    moreover have "\<forall>x \<in> set xs. \<exists>p. journal_entry j (op_index x) p \<and> op_address x = op_address p \<and> op_block x = None"
      using Cons.prems(1) by simp
    from Cons.IH [OF this r] obtain mem dsk where
      "ys1 = mem @ dsk" "map op_index ys1 = map op_index xs" "q1 = (q @ [op_index x]) @ map op_index mem"
      "d1 = (case dsk of [] \<Rightarrow> None | x # _ \<Rightarrow> Some (op_index x))"
      "\<forall>x \<in> set mem. \<exists>p. journal_entry j (op_index x) p \<and> same_op e p x" "set dsk \<subseteq> set xs" by blast
    ultimately show ?thesis using Cons.prems(2) False l(1) r p(1)
      by (intro exI [of _ "?x # mem"] exI [of _ dsk]) auto
  qed
qed simp

lemma load_operations_parts:
  assumes parts: "async_parts e s j mem dsk"
  shows "\<exists>mem' dsk'. async_parts e (load_operations e s) j mem' dsk' \<and> as_pending (load_operations e s) = as_pending s \<and>
    (dsk \<noteq> [] \<and> int (length (as_queue s)) < as_max_size s \<longrightarrow> mem' \<noteq> [])"
proof (cases dsk)
  case Nil
  then have "load_operations e s = s" using parts by (simp add: async_parts_def load_operations_def)
  then show ?thesis using parts Nil by auto
next
  case (Cons x xs)
  note p = parts [unfolded async_parts_def]
  have new: "\<forall>y \<in> set mem. op_index y \<noteq> op_index x" using p Cons by (auto simp: sorted_wrt_append)
  then have split: "takeWhile (\<lambda>y. op_index y \<noteq> op_index x) (mem @ dsk) = mem"
    "dropWhile (\<lambda>y. op_index y \<noteq> op_index x) (mem @ dsk) = dsk"
    using Cons by (auto simp: takeWhile_append dropWhile_append)
  obtain ys q d where r: "reload_ops e (Some j) (as_max_size s) dsk (as_queue s) = (ys, q, d)" by (metis prod_cases3)
  then have s': "load_operations e s = s\<lparr>as_operations := mem @ ys, as_queue := q, as_first_disk_index := d\<rparr>"
    using p Cons split by (simp add: load_operations_def)
  have "\<forall>x \<in> set dsk. \<exists>p. journal_entry j (op_index x) p \<and> op_address x = op_address p \<and> op_block x = None" using p by blast
  from reload_parts [OF this r] obtain mem1 dsk1 where
    m: "ys = mem1 @ dsk1" "map op_index ys = map op_index dsk" "q = as_queue s @ map op_index mem1"
    "d = (case dsk1 of [] \<Rightarrow> None | x # _ \<Rightarrow> Some (op_index x))"
    "\<forall>x \<in> set mem1. \<exists>p. journal_entry j (op_index x) p \<and> same_op e p x" "set dsk1 \<subseteq> set dsk"
    "dsk \<noteq> [] \<and> int (length (as_queue s)) < as_max_size s \<longrightarrow> mem1 \<noteq> []" by blast
  have idx: "map op_index ((mem @ mem1) @ dsk1) = map op_index (mem @ dsk)" using m(1,2) by simp
  have bound: "\<forall>x \<in> set ((mem @ mem1) @ dsk1). op_index x \<le> as_next_index s"
  proof
    fix x
    assume "x \<in> set ((mem @ mem1) @ dsk1)"
    then have "op_index x \<in> set (map op_index (mem @ dsk))" unfolding idx [symmetric] by auto
    then show "op_index x \<le> as_next_index s" using p by auto
  qed
  have "async_parts e (load_operations e s) j (mem @ mem1) dsk1"
    unfolding async_parts_def idx using p m bound s' by auto
  moreover have "as_pending (load_operations e s) = as_pending s"
  proof -
    have "map ((\<lambda>i. file_op (the (map_of j i))) \<circ> op_index) ((mem @ mem1) @ dsk1) = map ((\<lambda>i. file_op (the (map_of j i))) \<circ> op_index) (mem @ dsk)"
      using arg_cong [OF idx, of "map (\<lambda>i. file_op (the (map_of j i)))"] by (simp only: map_map)
    then show ?thesis using p s' m(1) by (simp add: as_pending_def comp_def)
  qed
  ultimately show ?thesis using m(7) by auto
qed

text \<open>A turn of the loop with something to do neither waits nor fails its assertion.\<close>

lemma finish_parts:
  assumes parts: "async_parts e s j (x # mem) dsk"
  shows "async_inv e (finish_op (op_index x) (s\<lparr>as_queue := map op_index mem\<rparr>)) \<and>
    (\<exists>p. same_op e p x \<and> as_pending s = p # as_pending (finish_op (op_index x) (s\<lparr>as_queue := map op_index mem\<rparr>)))"
proof -
  let ?s = "finish_op (op_index x) (s\<lparr>as_queue := map op_index mem\<rparr>)" and ?j = "AList.delete (op_index x) j"
  note p = parts [unfolded async_parts_def]
  have "\<forall>i \<in> set (map op_index (mem @ dsk)). op_index x < i" using p by simp
  then have others: "\<forall>y \<in> set (mem @ dsk). op_index y \<noteq> op_index x" by (metis image_eqI list.set_map less_irrefl)
  have s': "as_journal ?s = Some ?j" "as_operations ?s = mem @ dsk" "as_queue ?s = map op_index mem"
    "as_next_index ?s = as_next_index s" "as_max_size ?s = as_max_size s" "as_first_disk_index ?s = as_first_disk_index s"
    using p by (simp_all add: finish_op_def journal_remove_def)
  have all: "set (map fst j) = insert (op_index x) (set (map op_index (mem @ dsk)))" using p by simp
  have keys: "set (map fst ?j) = set (map op_index (mem @ dsk))" "distinct (map fst ?j)"
    using others p distinct_keys_delete [of j "op_index x"] unfolding AList.delete_keys set_removeAll all by auto
  have kept: "journal_entry ?j i q = journal_entry j i q" if "i \<noteq> op_index x" for i q
    using that by (simp add: journal_entry_def map_of_delete_neq)
  have "async_parts e ?s ?j mem dsk"
    unfolding async_parts_def using p s' keys others kept by (auto 0 3)
  moreover obtain q where q: "journal_entry j (op_index x) q" "same_op e q x" using p by auto
  moreover have "as_pending s = q # as_pending ?s"
    using p s' q(1) others by (auto simp: as_pending_def journal_entry_def map_of_delete_neq)
  ultimately show ?thesis by (auto simp: async_inv_def)
qed

lemma turn_start:
  assumes "async_inv e s"
  defines "s1 \<equiv> (if int (length (as_queue s)) \<le> as_max_size s div 2 \<and> as_first_disk_index s \<noteq> None
                then load_operations e s else s)"
  shows "\<exists>j mem dsk. async_parts e s1 j mem dsk \<and> as_pending s1 = as_pending s \<and> (as_pending s \<noteq> [] \<longrightarrow> mem \<noteq> [])"
proof -
  obtain j mem dsk where parts: "async_parts e s j mem dsk" using assms(1) by (auto simp: async_inv_def)
  note p = parts [unfolded async_parts_def]
  have pend: "as_pending s \<noteq> [] \<longleftrightarrow> mem @ dsk \<noteq> []" using p by (simp add: as_pending_def)
  show ?thesis
  proof (cases "int (length (as_queue s)) \<le> as_max_size s div 2 \<and> as_first_disk_index s \<noteq> None")
    case True
    then have "dsk \<noteq> []" "int (length (as_queue s)) < as_max_size s" using p by (auto split: list.splits)
    with load_operations_parts [OF parts] True show ?thesis unfolding s1_def by auto
  next
    case False
    have "dsk \<noteq> [] \<Longrightarrow> mem \<noteq> []" using False p by (auto split: list.splits)
    then show ?thesis using False parts pend unfolding s1_def by auto
  qed
qed

lemma process_turn_cases:
  assumes "async_inv e s"
  shows "(as_pending s = [] \<and> (\<exists>s'. process_turn e s w = TurnWaits s' \<and> async_inv e s' \<and> as_pending s' = [])) \<or>
    (\<exists>x s1 p rest. as_pending s = p # rest \<and> same_op e p x \<and>
      (process_operation e (as_journal s) x w = None \<and> process_turn e s w = TurnForever \<or>
       process_operation e (as_journal s) x w = Some (Inl ()) \<and> process_turn e s w = TurnCrashes \<or>
       (\<exists>w'. process_operation e (as_journal s) x w = Some (Inr w') \<and> process_turn e s w = TurnDone x s1 w')) \<and>
      async_inv e s1 \<and> as_pending s1 = rest)"
proof -
  define s1 where "s1 = (if int (length (as_queue s)) \<le> as_max_size s div 2 \<and> as_first_disk_index s \<noteq> None
                then load_operations e s else s)"
  from turn_start [OF assms] obtain j mem dsk where
    parts: "async_parts e s1 j mem dsk" "as_pending s1 = as_pending s" "as_pending s \<noteq> [] \<longrightarrow> mem \<noteq> []"
    unfolding s1_def by blast
  note p = parts(1) [unfolded async_parts_def]
  have j: "as_journal s = Some j"
  proof -
    have "as_journal s1 = as_journal s"
      by (simp add: s1_def load_operations_def split: option.splits prod.splits)
    then show ?thesis using p by simp
  qed
  show ?thesis
  proof (cases mem)
    case Nil
    then have "as_pending s = []" "mem @ dsk = []" using parts(2,3) p by (auto simp: as_pending_def)
    moreover have "process_turn e s w = TurnWaits (s1\<lparr>as_queue := []\<rparr>)"
      unfolding process_turn_def s1_def [symmetric] Let_def using p Nil by simp
    moreover have "s1\<lparr>as_queue := []\<rparr> = s1" using p Nil by simp
    ultimately show ?thesis using parts(1,2) by (auto simp: async_inv_def)
  next
    case (Cons x mem')
    note fin = finish_parts [OF parts(1) [unfolded Cons]]
    have "process_turn e s w = (case process_operation e (as_journal s) x w of
           None \<Rightarrow> TurnForever | Some (Inl _) \<Rightarrow> TurnCrashes
         | Some (Inr w') \<Rightarrow> TurnDone x (finish_op (op_index x) (s1\<lparr>as_queue := map op_index mem'\<rparr>)) w')"
      unfolding process_turn_def s1_def [symmetric] Let_def using p Cons j by (simp split: option.splits sum.splits)
    moreover have "(\<exists>z. process_operation e (as_journal s) x w = Some z \<and> (z = Inl () \<or> (\<exists>w'. z = Inr w'))) \<or>
        process_operation e (as_journal s) x w = None"
      by (metis (full_types) not_None_eq obj_sumE old.unit.exhaust)
    ultimately show ?thesis using fin parts(2) by (intro disjI2) (force split: option.splits)
  qed
qed

section \<open>Histories\<close>

text \<open>
  The states of the consensus and of the rest of the network, with the operations pushed
  and those processed so far. The node may stop at any time, also after an operation was
  carried out and before it is taken out of the journal.
\<close>

inductive async_run ::
  "('k, 's, 'r, 'w) async_env \<Rightarrow> ('k, 's, 'r) async \<Rightarrow> ('k, 's, 'r) op list \<Rightarrow> ('k, 's, 'r) op list
     \<Rightarrow> ('k, 's, 'r) async \<Rightarrow> 'w \<Rightarrow> bool"
  for e s0 where
  run_start: "async_run e s0 [] [] s0 w"
| run_push: "async_run e s0 ps ds s w \<Longrightarrow> push_op e o' s = Inr s' \<Longrightarrow>
    async_run e s0 (ps @ [o'\<lparr>op_index := as_next_index s'\<rparr>]) ds s' w"
| run_turn: "async_run e s0 ps ds s w \<Longrightarrow> process_turn e s w = TurnDone x s' w' \<Longrightarrow> async_run e s0 ps (ds @ [x]) s' w'"
| run_wait: "async_run e s0 ps ds s w \<Longrightarrow> process_turn e s w = TurnWaits s' \<Longrightarrow> async_run e s0 ps ds s' w"
| run_fetch: "async_run e s0 ps ds s w \<Longrightarrow> async_fetch e a lv s w = (r, w') \<Longrightarrow> async_run e s0 ps ds s w'"
| run_network: "async_run e s0 ps ds s w \<Longrightarrow> async_run e s0 ps ds s w'"
| run_restart: "async_run e s0 ps ds s w \<Longrightarrow> 0 \<le> mx \<Longrightarrow> async_run e s0 ps ds (async_start e (as_journal s) mx) w"
| run_crash: "async_run e s0 ps ds s w \<Longrightarrow> process_turn e s w = TurnDone x s' w' \<Longrightarrow> 0 \<le> mx \<Longrightarrow>
    async_run e s0 ps ds (async_start e (as_journal s) mx) w'"

lemma restart_pending:
  assumes "async_inv e s" and "0 \<le> mx"
  shows "async_inv e (async_start e (as_journal s) mx) \<and> as_pending (async_start e (as_journal s) mx) = as_pending s"
proof -
  obtain j mem dsk where parts: "async_parts e s j mem dsk" using assms(1) by (auto simp: async_inv_def)
  then have "as_journal s = Some j" by (simp add: async_parts_def)
  then show ?thesis using restart_parts [OF parts assms(2)] by simp
qed

lemma push_pending:
  assumes "never_squashes e" and "async_inv e s" and "push_op e o' s = Inr s'"
  shows "async_inv e s' \<and> as_pending s' = as_pending s @ [o'\<lparr>op_index := as_next_index s'\<rparr>]"
  using assms(2) enqueue_parts [OF _ push_enqueues [OF assms(1,3)]] unfolding async_inv_def by fastforce

lemma async_run_pending:
  assumes "async_run e s0 ps ds s w" and "never_squashes e" and "async_inv e s0"
  shows "async_inv e s \<and> (\<exists>qs. as_pending s0 @ ps = qs @ as_pending s \<and> list_all2 (same_op e) qs ds)"
  using assms(1)
proof (induction rule: async_run.induct)
  case run_start
  then show ?case using assms(3) by simp
next
  case (run_push ps ds s w o' s')
  then obtain qs where qs: "async_inv e s" "as_pending s0 @ ps = qs @ as_pending s" "list_all2 (same_op e) qs ds" by blast
  then have "as_pending s0 @ ps @ [o'\<lparr>op_index := as_next_index s'\<rparr>] = qs @ as_pending s'" "async_inv e s'"
    using push_pending [OF assms(2) qs(1) run_push.hyps(2)] by (simp_all flip: append_assoc)
  then show ?case using qs(3) by blast
next
  case (run_turn ps ds s w x s' w')
  then obtain qs where qs: "async_inv e s" "as_pending s0 @ ps = qs @ as_pending s" "list_all2 (same_op e) qs ds" by blast
  from process_turn_cases [OF qs(1), of w] run_turn.hyps(2) obtain p where
    "as_pending s = p # as_pending s'" "same_op e p x" "async_inv e s'"
    by auto
  then have "as_pending s0 @ ps = (qs @ [p]) @ as_pending s'" "list_all2 (same_op e) (qs @ [p]) (ds @ [x])"
    using qs by (simp_all add: list_all2_appendI)
  then show ?case using \<open>async_inv e s'\<close> by blast
next
  case (run_wait ps ds s w s')
  then obtain qs where qs: "async_inv e s" "as_pending s0 @ ps = qs @ as_pending s" "list_all2 (same_op e) qs ds" by blast
  from process_turn_cases [OF qs(1), of w] run_wait.hyps(2) have "as_pending s = []" "async_inv e s'" "as_pending s' = []"
    by auto
  then show ?case using qs by auto
next
  case (run_restart ps ds s w mx)
  then show ?case using restart_pending [of e s mx] by auto
next
  case (run_crash ps ds s w x s' w' mx)
  then show ?case using restart_pending [of e s mx] by auto
qed auto

lemma async_run_inv:
  assumes "async_run e s0 ps ds s w" and "never_squashes e" and "async_inv e s0" and "as_pending s0 = []"
  shows "async_inv e s \<and> (\<exists>qs. ps = qs @ as_pending s \<and> list_all2 (same_op e) qs ds)"
  using async_run_pending [OF assms(1-3)] assms(4) by simp

lemma async_start_empty: "0 \<le> mx \<Longrightarrow> async_inv e (async_start e (Some []) mx) \<and> as_pending (async_start e (Some []) mx) = []"
  by (auto simp: async_start_def async_inv_def async_parts_def as_pending_def size_unlimited_def)

text \<open>
  C6. No operation is lost or reordered: from an empty journal, whatever the stores, removals,
  turns of the loop, restarts and crashes, the operations pushed are those processed
  followed by those still in the journal, in their order, and the loop neither waits nor
  fails while some are left.
\<close>

theorem async_in_order:
  assumes "never_squashes e" and "0 \<le> mx" and "async_run e (async_start e (Some []) mx) ps ds s w"
  shows "(\<exists>qs. ps = qs @ as_pending s \<and> list_all2 (same_op e) qs ds) \<and>
    (as_pending s \<noteq> [] \<longrightarrow> process_turn e s w \<noteq> TurnAborts \<and> (\<forall>s'. process_turn e s w \<noteq> TurnWaits s'))"
proof -
  note start = async_start_empty [OF assms(2), of e]
  from async_run_inv [OF assms(3,1)] start have inv: "async_inv e s"
    "\<exists>qs. ps = qs @ as_pending s \<and> list_all2 (same_op e) qs ds" by auto
  have "process_turn e s w \<noteq> TurnAborts" "process_turn e s w = TurnWaits s' \<Longrightarrow> as_pending s = []" for s'
    using process_turn_cases [OF inv(1), of w] by auto
  then show ?thesis using inv(2) by blast
qed

section \<open>What a client sees\<close>

lemma filter_map_pending:
  assumes "\<forall>x \<in> set xs. \<exists>p. journal_entry j (op_index x) p \<and> op_address x = op_address p"
  shows "filter (\<lambda>p. op_address p = a) (map (\<lambda>x. file_op (the (map_of j (op_index x)))) xs) =
    map (\<lambda>x. file_op (the (map_of j (op_index x)))) (filter (\<lambda>x. op_address x = a) xs)"
  using assms by (induction xs) (auto simp: journal_entry_def)

lemma fetch_cache_pending:
  assumes "async_inv e s" and "filter (\<lambda>p. op_address p = a) (as_pending s) = qs @ [p]"
  shows "\<exists>b. fetch_cache e a None s = Some (case b of None \<Rightarrow> Inl (FetchMissing a) | Some c \<Rightarrow> Inr (Some c)) \<and>
    b \<in> {op_block p, map_option (ae_reload e) (op_block p)}"
proof -
  obtain j mem dsk where parts: "async_parts e s j mem dsk" using assms(1) by (auto simp: async_inv_def)
  note ps = parts [unfolded async_parts_def]
  have ent: "\<forall>x \<in> set (mem @ dsk). \<exists>p. journal_entry j (op_index x) p \<and> op_address x = op_address p"
    using ps by (auto simp: same_op_def)
  let ?f = "filter (\<lambda>x. op_address x = a) (mem @ dsk)"
  have "map (\<lambda>x. file_op (the (map_of j (op_index x)))) ?f = qs @ [p]"
    using assms(2) ps filter_map_pending [OF ent, of a] by (simp add: as_pending_def)
  then obtain xs x where f: "?f = xs @ [x]" "file_op (the (map_of j (op_index x))) = p"
    unfolding map_eq_append_conv by auto
  then have x: "x \<in> set (mem @ dsk)" by (metis filter_is_subset in_set_conv_decomp subsetD)
  have nb: "fetch_cache e a None s = Some (case op_block x of
       Some b \<Rightarrow> Inr (Some b)
     | None \<Rightarrow> (case load_op e (Some j) (op_index x) of
         None \<Rightarrow> Inl FetchUnreadable
       | Some l \<Rightarrow> (case op_block l of Some b \<Rightarrow> Inr (Some b) | None \<Rightarrow> Inl (FetchMissing a))))"
  proof -
    obtain y ys where yx: "xs @ [x] = y # ys" by (cases xs) auto
    then have "last (y # ys) = x" by (metis last_snoc)
    then show ?thesis using ps f(1) unfolding fetch_cache_def by (simp only: yx) (simp split: option.splits)
  qed
  from x ent f(2) have entry: "journal_entry j (op_index x) p" by (fastforce simp: journal_entry_def)
  then obtain l where l: "load_op e (Some j) (op_index x) = Some l" "op_block l = map_option (ae_reload e) (op_block p)"
    by (auto simp: load_op_def journal_entry_def)
  have "op_block x = None \<or> op_block x \<in> {op_block p, map_option (ae_reload e) (op_block p)}"
  proof (cases "x \<in> set mem")
    case True
    then obtain q where "journal_entry j (op_index x) q" "same_op e q x" using ps by blast
    then show ?thesis using entry by (auto simp: same_op_def journal_entry_def)
  next
    case False
    then show ?thesis using x ps by auto
  qed
  then show ?thesis using nb l
    by (intro exI [of _ "case op_block x of None \<Rightarrow> op_block l | Some b \<Rightarrow> Some b"], cases "op_block p") (auto split: option.splits)
qed

text \<open>
  C19. A client reads its own writes: with a journal, and operations that are never squashed,
  while an operation on an address is pending, in memory, on disk or read again after a
  restart, a fetch that gives no local version returns the block of the last of them, or
  reports it missing if it is a removal, without asking the consensus below.
\<close>

theorem async_reads_own_writes:
  assumes "never_squashes e" and "0 \<le> mx" and "async_run e (async_start e (Some []) mx) ps ds s w"
    and "filter (\<lambda>p. op_address p = a) (as_pending s) = qs @ [p]"
  shows "\<exists>b. async_fetch e a None s w = (case b of None \<Rightarrow> Inl (FetchMissing a) | Some c \<Rightarrow> Inr (Some c), w) \<and>
    b \<in> {op_block p, map_option (ae_reload e) (op_block p)}"
proof -
  have "async_inv e s" using async_run_inv [OF assms(3,1)] async_start_empty [OF assms(2), of e] by blast
  from fetch_cache_pending [OF this assms(4)] obtain b where
    "fetch_cache e a None s = Some (case b of None \<Rightarrow> Inl (FetchMissing a) | Some c \<Rightarrow> Inr (Some c))"
    "b \<in> {op_block p, map_option (ae_reload e) (op_block p)}" by blast
  then show ?thesis by (intro exI [of _ b]) (simp add: async_fetch_def)
qed

section \<open>Defects\<close>

lemma enqueue_index:
  assumes "enqueue_op o' s = Inr s'"
  shows "as_next_index s' = as_next_index s + 1" "as_last_processed_index s' = as_last_processed_index s"
  using assms by (auto simp: enqueue_op_def Let_def journal_write_def split: option.splits if_splits)

lemma turn_processed:
  assumes "process_turn e s w = TurnDone x s' w'" and "as_journal s \<noteq> None"
  shows "as_last_processed_index s' = op_index x"
proof -
  have "as_journal (load_operations e s) \<noteq> None"
    using assms(2) by (auto simp: load_operations_def split: option.splits prod.splits)
  then show ?thesis using assms
    by (auto simp: process_turn_def Let_def finish_op_def journal_remove_def split: prod.splits option.splits sum.splits if_splits)
qed

text \<open>
  C21. \<^verbatim>\<open>sync\<close> is documented to wait until the last operation pushed is processed. With a
  journal it waits for the one before: called after the pushes of two operations, at any point
  of a history, it may return as soon as the first of them is processed, while the second is
  still in the journal, at the head of what is left.
\<close>

theorem sync_misses_last:
  assumes "never_squashes e" and "0 \<le> mx" and "async_run e (async_start e (Some []) mx) ps ds s w0"
    and "push_op e o1 s = Inr s1" and "push_op e o2 s1 = Inr s2"
    and "async_run e s2 ps' ds' t w"
    and "as_pending t = o1\<lparr>op_index := as_next_index s1\<rparr> # o2\<lparr>op_index := as_next_index s2\<rparr> # rest"
    and "process_turn e t w = TurnDone x s3 w'"
  shows "sync_done (sync_wait_id s2) s3 \<and> as_pending s3 = o2\<lparr>op_index := as_next_index s2\<rparr> # rest"
proof -
  have "async_inv e s" using async_run_inv [OF assms(3,1)] async_start_empty [OF assms(2), of e] by blast
  then have "async_inv e s2" using push_pending [OF assms(1) _ assms(4)] push_pending [OF assms(1) _ assms(5)] by blast
  then have inv: "async_inv e t" using async_run_pending [OF assms(6,1)] by blast
  from process_turn_cases [OF inv, of w] assms(7,8)
  have x: "same_op e (o1\<lparr>op_index := as_next_index s1\<rparr>) x" "as_pending s3 = o2\<lparr>op_index := as_next_index s2\<rparr> # rest" by auto
  have "as_journal t \<noteq> None" using inv by (auto simp: async_inv_def async_parts_def)
  from turn_processed [OF assms(8) this] x(1) have "as_last_processed_index s3 = as_next_index s1" by (simp add: same_op_def)
  then show ?thesis using x(2) enqueue_index(1) [OF push_enqueues [OF assms(1,5)]] by (simp add: sync_done_def sync_wait_id_def)
qed

text \<open>
  Without a journal the index of the last operation processed does not move, and a \<^verbatim>\<open>sync\<close>
  that waits does not return.
\<close>

lemma sync_without_journal:
  assumes "process_turn e s w = TurnDone x s' w'" and "as_journal s = None"
  shows "as_last_processed_index s' = as_last_processed_index s"
proof -
  have "load_operations e s = s" using assms(2) by (simp add: load_operations_def)
  then show ?thesis using assms
    by (auto simp: process_turn_def Let_def finish_op_def split: prod.splits option.splits sum.splits if_splits)
qed

text \<open>
  Without a journal an operation that fails is given up: there is nothing to read it again
  from, and the loop goes on to the next operation.
\<close>

theorem unjournaled_failure_drops:
  assumes "as_journal s = None" and "as_first_disk_index s = None" and "as_operations s = x # xs"
    and "as_queue s = op_index x # q" and "attempt e x w = (Inl (BackendFailure m), w')"
  shows "\<exists>s'. process_turn e s w = TurnDone x s' w' \<and> as_operations s' = xs"
proof -
  have "process_operation e None x w = Some (Inr w')"
    using assms(5) by (subst process_operation.simps) (simp add: load_op_def)
  then show ?thesis using assms(1-4) by (simp add: process_turn_def finish_op_def)
qed

lemma index_le_last:
  assumes "sorted_wrt (<) (map op_index ops)" and "x \<in> set ops"
  shows "op_index x \<le> op_index (last ops)"
proof -
  obtain ys zs where "ops = ys @ x # zs" using assms(2) by (auto dest: split_list)
  then show ?thesis using assms(1) by (cases zs rule: rev_cases) (auto simp: sorted_wrt_append)
qed

text \<open>Operations that no index leads to any more: none is in the queue or found on disk.\<close>

definition stranded :: "('k, 's, 'r) async \<Rightarrow> bool" where
  "stranded s \<longleftrightarrow> as_journal s \<noteq> None \<and> as_queue s = [] \<and> as_operations s \<noteq> [] \<and> 1 \<le> as_max_size s \<and>
     (\<forall>x \<in> set (as_operations s). op_index x \<le> as_next_index s) \<and>
     (\<forall>d. as_first_disk_index s = Some d \<longrightarrow> d \<notin> op_index ` set (as_operations s))"

lemma load_nothing:
  assumes "as_journal s \<noteq> None" and "\<forall>d. as_first_disk_index s = Some d \<longrightarrow> d \<notin> op_index ` set (as_operations s)"
  shows "load_operations e s = s\<lparr>as_first_disk_index := None\<rparr>"
proof (cases "as_first_disk_index s")
  case (Some d)
  then have dw: "dropWhile (\<lambda>y. op_index y \<noteq> d) (as_operations s) = []" "takeWhile (\<lambda>y. op_index y \<noteq> d) (as_operations s) = as_operations s"
    using assms(2) by (force simp: dropWhile_eq_Nil_conv takeWhile_eq_all_conv)+
  obtain j where "as_journal s = Some j" using assms(1) by blast
  then show ?thesis using Some by (simp add: load_operations_def dw)
next
  case None
  then show ?thesis by (simp add: load_operations_def split: option.splits)
qed

lemma stranded_turn:
  assumes "stranded s"
  shows "\<exists>s1. process_turn e s w = TurnWaits s1 \<and> as_operations s1 = as_operations s \<and>
    (\<forall>o'. \<exists>s2. enqueue_op o' s1 = Inr s2 \<and> process_turn e s2 w = TurnAborts)"
proof -
  let ?s1 = "s\<lparr>as_first_disk_index := None\<rparr>" and ?i = "as_next_index s + 1"
  note st = assms [unfolded stranded_def]
  have "process_turn e s w = TurnWaits ?s1"
    using st load_nothing [of s e] by (cases "as_first_disk_index s") (simp_all add: process_turn_def)
  moreover have "\<exists>s2. enqueue_op o' ?s1 = Inr s2 \<and> process_turn e s2 w = TurnAborts" for o'
  proof -
    have less: "\<forall>y \<in> set (as_operations s). op_index y < ?i" using st by auto
    let ?s2 = "(journal_write (o'\<lparr>op_index := ?i\<rparr>) (?s1\<lparr>as_next_index := ?i\<rparr>))
      \<lparr>as_queue := [?i], as_operations := as_operations s @ [op_moved (o'\<lparr>op_index := ?i\<rparr>)]\<rparr>"
    have "enqueue_op o' ?s1 = Inr ?s2"
      using st emplace_greatest [of "as_operations s" "o'\<lparr>op_index := ?i\<rparr>"] less
      by (simp add: enqueue_op_def Let_def journal_write_def)
    moreover have "op_index (hd (as_operations s)) < ?i" using less st by (meson hd_in_set)
    then have "op_index (hd (as_operations s)) \<noteq> ?i" "\<not> ?i < op_index (hd (as_operations s))" by simp_all
    then have "process_turn e ?s2 w = TurnAborts"
      using st by (simp add: process_turn_def Let_def journal_write_def del: not_less)
    ultimately show ?thesis by blast
  qed
  ultimately show ?thesis by auto
qed

lemma turn_strands:
  assumes "process_turn e s w = TurnDone h s1 w1" and "as_journal s \<noteq> None" and "as_queue s = [op_index h]" and "1 \<le> as_max_size s"
    and "\<forall>d. as_first_disk_index s = Some d \<longrightarrow> d \<notin> op_index ` set (as_operations s)"
    and "\<forall>x \<in> set (as_operations s). op_index x \<le> as_next_index s" and "as_operations s = h # ops" and "ops \<noteq> []"
  shows "stranded s1 \<and> as_operations s1 = ops"
proof -
  let ?c = "int (length (as_queue s)) \<le> as_max_size s div 2 \<and> as_first_disk_index s \<noteq> None"
  define t where "t = (if ?c then load_operations e s else s)"
  have t: "as_operations t = h # ops" "as_queue t = [op_index h]" "as_journal t = as_journal s" "as_max_size t = as_max_size s"
    "as_next_index t = as_next_index s" "as_first_disk_index t \<in> {None, as_first_disk_index s}"
    using assms(3,7) load_nothing [OF assms(2,5), of e] by (auto simp: t_def)
  have "process_turn e s w = (case process_operation e (as_journal t) h w of
           None \<Rightarrow> TurnForever | Some (Inl _) \<Rightarrow> TurnCrashes
         | Some (Inr w') \<Rightarrow> TurnDone h (finish_op (op_index h) (t\<lparr>as_queue := []\<rparr>)) w')"
    unfolding process_turn_def t_def [symmetric] Let_def using t by (simp split: option.splits sum.splits)
  then have "s1 = finish_op (op_index h) (t\<lparr>as_queue := []\<rparr>)" using assms(1) by (auto split: option.splits sum.splits)
  then show ?thesis using t assms(2,4-8) by (auto simp: stranded_def finish_op_def journal_remove_def)
qed

text \<open>
  C20. When the first operation on disk is squashed away, the index of the first one on disk is
  increased by one. If the operation of that index was squashed before, the later ones are
  not found again: once the one in memory is processed, the loop waits although operations
  are left, and the next one pushed makes it fail its assertion.
\<close>

theorem squash_strands_operations:
  assumes "as_journal s \<noteq> None" and "as_operations s = h # ops" and "as_queue s = [op_index h]" and "1 \<le> as_max_size s"
    and "sorted_wrt (<) (map op_index (h # ops))" and "op_index (last (h # ops)) \<le> as_next_index s"
    and "as_first_disk_index s = Some (op_index c)" and "squash_candidate e o' s = Some (Some (LastStop, n, c))" and "c \<in> set ops"
    and "op_index c + 1 \<notin> op_index ` set ops" and "x \<in> set ops" and "op_index c + 1 < op_index x"
    and "push_op e o' s = Inr s'" and "process_turn e s' w = TurnDone h s1 w1"
  shows "x \<in> set (as_operations s1) \<and> (\<exists>s2. process_turn e s1 w1 = TurnWaits s2 \<and> as_operations s2 = as_operations s1 \<and>
    (\<forall>o2. \<exists>s3. enqueue_op o2 s2 = Inr s3 \<and> process_turn e s3 w1 = TurnAborts))"
proof -
  let ?er = "erase_op (op_index c) s" and ?i = "as_next_index s + 1"
  let ?ops = "filter (\<lambda>x. op_index x \<noteq> op_index c) ops"
  have le: "\<forall>y \<in> set (h # ops). op_index y \<le> as_next_index s" using index_le_last [OF assms(5)] assms(6) by force
  have "op_index h \<noteq> op_index c" using assms(5,9) by auto
  moreover have "op_index x \<le> op_index (last (h # ops))" using index_le_last [OF assms(5)] assms(11) by simp
  ultimately have er: "as_operations ?er = h # ?ops" "as_first_disk_index ?er = Some (op_index c + 1)" "as_journal ?er \<noteq> None"
    "as_queue ?er = [op_index h]" "as_max_size ?er = as_max_size s" "as_next_index ?er = as_next_index s"
    using assms(1-3,7,12) by (auto simp: erase_op_def Let_def journal_remove_def)
  obtain o1 where o1: "enqueue_op o1 ?er = Inr s'" using assms(8,13) by (auto simp: push_op_def Let_def bind_res_eq_Inr)
  have less: "\<forall>y \<in> set (h # ?ops). op_index y < ?i" using le by fastforce
  let ?y = "op_moved (o1\<lparr>op_index := ?i, op_block := None\<rparr>)"
  have s': "as_operations s' = h # (?ops @ [?y])" "as_first_disk_index s' = Some (op_index c + 1)" "as_journal s' \<noteq> None"
    "as_queue s' = [op_index h]" "as_max_size s' = as_max_size s" "as_next_index s' = ?i"
    using o1 er emplace_greatest [of "h # ?ops" "o1\<lparr>op_index := ?i, op_block := None\<rparr>"] less
    by (auto simp: enqueue_op_def Let_def journal_write_def)
  have gone: "op_index c + 1 \<notin> op_index ` set (as_operations s')"
    using assms(5,9,10,11,12) le less unfolding s'(1) by fastforce
  have "\<forall>z \<in> set (as_operations s'). op_index z \<le> as_next_index s'" using less unfolding s'(1,6) by fastforce
  from turn_strands [OF assms(14) s'(3,4) _ _ this s'(1)] s'(2,5) gone assms(4)
  have "stranded s1" "as_operations s1 = ?ops @ [?y]" by auto
  then show ?thesis using stranded_turn [of s1 e w1] assms(11,12) by auto
qed

section \<open>Examples\<close>

text \<open>A consensus below that accepts everything, and one that fails.\<close>

definition toy_async :: "(byte, byte, unit, unit) async_env" where
  "toy_async = \<lparr>ae_squash = True, ae_max_squash = 20, ae_squashable = (\<lambda>_ _. (SquashStop, 0)), ae_seal = (\<lambda>_ b. b),
     ae_reload = (\<lambda>b. b), ae_store = (\<lambda>_ _ _ w. (Inr (), w)), ae_remove = (\<lambda>_ _ w. (Inr (), w)),
     ae_fetch = (\<lambda>_ _ w. (Inl BackendMissing, w))\<rparr>"

definition toy_failing :: "(byte, byte, unit, unit) async_env" where
  "toy_failing = toy_async\<lparr>ae_store := (\<lambda>_ _ _ w. (Inl (BackendFailure ''no peer''), w))\<rparr>"

definition toy_op :: "(byte, byte, unit) op" where
  "toy_op = op_new [9] (Some (PlainBlock (block_new addr_null [1] addr_null))) (Some STORE_UPDATE) None rs_empty"

abbreviation toy_async_start :: "(byte, byte, unit) async" where
  "toy_async_start \<equiv> async_start toy_async (Some []) 1"

definition toy_one :: "(byte, byte, unit) async" where
  "toy_one = projr (push_op toy_async toy_op toy_async_start)"

definition toy_two :: "(byte, byte, unit) async" where
  "toy_two = projr (push_op toy_async toy_op toy_one)"

lemma toy_never: "never_squashes toy_async"
  by (simp add: never_squashes_def toy_async_def)

lemma toy_push_one: "push_op toy_async toy_op toy_async_start = Inr toy_one"
  by (simp add: toy_one_def push_op_def squash_candidate_def toy_op_def op_new_def op_moved_def enqueue_op_def Let_def
      async_start_def journal_write_def)

lemma toy_push_two: "push_op toy_async toy_op toy_one = Inr toy_two"
proof -
  have "as_journal toy_one \<noteq> None"
    using push_pending [OF toy_never _ toy_push_one] async_start_empty [of 1 toy_async]
    by (auto simp: async_inv_def async_parts_def)
  then have "\<exists>s'. enqueue_op toy_op toy_one = Inr s'"
    by (auto simp: enqueue_op_def Let_def journal_write_def split: option.splits)
  then show ?thesis
    by (auto simp: toy_two_def push_op_def squash_candidate_def toy_op_def op_new_def op_moved_def Let_def)
qed

lemma toy_run_two: "async_run toy_async toy_async_start
    [toy_op\<lparr>op_index := as_next_index toy_one\<rparr>, toy_op\<lparr>op_index := as_next_index toy_two\<rparr>] [] toy_two ()"
  using run_push [OF run_push [OF run_start toy_push_one] toy_push_two] by simp

lemma toy_two_pending:
  "async_inv toy_async toy_two"
  "as_pending toy_two = [toy_op\<lparr>op_index := as_next_index toy_one\<rparr>, toy_op\<lparr>op_index := as_next_index toy_two\<rparr>]"
  using async_run_inv [OF toy_run_two toy_never] async_start_empty [of 1 toy_async] by auto

lemma toy_turn: "\<exists>x s w. process_turn toy_async toy_two () = TurnDone x s w"
proof -
  have "process_operation toy_async j x () = Some (Inr ())" for j x
    by (subst process_operation.simps) (simp add: attempt_def toy_async_def split: option.splits)
  then show ?thesis using process_turn_cases [OF toy_two_pending(1), of "()"] toy_two_pending(2) by auto
qed

theorem async_in_order_witness:
  "(\<exists>qs. [toy_op\<lparr>op_index := as_next_index toy_one\<rparr>, toy_op\<lparr>op_index := as_next_index toy_two\<rparr>] = qs @ as_pending toy_two \<and>
      list_all2 (same_op toy_async) qs []) \<and>
   as_pending toy_two \<noteq> [] \<and> process_turn toy_async toy_two () \<noteq> TurnAborts"
  using async_in_order [OF toy_never _ toy_run_two] toy_two_pending(2) by simp

theorem async_reads_own_writes_witness:
  "async_fetch toy_async [9] None toy_two () = (Inr (Some (PlainBlock (block_new addr_null [1] addr_null))), ())"
proof -
  have f: "filter (\<lambda>p. op_address p = [9]) (as_pending toy_two) =
      [toy_op\<lparr>op_index := as_next_index toy_one\<rparr>] @ [toy_op\<lparr>op_index := as_next_index toy_two\<rparr>]"
    by (simp add: toy_two_pending(2)) (simp add: toy_op_def op_new_def op_moved_def Let_def)
  have "op_block toy_op = Some (PlainBlock (block_new addr_null [1] addr_null))"
    by (simp add: toy_op_def op_new_def op_moved_def Let_def)
  with async_reads_own_writes [OF toy_never _ toy_run_two f] show ?thesis by (auto simp: toy_async_def)
qed

theorem sync_misses_last_witness:
  "\<exists>s3. sync_done (sync_wait_id toy_two) s3 \<and> as_pending s3 = [toy_op\<lparr>op_index := as_next_index toy_two\<rparr>]"
proof -
  obtain x s3 w' where "process_turn toy_async toy_two () = TurnDone x s3 w'" using toy_turn by blast
  from sync_misses_last [OF toy_never _ run_start toy_push_one toy_push_two run_start _ this, of "[]"] toy_two_pending(2)
  show ?thesis by auto
qed

theorem unjournaled_failure_drops_witness:
  "\<exists>s'. process_turn toy_failing
     (projr (push_op toy_failing toy_op (async_start toy_failing None 0))) () =
     TurnDone (toy_op\<lparr>op_index := 2, op_version := None\<rparr>) s' () \<and> as_operations s' = []"
proof (rule unjournaled_failure_drops)
  show "attempt toy_failing (toy_op\<lparr>op_index := 2, op_version := None\<rparr>) () = (Inl (BackendFailure ''no peer''), ())"
    by (simp add: attempt_def toy_failing_def toy_async_def toy_op_def op_new_def op_moved_def Let_def)
qed (code_simp+)

definition toy_squash :: "(byte, byte, unit, unit) async_env" where
  "toy_squash = toy_async\<lparr>ae_squashable := (\<lambda>_ _. (LastStop, 0))\<rparr>"

definition toy_edit :: "int \<Rightarrow> (byte, byte, unit) op" where
  "toy_edit i = toy_op\<lparr>op_resolver := Some (Resolver ()), op_index := i\<rparr>"

text \<open>Operation 3 is in memory, 4 and 6, on another address, are on disk; 5 was squashed.\<close>

definition toy_gap :: "(byte, byte, unit) async" where
  "toy_gap = \<lparr>as_operations = [toy_edit 3, toy_edit 4, (toy_edit 6)\<lparr>op_address := [8]\<rparr>], as_queue = [3], as_next_index = 6,
     as_last_processed_index = 2, as_journal = Some [(3, OpFile (toy_edit 3)), (4, OpFile (toy_edit 4)), (6, OpFile ((toy_edit 6)\<lparr>op_address := [8]\<rparr>))],
     as_first_disk_index = Some 4, as_max_size = 1\<rparr>"

lemma toy_gap_push: "\<exists>s'. push_op toy_squash (toy_edit (- 1)) toy_gap = Inr s'"
  and toy_gap_candidate: "squash_candidate toy_squash (toy_edit (- 1)) toy_gap = Some (Some (LastStop, 0, toy_edit 4))"
proof -
  have a: "op_address toy_op = [9]" "op_block toy_op = Some (PlainBlock (block_new addr_null [1] addr_null))"
    "op_signature toy_op = rs_empty" by (simp_all add: toy_op_def op_new_def op_moved_def Let_def)
  show "squash_candidate toy_squash (toy_edit (- 1)) toy_gap = Some (Some (LastStop, 0, toy_edit 4))"
    by (simp add: squash_candidate_def toy_edit_def toy_gap_def toy_squash_def toy_async_def resolver_squashable_def a)
  then show "\<exists>s'. push_op toy_squash (toy_edit (- 1)) toy_gap = Inr s'"
    by (simp add: push_op_def Let_def toy_edit_def op_seal_def is_acb_def a enqueue_op_def erase_op_def journal_write_def
        journal_remove_def toy_gap_def rs_empty_def)
qed

theorem squash_strands_operations_witness:
  "\<exists>s1 s2. (toy_edit 6)\<lparr>op_address := [8]\<rparr> \<in> set (as_operations s1) \<and> process_turn toy_squash s1 () = TurnWaits s2 \<and>
     as_operations s2 = as_operations s1"
proof -
  let ?h = "toy_edit 3" and ?ops = "[toy_edit 4, (toy_edit 6)\<lparr>op_address := [8]\<rparr>]"
  obtain s' where push: "push_op toy_squash (toy_edit (- 1)) toy_gap = Inr s'" using toy_gap_push by blast
  have idx: "op_index (toy_edit i) = i" for i by (simp add: toy_edit_def)
  have st: "as_operations toy_gap = ?h # ?ops" "as_queue toy_gap = [op_index ?h]" "as_journal toy_gap \<noteq> None"
    "as_first_disk_index toy_gap = Some (op_index (toy_edit 4))" "1 \<le> as_max_size toy_gap" "as_next_index toy_gap = 6"
    by (simp_all add: toy_gap_def idx)
  have "process_operation toy_squash j x () = Some (Inr ())" for j x
    by (subst process_operation.simps) (simp add: attempt_def toy_squash_def toy_async_def split: option.splits)
  moreover have "as_queue s' = [3]" "hd (as_operations s') = ?h" "as_max_size s' = 1" "as_operations s' \<noteq> []"
    using push toy_gap_candidate
    by (auto simp: push_op_def Let_def bind_res_eq_Inr enqueue_op_def erase_op_def journal_write_def journal_remove_def toy_gap_def idx emplace_def
        split: option.splits)
  ultimately obtain s1 where turn: "process_turn toy_squash s' () = TurnDone ?h s1 ()"
    by (cases "as_operations s'") (auto simp: process_turn_def Let_def idx)
  have "(toy_edit 6)\<lparr>op_address := [8]\<rparr> \<in> set (as_operations s1) \<and> (\<exists>s2. process_turn toy_squash s1 () = TurnWaits s2 \<and>
      as_operations s2 = as_operations s1 \<and> (\<forall>o2. \<exists>s3. enqueue_op o2 s2 = Inr s3 \<and> process_turn toy_squash s3 () = TurnAborts))"
    by (rule squash_strands_operations [OF st(3,1,2,5) _ _ st(4) toy_gap_candidate _ _ _ _ push turn]) (simp_all add: idx st(6))
  then show ?thesis by blast
qed

text \<open>
  A file whose address only can be read, after a restart with more operations than fit in
  memory: it cannot be read again when its turn comes, it stays in front of the operations,
  and the loop fails its assertion at the next one.
\<close>

definition toy_torn :: "(byte, byte, unit) async" where
  "toy_torn = async_start toy_async
     (Some [(3, OpFile (toy_edit 3)), (4, TornFile (Some [9])), (5, OpFile (toy_edit 5))]) 1"

definition turn_state :: "('k, 's, 'r, 'w) turn \<Rightarrow> ('k, 's, 'r) async option" where
  "turn_state t = (case t of TurnDone _ s _ \<Rightarrow> Some s | TurnWaits s \<Rightarrow> Some s | _ \<Rightarrow> None)"

lemma torn_file_aborts:
  "map_option (\<lambda>s. process_turn toy_async s () = TurnAborts) (turn_state (process_turn toy_async toy_torn ())) = Some True"
proof -
  have ops: "process_operation toy_async j x () = Some (Inr ())" for j x
    by (subst process_operation.simps) (simp add: attempt_def toy_async_def split: option.splits)
  show ?thesis
    by (simp add: turn_state_def process_turn_def ops toy_torn_def async_start_def Let_def load_op_def load_op_address_def
        file_address_def emplace_def finish_op_def journal_remove_def load_operations_def op_moved_def toy_edit_def
        toy_op_def op_new_def insort_key_def)
qed

end
