(* ===== verification/Spec2Isabelle.thy ===== *)
theory Spec2Isabelle
  imports Elle_Version Memo_Address Paxos_Server Paxos_Client Paxos_Cluster Paxos_Agreement Memo_Local Memo_Durable Memo_Async
begin

text \<open>
  A verification library for memo, a decentralised block store. The nodes of a network keep
  blocks of data under addresses. A client seals a block (signs it and, for some classes,
  enciphers its data), the consensus finds the nodes that own the address and has them
  agree on the block, and each node validates what it is sent and writes it to its silo.
  Everything that is stored or sent goes through the binary serialization of the library
  elle, which is also where the Paxos algorithm lives. Paths below are those of the
  repository, under src/.

  \<^bold>\<open>Parts of the program and the theories that model them\<close>

  \<^item> Memo_Prelude: bytes, C++ integers, results that may be exceptions, association lists.
  \<^item> Elle_Version (elle/src/elle/Version.cc): versions, their order, text and parsing.
  \<^item> Elle_Binary (elle/src/elle/serialization/binary/SerializerOut.cc, SerializerIn.cc):
    numbers of variable length, integers by width, buffers, strings, options, arrays.
  \<^item> Memo_Address (src/memo/model/Address.cc, elle/src/elle/format/hexadecimal.cc): the 32
    bytes of an address, its flags, comparison, text and wire forms.
  \<^item> Paxos_Server (elle/src/elle/athena/paxos/Server.hxx): the acceptor, one definition per
    method, with changes of quorum and partial servers. Paxos_Client (Client.hxx): the
    proposer over abstract peers. Paxos_Cluster: the client against a map of servers.
    Paxos_Agreement: any interleaving of the messages of several clients and servers.
  \<^item> Memo_Silo (src/memo/silo): the base class with its accounting and the silos Memory,
    Filesystem, Strip, Mirror, Crypt and Latency, nested in any way.
  \<^item> Memo_Block, Memo_OKB, Memo_ACB, Memo_Group, Memo_Immutable, Memo_Passport
    (src/memo/model/blocks, src/memo/model/doughnut): the classes of blocks as records that
    extend one another, their sealing, validation, access rights and removal, groups, and
    the passports that admit users. Memo_Access holds what access-controlled blocks promise.
  \<^item> Memo_Wire: the binary form of every class of block.
  \<^item> Memo_Local (src/memo/model/doughnut/Local.cc): the storage of a node and its calls, with
    the authentication of the caller.
  \<^item> Memo_Decision, Memo_Replica, Memo_Durable (src/memo/model/doughnut/consensus/Paxos.cc):
    what a node of the Paxos consensus writes, the operations of \<^verbatim>\<open>Paxos::LocalPeer\<close>, and
    what they keep through requests and restarts.
  \<^item> Memo_Async (src/memo/model/doughnut/Async.cc, src/memo/model/Model.cc): the consensus that
    answers at once and replays the operations later from a journal.

  A method is a function of the state it changes, as a record, to its result and the state
  it leaves; an exception is \<open>Inl\<close>, and failed assertions, null pointers and aborts are
  values of their own. Cryptography, the encoding of keys by OpenSSL, the order in which an
  unordered container is traversed, the overlay and the other nodes are parameters; the
  properties that rely on them name what they rely on (\<open>wire_laws\<close>, \<open>cipher_ok\<close>,
  \<open>env_ok\<close> and the like) and have a witness on concrete functions.

  \<^bold>\<open>Interfaces\<close>

  \<^item> \<open>codec\<close> (Elle_Binary): a writer and a reader that fit, with the values they are for. It is
    interpreted for numbers, integers, booleans, buffers, strings, versions, addresses and
    node identifiers; the forms of blocks and acceptors are read back through its lemmas.
  \<^item> \<open>acceptor\<close> (Paxos_Server): steps that raise a promise and vote only at or above it, from
    which runs keep promises. It is interpreted on the Paxos server, and the replica and
    the agreement of several servers rest on that.
  \<^item> \<open>block_store\<close> (Memo_Silo): get, set and erase that act as on a map. It is interpreted on
    the silos, and the node and the replica see their silo through it only.
  \<^item> \<open>acb_class\<close> (Memo_Access): what a class of access-controlled blocks signs. It is
    interpreted for plain blocks and for group blocks.

  \<^bold>\<open>What the lemmas show\<close>

  \<^item> Agreement: servers never confirm different values for a version if clients propose the
    value accepted at the highest proposal; a run shows that the answers of the server do
    not let them know it. A client facing a majority ends within two rounds.
  \<^item> A replica refines one acceptor per block: every request, failed or not, and every
    reconciliation, with the cache of acceptors, its evictions, the silo and restarts,
    amounts to steps of the acceptor that is stored or to its removal, so no promise or vote is
    lost unless the acceptor is removed.
  \<^item> Silos refine a map; a node gives back what it stored, keeps only blocks that validate
    and lets only authenticated callers write.
  \<^item> Blocks: what is sealed validates and is read by those who may read it; what validates
    was written by those who may write; removals are authorised; rotating the key of a
    group shuts out a removed member who is not one of its administrators.
  \<^item> The asynchronous consensus, with a journal and without squashing, loses and reorders
    nothing, also across crashes, and a client reads its own writes. Journal files that cannot be
    read are part of the model (\<open>TornFile\<close>); the histories of these theorems have none.
  \<^item> Round trips of every binary form, and the ranges of what is read.
  \<^item> Defects of the code, each as a theorem: see the names \<open>split_brain\<close>,
    \<open>plain_block_overwrites\<close>, \<open>obsolete_confirm_evicts\<close>, \<open>propagate_unvalidated\<close>,
    \<open>squash_strands_operations\<close>, \<open>sync_misses_last\<close>, \<open>chb_malleable\<close>, \<open>verify_diverges\<close>,
    \<open>world_permissions_erase_data\<close> and \<open>unsealed_unreadable\<close>.

  \<^bold>\<open>Bounds and fuel\<close>

  \<^item> \<open>choose\<close> of the client is a loop with fuel, a number of rounds; it is shown to return within
    two on a majority, and within one when too few servers are reachable.
  \<^item> Opening nested groups (\<open>acb_decrypt_data\<close>) takes fuel: more than the number of groups that
    are not being opened is enough, which is a theorem. \<open>doughnut_verify\<close> takes the length
    of the chain of certifiers; that no fuel is enough for some passports is a theorem.
  \<^item> \<open>process_operation\<close> of the asynchronous loop is a partial function with values in an
    option: \<open>None\<close> is a retry without end.
  \<^item> Versions, rounds and indexes that only count upwards are integers; what is written has
    the range of its C++ type as a hypothesis, and the reader checks it. The client sets its
    round from the answers of the peers; the retry theorem says up to where this agrees with the
    \<^verbatim>\<open>int\<close> of the code (\<open>int_max\<close>).
  \<^item> The properties of the node and of the replica take a silo without a capacity
    (\<open>silo_good\<close>), so that a write succeeds: in the replica a write that fails leaves a changed
    acceptor in the cache. They take blocks that can be read back (\<open>block_acceptable\<close>,
    \<open>request_fit\<close>): a mutable block with empty data, one that was not
    sealed, is stored but cannot be read.
  \<^item> A propagation makes three changes to the cached acceptor before it is written. They all
    succeed or change nothing (\<open>propagate_all_or_nothing\<close>), except on an acceptor that was
    confirmed for an earlier version than its promise; the theorems on the replica ask for
    histories without such an acceptor (\<open>acceptors_current\<close>). The replica runs one request at a
    time; what the quorum answers to a reconciliation is arbitrary.

  \<^bold>\<open>Not modelled\<close>

  \<^item> The client side of the consensus in Paxos.cc (\<^verbatim>\<open>_store\<close>, \<^verbatim>\<open>_fetch\<close>, rebalancing, eviction of
    lost nodes): loops over a network that changes under them, with threads of their own;
    the proposer they call is Paxos_Client. The cache of blocks (Cache.cc), which depends on
    the clock and on a background thread. Overlays (src/memo/overlay) and the docking of
    peers: network discovery, whose answers are parameters.
  \<^item> Silos that are clients of services (S3, GCS, Dropbox, Google Drive, sftp, adb), the
    command line, the hub and gRPC: input and output.
  \<^item> In the modelled parts: signals to listeners, logging, statistics, printing for
    display; signatures computed in the background are computed at once.
\<close>

end
